(* ===== verification/Prelude.thy ===== *)
theory Prelude
  imports Complex_Main "HOL-Library.AList" "HOL-Library.Sublist" "HOL-Library.Char_ord"
    "HOL-Library.List_Lexorder" "HOL-Library.Multiset"
begin

section \<open>Shared types, Python library functions and automation\<close>

text \<open>
  What every component theory uses: the result type of operations that raise, the
  insertion-ordered dictionary, Python's slices, and the string functions the sources call
  (\<open>str.lower\<close>, \<open>in\<close>, \<open>startswith\<close>, \<open>strip\<close>, \<open>split\<close>, \<open>join\<close>, \<open>str(int)\<close>, \<open>int(str)\<close>).
  A Python string is a HOL \<open>string\<close>; one \<open>char\<close> stands for one code point, so the model
  covers text whose code points are below 256 and \<open>str.lower\<close> its ASCII letters. Floats are
  exact reals: rounding is not modelled.
\<close>

named_theorems py_simps \<open>equations of the Python library functions\<close>
named_theorems inv_intros \<open>preservation of a component's invariant by its operations\<close>

subsection \<open>Results of operations that may raise\<close>

text \<open>\<open>Inl e\<close> is a raised exception, \<open>Inr v\<close> a returned value.\<close>

type_synonym ('e, 'a) result = "'e + 'a"

definition is_ok :: "('e, 'a) result \<Rightarrow> bool" where
  "is_ok r = (case r of Inl _ \<Rightarrow> False | Inr _ \<Rightarrow> True)"

lemma is_ok_simps [simp]: "\<not> is_ok (Inl e)" "is_ok (Inr v)"
  by (simp_all add: is_ok_def)

lemma is_ok_iff: "is_ok r \<longleftrightarrow> (\<exists>v. r = Inr v)"
  by (cases r) auto

subsection \<open>Dictionaries\<close>

text \<open>
  A Python dict keeps insertion order and overwrites a present key in place: an association
  list with \<^const>\<open>AList.update\<close> is exactly that. Lookups are \<^const>\<open>map_of\<close>.
\<close>

type_synonym ('k, 'v) dict = "('k \<times> 'v) list"

definition dict_keys :: "('k, 'v) dict \<Rightarrow> 'k list" where
  "dict_keys d = map fst d"

definition dict_ok :: "('k, 'v) dict \<Rightarrow> bool" where
  "dict_ok d = distinct (map fst d)"

lemma map_of_dict_set [simp]: "map_of (AList.update k v d) = (map_of d)(k \<mapsto> v)"
  by (simp add: update_conv')

lemma dict_ok_update [simp, intro]: "dict_ok d \<Longrightarrow> dict_ok (AList.update k v d)"
  by (simp add: dict_ok_def distinct_update)

lemma dict_ok_Nil [simp]: "dict_ok []"
  by (simp add: dict_ok_def)

lemma set_keys_update [simp]: "fst ` set (AList.update k v d) = insert k (fst ` set d)"
  by (metis dom_map_of_conv_image_fst dom_fun_upd map_of_dict_set option.distinct(1))

lemma map_of_in_keys: "map_of d k = Some v \<Longrightarrow> k \<in> fst ` set d"
  by (metis dom_map_of_conv_image_fst domI)

subsection \<open>Slices\<close>

text \<open>\<open>xs[:k]\<close> and \<open>xs[k:]\<close>: a negative bound counts from the end; neither ever raises.\<close>

definition slice_to :: "'a list \<Rightarrow> int \<Rightarrow> 'a list" where
  "slice_to xs k = (if 0 \<le> k then take (nat k) xs else take (length xs - nat (- k)) xs)"

definition slice_from :: "'a list \<Rightarrow> int \<Rightarrow> 'a list" where
  "slice_from xs k = (if 0 \<le> k then drop (nat k) xs else drop (length xs - nat (- k)) xs)"

lemma slice_to_nonneg: "0 \<le> k \<Longrightarrow> slice_to xs k = take (nat k) xs"
  by (simp add: slice_to_def)

lemma set_slice_to: "set (slice_to xs k) \<subseteq> set xs"
  by (auto simp: slice_to_def dest: in_set_takeD)

lemma set_slice_from: "set (slice_from xs k) \<subseteq> set xs"
  by (auto simp: slice_from_def dest: in_set_dropD)

lemma length_slice_to: "0 \<le> k \<Longrightarrow> length (slice_to xs k) = min (length xs) (nat k)"
  by (simp add: slice_to_def min.commute)

lemma slice_to_Nil [simp]: "slice_to [] k = []"
  by (simp add: slice_to_def)

lemma slice_prefix: "prefix (slice_to xs k) xs"
  by (simp add: slice_to_def take_is_prefix)

lemma distinct_slice_to: "distinct xs \<Longrightarrow> distinct (slice_to xs k)"
  by (simp add: slice_to_def)

lemma sorted_wrt_slice_to: "sorted_wrt P xs \<Longrightarrow> sorted_wrt P (slice_to xs k)"
  by (simp add: slice_to_def sorted_wrt_take)

subsection \<open>Sorting\<close>

text \<open>Sorting by distinct keys forgets the order of the entries.\<close>

lemma filter_eq_unique:
  assumes "mset us = mset vs"
  shows "filter (\<lambda>x. k = x) us = filter (\<lambda>x. k = x) vs"
proof -
  have "filter (\<lambda>x. k = x) ws = replicate (count (mset ws) k) k" for ws :: "'a list"
    by (induction ws) auto
  then show ?thesis using assms by simp
qed

lemma sort_key_unique:
  assumes "mset xs = mset ys" and "distinct (map f xs)"
  shows "sort_key f xs = sort_key f ys"
proof (rule sym, rule properties_for_sort_key)
  show "mset (sort_key f xs) = mset ys" using assms(1) by simp
  show "sorted (map f (sort_key f xs))" by simp
  fix k assume "k \<in> set (sort_key f xs)"
  then have k: "k \<in> set xs" by simp
  have inj: "inj_on f (set xs)" using assms(2) distinct_map by blast
  have sub: "set ys = set xs" using assms(1) by (metis mset_eq_setD)
  have *: "filter (\<lambda>x. f k = f x) zs = filter (\<lambda>x. k = x) zs" if "set zs = set xs" for zs
    using that inj k by (intro filter_cong) (auto dest: inj_onD)
  have "filter (\<lambda>x. f k = f x) (sort_key f xs) = filter (\<lambda>x. k = x) (sort_key f xs)"
    by (rule *) simp
  also have "\<dots> = filter (\<lambda>x. k = x) ys"
    by (rule filter_eq_unique) (use assms(1) in simp)
  also have "\<dots> = filter (\<lambda>x. f k = f x) ys"
    by (rule * [OF sub, symmetric])
  finally show "filter (\<lambda>x. f k = f x) (sort_key f xs) = filter (\<lambda>x. f k = f x) ys" .
qed

lemma map_fst_map_snd [simp]: "map fst (map (\<lambda>(k, v). (k, g v)) kvs) = map fst kvs"
  by (induction kvs) auto

text \<open>For scanners that recurse on \<open>dropWhile\<close>.\<close>

lemma length_dropWhile_Suc [termination_simp]: "length (dropWhile P xs) < Suc (length xs)"
  by (simp add: le_imp_less_Suc length_dropWhile_le)

lemma length_dropWhile_less [termination_simp]: "xs \<noteq> [] \<Longrightarrow> P (hd xs) \<Longrightarrow> length (dropWhile P xs) < length xs"
  by (cases xs) (auto simp: le_imp_less_Suc length_dropWhile_le)

end
