(* ===== verification/Circuit_Breaker.thy ===== *)
theory Circuit_Breaker
  imports Prelude
begin

section \<open>The circuit breaker (streams/circuit\_breaker.py)\<close>

text \<open>
  \<open>CircuitBreaker\<close> wraps a callable. Its fields are a record; \<open>call\<close> is one function that
  takes the callable as a state transformer on an arbitrary world \<open>'w\<close> (so that "the callable
  is not run" is visible), the two readings of \<open>time.monotonic()\<close> the method may make (\<open>now\<close> on
  entry, \<open>now'\<close> after the callable raised) and the fallback value.
\<close>

datatype cb_phase = CLOSED | OPEN | HALF_OPEN

record circuit_breaker =
  cb_threshold :: int
  cb_recovery_timeout :: real
  cb_state :: cb_phase
  cb_failures :: int
  cb_opened_at :: real

definition cb_init :: "int \<Rightarrow> real \<Rightarrow> circuit_breaker" where
  "cb_init threshold recovery_timeout =
     \<lparr>cb_threshold = threshold, cb_recovery_timeout = recovery_timeout,
      cb_state = CLOSED, cb_failures = 0, cb_opened_at = 0\<rparr>"

text \<open>The part of \<open>call\<close> that runs the callable, after the check of the open state.\<close>

definition cb_attempt ::
  "circuit_breaker \<Rightarrow> ('w \<Rightarrow> ('e, 'a) result \<times> 'w) \<Rightarrow> real \<Rightarrow> 'w
     \<Rightarrow> ('e, 'a) result \<times> circuit_breaker \<times> 'w" where
  "cb_attempt cb fn now' w =
     (case fn w of
        (Inl e, w') \<Rightarrow>
          (let cb1 = cb\<lparr>cb_failures := cb_failures cb + 1\<rparr>
           in if cb_state cb1 = HALF_OPEN \<or> cb_failures cb1 \<ge> cb_threshold cb1
              then (Inl e, cb1\<lparr>cb_state := OPEN, cb_opened_at := now'\<rparr>, w')
              else (Inl e, cb1, w'))
      | (Inr v, w') \<Rightarrow> (Inr v, cb\<lparr>cb_failures := 0, cb_state := CLOSED\<rparr>, w'))"

definition cb_call ::
  "circuit_breaker \<Rightarrow> ('w \<Rightarrow> ('e, 'a) result \<times> 'w) \<Rightarrow> 'a \<Rightarrow> real \<Rightarrow> real \<Rightarrow> 'w
     \<Rightarrow> ('e, 'a) result \<times> circuit_breaker \<times> 'w" where
  "cb_call cb fn fallback now now' w =
     (if cb_state cb = OPEN
      then if now - cb_opened_at cb \<ge> cb_recovery_timeout cb
           then cb_attempt (cb\<lparr>cb_state := HALF_OPEN\<rparr>) fn now' w
           else (Inr fallback, cb, w)
      else cb_attempt cb fn now' w)"

subsection \<open>One call\<close>

lemma cb_call_open_rejects:
  assumes "cb_state cb = OPEN" and "now - cb_opened_at cb < cb_recovery_timeout cb"
  shows "cb_call cb fn fallback now now' w = (Inr fallback, cb, w)"
  using assms by (simp add: cb_call_def)

lemma cb_call_success:
  assumes "fn w = (Inr v, w')"
    and "cb_state cb = OPEN \<longrightarrow> cb_recovery_timeout cb \<le> now - cb_opened_at cb"
  shows "cb_call cb fn fallback now now' w =
    (Inr v, cb\<lparr>cb_failures := 0, cb_state := CLOSED\<rparr>, w')"
  using assms by (simp add: cb_call_def cb_attempt_def)

lemma cb_call_closed_failure:
  assumes "cb_state cb = CLOSED" and "fn w = (Inl e, w')"
  shows "cb_call cb fn fallback now now' w =
    (Inl e,
     (if cb_threshold cb \<le> cb_failures cb + 1
      then cb\<lparr>cb_failures := cb_failures cb + 1, cb_state := OPEN, cb_opened_at := now'\<rparr>
      else cb\<lparr>cb_failures := cb_failures cb + 1\<rparr>), w')"
  using assms by (simp add: cb_call_def cb_attempt_def Let_def)

lemma cb_call_probe_failure:
  assumes "cb_state cb = OPEN" and "cb_recovery_timeout cb \<le> now - cb_opened_at cb"
    and "fn w = (Inl e, w')"
  shows "cb_call cb fn fallback now now' w =
    (Inl e, cb\<lparr>cb_failures := cb_failures cb + 1, cb_state := OPEN, cb_opened_at := now'\<rparr>, w')"
  using assms by (simp add: cb_call_def cb_attempt_def Let_def)

subsection \<open>The invariant between calls\<close>

text \<open>
  Between calls the breaker is never half open, and a closed breaker has fewer failures than
  its threshold (for a positive threshold).
\<close>

definition cb_inv :: "circuit_breaker \<Rightarrow> bool" where
  "cb_inv cb \<longleftrightarrow> cb_state cb \<noteq> HALF_OPEN \<and> 0 \<le> cb_failures cb \<and>
     (cb_state cb = CLOSED \<longrightarrow> cb_failures cb < cb_threshold cb)"

lemma cb_inv_init [inv_intros]: "0 < threshold \<Longrightarrow> cb_inv (cb_init threshold timeout)"
  by (simp add: cb_inv_def cb_init_def)

lemma cb_call_inv [inv_intros]:
  assumes "cb_inv cb" and "0 < cb_threshold cb"
    and "cb_call cb fn fallback now now' w = (r, cb', w')"
  shows "cb_inv cb'"
  using assms
  by (auto simp: cb_inv_def cb_call_def cb_attempt_def Let_def split: if_splits prod.splits sum.splits)

lemma cb_call_config:
  assumes "cb_call cb fn fallback now now' w = (r, cb', w')"
  shows "cb_threshold cb' = cb_threshold cb" "cb_recovery_timeout cb' = cb_recovery_timeout cb"
  using assms
  by (auto simp: cb_call_def cb_attempt_def Let_def split: if_splits prod.splits sum.splits)

subsection \<open>Refinement of the abstract breaker\<close>

text \<open>
  The contract: a closed breaker counts consecutive failures and opens at the threshold; an
  open one rejects until the recovery time has passed and then lets one probe decide.
\<close>

datatype breaker = Closed int | Opened real

definition breaker_step :: "int \<Rightarrow> real \<Rightarrow> bool \<times> real \<times> real \<Rightarrow> breaker \<Rightarrow> breaker" where
  "breaker_step threshold timeout ev b =
     (case ev of (fails, now, now') \<Rightarrow>
       (case b of
          Closed k \<Rightarrow>
            (if \<not> fails then Closed 0 else if threshold \<le> k + 1 then Opened now' else Closed (k + 1))
        | Opened t0 \<Rightarrow>
            (if now - t0 < timeout then Opened t0 else if fails then Opened now' else Closed 0)))"

definition cb_abs :: "circuit_breaker \<Rightarrow> breaker" where
  "cb_abs cb = (if cb_state cb = OPEN then Opened (cb_opened_at cb) else Closed (cb_failures cb))"

text \<open>A run of calls: each event says whether the callable fails and what the clock reads.\<close>

definition cb_event :: "bool \<times> real \<times> real \<Rightarrow> circuit_breaker \<Rightarrow> circuit_breaker" where
  "cb_event ev cb =
     (case ev of (fails, now, now') \<Rightarrow>
        fst (snd (cb_call cb (\<lambda>w :: unit. (if fails then Inl () else Inr (), w)) () now now' ())))"

definition cb_run :: "circuit_breaker \<Rightarrow> (bool \<times> real \<times> real) list \<Rightarrow> circuit_breaker" where
  "cb_run cb evs = fold cb_event evs cb"

lemma cb_event_inv [inv_intros]:
  assumes "cb_inv cb" and "0 < cb_threshold cb"
  shows "cb_inv (cb_event ev cb)"
proof (cases ev)
  case (fields fails now now')
  obtain r cb' w' where
    "cb_call cb (\<lambda>w :: unit. (if fails then Inl () else Inr (), w)) () now now' () = (r, cb', w')"
    by (metis prod_cases3)
  with cb_call_inv [OF assms this] fields show ?thesis by (simp add: cb_event_def)
qed

lemma cb_event_config [simp]:
  "cb_threshold (cb_event ev cb) = cb_threshold cb"
  "cb_recovery_timeout (cb_event ev cb) = cb_recovery_timeout cb"
  by (auto simp: cb_event_def cb_call_def cb_attempt_def Let_def split: prod.splits)

lemma cb_event_refines:
  assumes "cb_inv cb" and "0 < cb_threshold cb"
  shows "cb_abs (cb_event ev cb) =
    breaker_step (cb_threshold cb) (cb_recovery_timeout cb) ev (cb_abs cb)"
proof (cases "cb_state cb")
  case HALF_OPEN
  with assms show ?thesis by (simp add: cb_inv_def)
qed (use assms in \<open>auto simp: cb_event_def cb_call_def cb_attempt_def cb_abs_def breaker_step_def
       Let_def split: prod.splits\<close>)

lemma cb_run_inv [inv_intros]:
  "cb_inv cb \<Longrightarrow> 0 < cb_threshold cb \<Longrightarrow> cb_inv (cb_run cb evs)"
  by (induction evs arbitrary: cb) (simp_all add: cb_run_def inv_intros)

lemma cb_run_refines_spec:
  assumes "cb_inv cb" and "0 < cb_threshold cb"
  shows "cb_abs (cb_run cb evs) =
    fold (breaker_step (cb_threshold cb) (cb_recovery_timeout cb)) evs (cb_abs cb)"
  using assms
proof (induction evs arbitrary: cb)
  case Nil
  then show ?case by (simp add: cb_run_def)
next
  case (Cons ev evs)
  from Cons.IH [of "cb_event ev cb"] Cons.prems show ?case
    by (simp add: cb_run_def cb_event_inv cb_event_refines)
qed

lemma breaker_failures:
  assumes "\<forall>ev \<in> set evs. fst ev" and "int (length evs) + k < threshold"
  shows "fold (breaker_step threshold timeout) evs (Closed k) = Closed (int (length evs) + k)"
  using assms
proof (induction evs arbitrary: k)
  case (Cons ev evs)
  from Cons.prems Cons.IH [of "k + 1"] show ?case
    by (cases ev) (simp add: breaker_step_def algebra_simps)
qed simp

text \<open>
  \<^bold>\<open>C1.\<close> The breaker, created with a positive threshold and used for any sequence of calls,
  behaves as the abstract breaker: it opens exactly on the threshold-th consecutive failure or
  on a failed probe, stays open until the recovery time has passed, and one success closes it.
  Between calls it is never half open.
\<close>

theorem cb_refines_breaker:
  assumes "0 < threshold"
  shows "cb_abs (cb_run (cb_init threshold timeout) evs) =
      fold (breaker_step threshold timeout) evs (Closed 0)
    \<and> cb_state (cb_run (cb_init threshold timeout) evs) \<noteq> HALF_OPEN"
proof -
  have inv: "cb_inv (cb_init threshold timeout)" using assms by (rule cb_inv_init)
  have cfg: "cb_threshold (cb_init threshold timeout) = threshold"
      "cb_recovery_timeout (cb_init threshold timeout) = timeout"
      "cb_abs (cb_init threshold timeout) = Closed 0"
    by (simp_all add: cb_init_def cb_abs_def)
  have "cb_inv (cb_run (cb_init threshold timeout) evs)"
    using inv assms by (intro cb_run_inv) (simp_all add: cfg)
  then show ?thesis
    using cb_run_refines_spec [OF inv, of evs] assms by (simp add: cfg cb_inv_def)
qed

lemma cb_refines_breaker_witness:
  "(0 :: int) < 2 \<and>
   cb_abs (cb_run (cb_init 2 1) [(True, 0, 0), (True, 1, 2), (False, 4, 4)]) = Closed 0"
  using cb_refines_breaker [of 2 1 "[(True, 0, 0), (True, 1, 2), (False, 4, 4)]"]
  by (simp add: breaker_step_def)

text \<open>
  A breaker that tripped on its threshold-th consecutive failure rejects every call made
  before the recovery time has passed: the callable is not run (the world is unchanged), the
  fallback is returned and the breaker's state does not change.
\<close>

theorem cb_trips_and_rejects:
  fixes fn :: "'w \<Rightarrow> ('e, 'a) result \<times> 'w"
  assumes "\<forall>ev \<in> set evs. fst ev" and "int (length evs) = threshold - 1" and "0 < threshold"
    and "now - t' < timeout"
    and "cb = cb_run (cb_init threshold timeout) (evs @ [(True, t, t')])"
  shows "cb_state (cb_run (cb_init threshold timeout) evs) = CLOSED
    \<and> cb_state cb = OPEN \<and> cb_call cb fn fallback now now' w = (Inr fallback, cb, w)"
proof -
  let ?i = "cb_init threshold timeout"
  have inv: "cb_inv ?i" using assms(3) by (rule cb_inv_init)
  have cfg: "cb_threshold ?i = threshold" "cb_recovery_timeout ?i = timeout" "cb_abs ?i = Closed 0"
    by (simp_all add: cb_init_def cb_abs_def)
  have frame: "cb_recovery_timeout (cb_run b es) = cb_recovery_timeout b" for b es
    by (induction es arbitrary: b) (simp_all add: cb_run_def)
  have before: "cb_abs (cb_run ?i evs) = Closed (threshold - 1)"
    using cb_run_refines_spec [OF inv, of evs] breaker_failures [OF assms(1), of 0 threshold timeout]
      assms(2,3) by (simp add: cfg)
  have "cb_inv (cb_run ?i evs)" using inv assms(3) by (intro cb_run_inv) (simp_all add: cfg)
  with before have closed: "cb_state (cb_run ?i evs) = CLOSED"
    by (cases "cb_state (cb_run ?i evs)") (auto simp: cb_abs_def cb_inv_def)
  have "cb_abs cb = Opened t'"
    using cb_run_refines_spec [OF inv, of "evs @ [(True, t, t')]"] before
      cb_run_refines_spec [OF inv, of evs] assms(3,5) by (simp add: cfg breaker_step_def)
  then have opened: "cb_state cb = OPEN" "cb_opened_at cb = t'"
    by (auto simp: cb_abs_def split: if_splits)
  show ?thesis
    using closed opened assms(4,5) by (simp add: cb_call_open_rejects frame cfg)
qed

lemma cb_trips_and_rejects_witness:
  "cb_call (cb_run (cb_init 2 5) [(True, 0, 1), (True, 2, 3)])
     (\<lambda>w :: nat. (Inr 7 :: (unit, int) result, Suc w)) 0 4 4 10
   = (Inr 0, cb_run (cb_init 2 5) [(True, 0, 1), (True, 2, 3)], 10)"
  using cb_trips_and_rejects [of "[(True, 0, 1)]" 2 4 3 5 _ 2
      "(\<lambda>w :: nat. (Inr 7 :: (unit, int) result, Suc w))" 0 4 10]
  by simp

end
