(* ===== verification/Py_String.thy ===== *)
theory Py_String
  imports Prelude
begin

section \<open>The Python string functions the sources use\<close>

text \<open>
  Executable definitions of \<open>str.lower\<close>, \<open>in\<close>, \<open>str.startswith\<close>, \<open>str.strip\<close>, \<open>str.split\<close>,
  \<open>sep.join\<close>, \<open>str.partition\<close>, \<open>str(n)\<close> and \<open>int(s)\<close>, with the facts the components need:
  containment is the sublist relation and is monotone, decimal printing is injective and
  read back by \<open>int\<close>, joining after splitting at a separator gives the string back.
\<close>

subsection \<open>Characters\<close>

definition code :: "char \<Rightarrow> nat" where
  "code c = of_char c"

definition lower_char :: "char \<Rightarrow> char" where
  "lower_char c = (if 65 \<le> code c \<and> code c \<le> 90 then char_of (code c + 32) else c)"

definition upper_char :: "char \<Rightarrow> char" where
  "upper_char c = (if 97 \<le> code c \<and> code c \<le> 122 then char_of (code c - 32) else c)"

definition is_space :: "char \<Rightarrow> bool" where
  "is_space c = (let n = code c in
     (9 \<le> n \<and> n \<le> 13) \<or> (28 \<le> n \<and> n \<le> 32) \<or> n = 133 \<or> n = 160)"

definition is_digit :: "char \<Rightarrow> bool" where
  "is_digit c = (48 \<le> code c \<and> code c \<le> 57)"

definition is_letter :: "char \<Rightarrow> bool" where
  "is_letter c = ((65 \<le> code c \<and> code c \<le> 90) \<or> (97 \<le> code c \<and> code c \<le> 122))"

text \<open>\<open>\w\<close> of a Python pattern, on ASCII: letters, digits and the underscore.\<close>

definition is_word :: "char \<Rightarrow> bool" where
  "is_word c = (is_letter c \<or> is_digit c \<or> c = CHR ''_'')"

definition py_lower :: "string \<Rightarrow> string" where
  "py_lower s = map lower_char s"

definition py_upper :: "string \<Rightarrow> string" where
  "py_upper s = map upper_char s"

lemma lower_char_idem [simp]: "lower_char (lower_char c) = lower_char c"
  by (auto simp: lower_char_def code_def)

lemma py_lower_idem [simp]: "py_lower (py_lower s) = py_lower s"
  by (simp add: py_lower_def)

lemma py_lower_append [simp]: "py_lower (s @ t) = py_lower s @ py_lower t"
  by (simp add: py_lower_def)

subsection \<open>Containment\<close>

fun str_in :: "string \<Rightarrow> string \<Rightarrow> bool" where
  "str_in p [] = (p = [])"
| "str_in p (c # cs) = (prefix p (c # cs) \<or> str_in p cs)"

definition startswith :: "string \<Rightarrow> string \<Rightarrow> bool" where
  "startswith s p = prefix p s"

lemma str_in_sublist: "str_in p s \<longleftrightarrow> sublist p s"
proof (induction s)
  case (Cons c cs)
  then show ?case by (simp add: sublist_Cons_right)
qed simp

lemma str_in_append: "str_in p s \<Longrightarrow> str_in p (s @ t)" "str_in p t \<Longrightarrow> str_in p (s @ t)"
  by (auto simp: str_in_sublist intro: sublist_appendI sublist_order.order_trans
      dest: sublist_order.order_trans [OF _ sublist_append_rightI]
            sublist_order.order_trans [OF _ sublist_append_leftI])

lemma str_in_refl [simp]: "str_in s s"
  by (simp add: str_in_sublist)

lemma str_in_Nil [simp]: "str_in [] s"
  by (simp add: str_in_sublist)

subsection \<open>Strip, split, join, partition\<close>

definition lstrip :: "string \<Rightarrow> string" where
  "lstrip s = dropWhile is_space s"

definition py_strip :: "string \<Rightarrow> string" where
  "py_strip s = rev (dropWhile is_space (rev (dropWhile is_space s)))"

text \<open>\<open>s.split()\<close>: the maximal runs of non-space characters.\<close>

fun split_acc :: "string \<Rightarrow> string \<Rightarrow> string list" where
  "split_acc acc [] = (if acc = [] then [] else [rev acc])"
| "split_acc acc (c # cs) =
     (if is_space c then (if acc = [] then split_acc [] cs else rev acc # split_acc [] cs)
      else split_acc (c # acc) cs)"

definition py_split :: "string \<Rightarrow> string list" where
  "py_split s = split_acc [] s"

text \<open>\<open>s.split(sep)\<close> for a one-character separator.\<close>

fun split_on :: "char \<Rightarrow> string \<Rightarrow> string list" where
  "split_on d [] = [[]]"
| "split_on d (c # cs) =
     (if c = d then [] # split_on d cs
      else (case split_on d cs of [] \<Rightarrow> [[c]] | w # ws \<Rightarrow> (c # w) # ws))"

fun py_join :: "string \<Rightarrow> string list \<Rightarrow> string" where
  "py_join sep [] = []"
| "py_join sep [x] = x"
| "py_join sep (x # y # ys) = x @ sep @ py_join sep (y # ys)"

text \<open>\<open>s.partition(c)\<close>: the text before the first \<open>c\<close> and, if there is one, the text after it.\<close>

definition partition_at :: "char \<Rightarrow> string \<Rightarrow> string \<times> string option" where
  "partition_at d s =
     (let pre = takeWhile (\<lambda>c. c \<noteq> d) s
      in (pre, if d \<in> set s then Some (drop (length pre + 1) s) else None))"

lemma split_on_nonempty [simp]: "split_on d s \<noteq> []"
  by (induction s) (auto split: list.splits)

lemma join_split_on: "py_join [d] (split_on d s) = s"
proof (induction s)
  case (Cons c cs)
  obtain w ws where w: "split_on d cs = w # ws" by (cases "split_on d cs") auto
  with Cons show ?case by (cases ws) auto
qed simp

lemma split_acc_words:
  "\<forall>c \<in> set acc. \<not> is_space c \<Longrightarrow> w \<in> set (split_acc acc s)
     \<Longrightarrow> w \<noteq> [] \<and> (\<forall>c \<in> set w. \<not> is_space c)"
proof (induction acc s arbitrary: w rule: split_acc.induct)
  case (2 acc c cs)
  show ?case
  proof (cases "is_space c")
    case True
    show ?thesis
    proof (cases "acc = []")
      case True
      with \<open>is_space c\<close> "2.prems" "2.IH"(1) [of w] show ?thesis by simp
    next
      case False
      with \<open>is_space c\<close> "2.prems" have "w = rev acc \<or> w \<in> set (split_acc [] cs)" by simp
      then show ?thesis
        using False \<open>is_space c\<close> "2.prems"(1) "2.IH"(2) [of w] by (elim disjE) simp_all
    qed
  next
    case False
    with "2.prems" "2.IH"(3) [of w] show ?thesis by simp
  qed
qed (simp split: if_splits)

lemma py_split_words: "w \<in> set (py_split s) \<Longrightarrow> w \<noteq> [] \<and> (\<forall>c \<in> set w. \<not> is_space c)"
  using split_acc_words [of "[]" w s] by (simp add: py_split_def)

lemma split_acc_word:
  "\<forall>c \<in> set w. \<not> is_space c \<Longrightarrow> split_acc acc (w @ s) = split_acc (rev w @ acc) s"
  by (induction w arbitrary: acc) auto

lemma split_join_space:
  assumes "\<forall>w \<in> set ws. w \<noteq> [] \<and> (\<forall>c \<in> set w. \<not> is_space c)"
  shows "py_split (py_join '' '' ws) = ws"
proof -
  have sp: "is_space (CHR '' '')" by (simp add: is_space_def code_def)
  show ?thesis
    unfolding py_split_def using assms
  proof (induction "'' ''" ws rule: py_join.induct)
    case (2 x)
    then show ?case using split_acc_word [of x "[]" "[]"] by simp
  next
    case (3 x y ys)
    then show ?case using split_acc_word [of x "[]" "CHR '' '' # py_join '' '' (y # ys)"] sp by simp
  qed simp
qed

lemma partition_at_no:
  assumes "d \<notin> set s" shows "partition_at d s = (s, None)"
proof -
  have "takeWhile (\<lambda>c. c \<noteq> d) s = s" using assms by (auto simp: takeWhile_eq_all_conv)
  then show ?thesis using assms by (simp add: partition_at_def)
qed

lemma partition_at_hit:
  assumes "d \<notin> set u" shows "partition_at d (u @ d # t) = (u, Some t)"
proof -
  have "takeWhile (\<lambda>c. c \<noteq> d) (u @ d # t) = u"
    using assms by (subst takeWhile_append2) auto
  then show ?thesis by (simp add: partition_at_def)
qed

subsection \<open>Decimal numbers\<close>

definition digit_char :: "nat \<Rightarrow> char" where
  "digit_char n = char_of (48 + n)"

definition digit_val :: "char \<Rightarrow> nat" where
  "digit_val c = code c - 48"

fun show_nat :: "nat \<Rightarrow> string" where
  "show_nat n = (if n < 10 then [digit_char n] else show_nat (n div 10) @ [digit_char (n mod 10)])"

declare show_nat.simps [simp del]

definition show_int :: "int \<Rightarrow> string" where
  "show_int i = (if i < 0 then CHR ''-'' # show_nat (nat (- i)) else show_nat (nat i))"

definition digits_val :: "string \<Rightarrow> nat" where
  "digits_val s = foldl (\<lambda>acc c. 10 * acc + digit_val c) 0 s"

text \<open>
  The text \<open>int\<close> accepts: an optional sign and decimal digits, with single underscores
  between digits, surrounded by white space.
\<close>

fun digits_ok :: "bool \<Rightarrow> string \<Rightarrow> bool" where
  "digits_ok prev [] = prev"
| "digits_ok prev (c # cs) =
     (if is_digit c then digits_ok True cs
      else c = CHR ''_'' \<and> prev \<and> cs \<noteq> [] \<and> is_digit (hd cs) \<and> digits_ok False cs)"

definition parse_digits :: "string \<Rightarrow> nat option" where
  "parse_digits s = (if digits_ok False s then Some (digits_val (filter is_digit s)) else None)"

definition parse_int :: "string \<Rightarrow> int option" where
  "parse_int s =
     (case py_strip s of
        [] \<Rightarrow> None
      | c # cs \<Rightarrow>
          if c = CHR ''-'' then map_option (\<lambda>n. - int n) (parse_digits cs)
          else if c = CHR ''+'' then map_option int (parse_digits cs)
          else map_option int (parse_digits (c # cs)))"

lemma code_digit_char [simp]: "n < 10 \<Longrightarrow> code (digit_char n) = 48 + n"
  by (simp add: code_def digit_char_def)

lemma is_digit_digit_char [simp]: "n < 10 \<Longrightarrow> is_digit (digit_char n)"
  by (simp add: is_digit_def)

lemma digit_val_digit_char [simp]: "n < 10 \<Longrightarrow> digit_val (digit_char n) = n"
  by (simp add: digit_val_def)

lemma show_nat_digits: "c \<in> set (show_nat n) \<Longrightarrow> is_digit c"
proof (induction n rule: show_nat.induct)
  case (1 n)
  then show ?case by (cases "n < 10") (auto simp: show_nat.simps [of n])
qed

lemma show_nat_nonempty [simp]: "show_nat n \<noteq> []"
  by (subst show_nat.simps) simp

lemma digits_val_show_nat [simp]: "digits_val (show_nat n) = n"
proof (induction n rule: show_nat.induct)
  case (1 n)
  show ?case
  proof (cases "n < 10")
    case True
    then show ?thesis by (simp add: show_nat.simps [of n] digits_val_def)
  next
    case False
    with 1 show ?thesis by (simp add: show_nat.simps [of n] digits_val_def)
  qed
qed

lemma show_nat_inject [simp]: "show_nat m = show_nat n \<longleftrightarrow> m = n"
  by (metis digits_val_show_nat)

lemma digits_ok_all: "(\<forall>c \<in> set s. is_digit c) \<Longrightarrow> digits_ok b s = (b \<or> s \<noteq> [])"
  by (induction s arbitrary: b) auto

lemma parse_digits_show_nat: "parse_digits (show_nat n) = Some n"
  using show_nat_digits [of _ n] digits_ok_all [of "show_nat n" False]
  by (simp add: parse_digits_def filter_id_conv [THEN iffD2])

lemma not_digits: "\<not> is_digit (CHR ''-'')" "\<not> is_digit (CHR ''+'')" "\<not> is_digit (CHR ''_'')"
  by (simp_all add: is_digit_def code_def)

lemma digit_not_space: "is_digit c \<Longrightarrow> \<not> is_space c"
  by (simp add: is_digit_def is_space_def Let_def)

lemma digit_not_special:
  "is_digit c \<Longrightarrow> \<not> is_space c \<and> c \<noteq> CHR ''-'' \<and> c \<noteq> CHR ''+'' \<and> c \<noteq> CHR ''_''"
  using digit_not_space not_digits by blast

lemma strip_no_space: "\<forall>c \<in> set s. \<not> is_space c \<Longrightarrow> py_strip s = s"
proof -
  assume *: "\<forall>c \<in> set s. \<not> is_space c"
  then have "dropWhile is_space s = s" by (cases s) auto
  moreover from * have "\<forall>c \<in> set (rev s). \<not> is_space c" by simp
  then have "dropWhile is_space (rev s) = rev s" by (cases "rev s") auto
  ultimately show ?thesis by (simp add: py_strip_def)
qed

lemma parse_int_show_int: "parse_int (show_int i) = Some i"
proof -
  have nat: "parse_int (show_nat n) = Some (int n)" for n
  proof -
    obtain c cs where c: "show_nat n = c # cs" by (cases "show_nat n") auto
    have "py_strip (show_nat n) = show_nat n"
      using show_nat_digits [of _ n] digit_not_special by (intro strip_no_space) blast
    with c show ?thesis
      using show_nat_digits [of c n] digit_not_special [of c] parse_digits_show_nat [of n]
      by (simp add: parse_int_def)
  qed
  show ?thesis
  proof (cases "i < 0")
    case True
    have "py_strip (CHR ''-'' # show_nat (nat (- i))) = CHR ''-'' # show_nat (nat (- i))"
      using show_nat_digits [of _ "nat (- i)"] digit_not_special
      by (intro strip_no_space) (auto simp: is_space_def code_def)
    with True show ?thesis by (simp add: show_int_def parse_int_def parse_digits_show_nat)
  qed (simp add: show_int_def nat)
qed

text \<open>The equations that evaluate these functions on literals.\<close>

lemmas char_eval = code_def is_space_def is_digit_def is_letter_def is_word_def lower_char_def upper_char_def
lemmas str_eval = char_eval py_lower_def py_upper_def py_strip_def lstrip_def py_split_def startswith_def

end
