(* ===== verification/Redis_Client.thy ===== *)
theory Redis_Client
  imports Py_String
begin

section \<open>The Redis client as an interface\<close>

text \<open>
  Redis is not part of the repository: every component that uses it takes the client's
  operations as an argument, a record of functions on an arbitrary server state \<open>'r\<close>
  (\<open>rc_setnx\<close> and \<open>rc_setnx_px\<close> are SET NX with an expiry in seconds and in milliseconds). An
  operation returns its reply or the client exception, and the new server state: when an exception
  came back, the command was either executed as a whole or not at all. The documented behaviour is the locale
  \<open>redis_replies\<close> (what a reply says about the keys a client can observe, \<open>view\<close>) and
  \<open>redis_store\<close> (a reachable server replies). Expiry of a key between two operations is a change
  of the server state by the environment and is written out where it matters.
\<close>

datatype redis_error = RedisError string

record 'r redis_client =
  rc_get :: "'r \<Rightarrow> string \<Rightarrow> (redis_error, string option) result"
  rc_set :: "'r \<Rightarrow> string \<Rightarrow> string \<Rightarrow> (redis_error, unit) result \<times> 'r"
  rc_setex :: "'r \<Rightarrow> string \<Rightarrow> int \<Rightarrow> string \<Rightarrow> (redis_error, unit) result \<times> 'r"
  rc_setnx :: "'r \<Rightarrow> string \<Rightarrow> string \<Rightarrow> int \<Rightarrow> (redis_error, bool) result \<times> 'r"
  rc_setnx_px :: "'r \<Rightarrow> string \<Rightarrow> string \<Rightarrow> int \<Rightarrow> (redis_error, bool) result \<times> 'r"
  rc_delete :: "'r \<Rightarrow> string \<Rightarrow> (redis_error, unit) result \<times> 'r"
  rc_getdel :: "'r \<Rightarrow> string \<Rightarrow> (redis_error, string option) result \<times> 'r"

locale redis_replies =
  fixes c :: "'r redis_client"
    and view :: "'r \<Rightarrow> string \<Rightarrow> string option"
  assumes get_reply: "rc_get c s k = Inr reply \<Longrightarrow> reply = view s k"
    and set_reply: "rc_set c s k v = (Inr (), s') \<Longrightarrow> view s' = (view s)(k \<mapsto> v)"
    and setex_reply: "rc_setex c s k ttl v = (Inr (), s') \<Longrightarrow> view s' = (view s)(k \<mapsto> v)"
    and setnx_reply: "rc_setnx c s k v ttl = (Inr b, s') \<Longrightarrow>
      b = (view s k = None) \<and> view s' = (if b then (view s)(k \<mapsto> v) else view s)"
    and setnx_px_reply: "rc_setnx_px c s k v ttl = (Inr b, s') \<Longrightarrow>
      b = (view s k = None) \<and> view s' = (if b then (view s)(k \<mapsto> v) else view s)"
    and delete_reply: "rc_delete c s k = (Inr (), s') \<Longrightarrow> view s' = (view s)(k := None)"
    and getdel_reply: "rc_getdel c s k = (Inr reply, s') \<Longrightarrow> reply = view s k \<and> view s' = (view s)(k := None)"
    and setnx_raised: "rc_setnx c s k v ttl = (Inl e, s') \<Longrightarrow>
      view s' = view s \<or> view s k = None \<and> view s' = (view s)(k \<mapsto> v)"
    and setnx_px_raised: "rc_setnx_px c s k v ttl = (Inl e, s') \<Longrightarrow>
      view s' = view s \<or> view s k = None \<and> view s' = (view s)(k \<mapsto> v)"
    and delete_raised: "rc_delete c s k = (Inl e, s') \<Longrightarrow> view s' = view s \<or> view s' = (view s)(k := None)"

locale redis_store = redis_replies +
  fixes up :: "'r \<Rightarrow> bool"
  assumes get_up: "up s \<Longrightarrow> is_ok (rc_get c s k)"
    and set_up: "up s \<Longrightarrow> is_ok (fst (rc_set c s k v)) \<and> up (snd (rc_set c s k v))"
    and setex_up: "up s \<Longrightarrow> is_ok (fst (rc_setex c s k ttl v)) \<and> up (snd (rc_setex c s k ttl v))"
    and setnx_up: "up s \<Longrightarrow> is_ok (fst (rc_setnx c s k v ttl)) \<and> up (snd (rc_setnx c s k v ttl))"
    and setnx_px_up: "up s \<Longrightarrow> is_ok (fst (rc_setnx_px c s k v ttl)) \<and> up (snd (rc_setnx_px c s k v ttl))"
    and delete_up: "up s \<Longrightarrow> is_ok (fst (rc_delete c s k)) \<and> up (snd (rc_delete c s k))"
    and getdel_up: "up s \<Longrightarrow> is_ok (fst (rc_getdel c s k)) \<and> up (snd (rc_getdel c s k))"
begin

lemma get_eq: "up s \<Longrightarrow> rc_get c s k = Inr (view s k)"
  using get_up [of s k] get_reply [of s k] by (auto simp: is_ok_iff)

lemma set_eq:
  assumes "up s"
  obtains s' where "rc_set c s k v = (Inr (), s')" "up s'" "view s' = (view s)(k \<mapsto> v)"
  using set_up [OF assms, of k v] set_reply [of s k v] by (cases "rc_set c s k v") (auto simp: is_ok_iff)

lemma setex_eq:
  assumes "up s"
  obtains s' where "rc_setex c s k ttl v = (Inr (), s')" "up s'" "view s' = (view s)(k \<mapsto> v)"
  using setex_up [OF assms, of k ttl v] setex_reply [of s k ttl v]
  by (cases "rc_setex c s k ttl v") (auto simp: is_ok_iff)

lemma setnx_eq:
  assumes "up s"
  obtains s' where "rc_setnx c s k v ttl = (Inr (view s k = None), s')" "up s'"
    "view s' = (if view s k = None then (view s)(k \<mapsto> v) else view s)"
proof -
  obtain b s' where r: "rc_setnx c s k v ttl = (Inr b, s')"
    using setnx_up [OF assms, of k v ttl] by (metis is_ok_iff prod.collapse)
  with setnx_reply [OF r] setnx_up [OF assms, of k v ttl] that [of s'] show thesis by simp
qed

lemma delete_eq:
  assumes "up s"
  obtains s' where "rc_delete c s k = (Inr (), s')" "up s'" "view s' = (view s)(k := None)"
  using delete_up [OF assms, of k] delete_reply [of s k] by (cases "rc_delete c s k") (auto simp: is_ok_iff)

lemma getdel_eq:
  assumes "up s"
  obtains s' where "rc_getdel c s k = (Inr (view s k), s')" "up s'" "view s' = (view s)(k := None)"
proof -
  obtain b s' where r: "rc_getdel c s k = (Inr b, s')"
    using getdel_up [OF assms, of k] by (metis is_ok_iff prod.collapse)
  with getdel_reply [OF r] getdel_up [OF assms, of k] that [of s'] show thesis by simp
qed

end

subsection \<open>An in-process store\<close>

text \<open>
  The instance the laws are checked on: a map in memory, as the in-process fallback the
  repository starts with when no Redis address is configured.
\<close>

type_synonym mem_state = "string \<Rightarrow> string option"

definition mem_redis :: "mem_state redis_client" where
  "mem_redis =
     \<lparr>rc_get = (\<lambda>s k. Inr (s k)),
      rc_set = (\<lambda>s k v. (Inr (), s(k \<mapsto> v))),
      rc_setex = (\<lambda>s k ttl v. (Inr (), s(k \<mapsto> v))),
      rc_setnx = (\<lambda>s k v ttl. (case s k of None \<Rightarrow> (Inr True, s(k \<mapsto> v)) | Some _ \<Rightarrow> (Inr False, s))),
      rc_setnx_px = (\<lambda>s k v ttl. (case s k of None \<Rightarrow> (Inr True, s(k \<mapsto> v)) | Some _ \<Rightarrow> (Inr False, s))),
      rc_delete = (\<lambda>s k. (Inr (), s(k := None))),
      rc_getdel = (\<lambda>s k. (Inr (s k), s(k := None)))\<rparr>"

interpretation mem: redis_store mem_redis "\<lambda>s. s" "\<lambda>_. True"
  by unfold_locales (auto simp: mem_redis_def is_ok_def split: option.splits)

text \<open>A client whose server is unreachable: every operation raises and changes nothing.\<close>

definition down_redis :: "'r redis_client" where
  "down_redis =
     \<lparr>rc_get = (\<lambda>s k. Inl (RedisError ''unreachable'')),
      rc_set = (\<lambda>s k v. (Inl (RedisError ''unreachable''), s)),
      rc_setex = (\<lambda>s k ttl v. (Inl (RedisError ''unreachable''), s)),
      rc_setnx = (\<lambda>s k v ttl. (Inl (RedisError ''unreachable''), s)),
      rc_setnx_px = (\<lambda>s k v ttl. (Inl (RedisError ''unreachable''), s)),
      rc_delete = (\<lambda>s k. (Inl (RedisError ''unreachable''), s)),
      rc_getdel = (\<lambda>s k. (Inl (RedisError ''unreachable''), s))\<rparr>"

interpretation down: redis_replies down_redis v
  by unfold_locales (auto simp: down_redis_def)

end
