(* ===== verification/Json.thy ===== *)
theory Json
  imports Py_String
begin

section \<open>JSON values and \<open>json.dumps\<close> / \<open>json.loads\<close>\<close>

text \<open>
  The dynamically typed values the sources pass around (tool arguments, results, job records,
  session state) and the two library functions that store them in Redis. A float is carried by
  its decimal lexeme (\<open>repr\<close>), which Python prints and reads back unchanged. \<open>dumps\<close> is the
  default encoder (\<open>", "\<close> and \<open>": "\<close> separators, \<open>ensure_ascii\<close>); \<open>loads\<close> is a recursive
  descent parser. The result of the theory is the round trip \<open>loads_dumps\<close>.
\<close>

datatype json =
    JNull
  | JBool bool
  | JInt int
  | JFloat string
  | JStr string
  | JArr "json list"
  | JObj "(string \<times> json) list"

subsection \<open>Access as the sources write it\<close>

text \<open>\<open>d.get(k, default)\<close>, \<open>k in d\<close> and the truth value of a Python object.\<close>

fun obj_items :: "json \<Rightarrow> (string \<times> json) list" where
  "obj_items (JObj kvs) = kvs"
| "obj_items _ = []"

definition jget :: "json \<Rightarrow> string \<Rightarrow> json option" where
  "jget j k = map_of (obj_items j) k"

definition jget_def :: "json \<Rightarrow> string \<Rightarrow> json \<Rightarrow> json" where
  "jget_def j k d = (case jget j k of None \<Rightarrow> d | Some v \<Rightarrow> v)"

fun truthy :: "json \<Rightarrow> bool" where
  "truthy JNull = False"
| "truthy (JBool b) = b"
| "truthy (JInt i) = (i \<noteq> 0)"
| "truthy (JFloat l) = (\<exists>c \<in> set (takeWhile (\<lambda>c. c \<noteq> CHR ''e'') l). c \<in> set ''123456789in'')"
| "truthy (JStr s) = (s \<noteq> [])"
| "truthy (JArr xs) = (xs \<noteq> [])"
| "truthy (JObj kvs) = (kvs \<noteq> [])"

subsection \<open>Printing\<close>

definition hex_digit :: "nat \<Rightarrow> char" where
  "hex_digit n = (if n < 10 then char_of (48 + n) else char_of (87 + n))"

definition hex_val :: "char \<Rightarrow> nat option" where
  "hex_val c = (let n = code c in
     if 48 \<le> n \<and> n \<le> 57 then Some (n - 48)
     else if 97 \<le> n \<and> n \<le> 102 then Some (n - 87)
     else if 65 \<le> n \<and> n \<le> 70 then Some (n - 55) else None)"

abbreviation quote :: char where "quote \<equiv> CHR 0x22"
abbreviation backslash :: char where "backslash \<equiv> CHR 0x5C"

definition esc_char :: "char \<Rightarrow> string" where
  "esc_char c =
     (if c = quote then [backslash, quote]
      else if c = backslash then [backslash, backslash]
      else if c = CHR 0x0A then [backslash, CHR ''n'']
      else if c = CHR 0x0D then [backslash, CHR ''r'']
      else if c = CHR 0x09 then [backslash, CHR ''t'']
      else if c = CHR 0x08 then [backslash, CHR ''b'']
      else if c = CHR 0x0C then [backslash, CHR ''f'']
      else if code c < 32 \<or> 126 < code c
      then [backslash, CHR ''u'', CHR ''0'', CHR ''0'', hex_digit (code c div 16), hex_digit (code c mod 16)]
      else [c])"

definition dump_str :: "string \<Rightarrow> string" where
  "dump_str s = quote # concat (map esc_char s) @ [quote]"

fun dumps :: "json \<Rightarrow> string"
  and dumps_list :: "json list \<Rightarrow> string"
  and dumps_items :: "(string \<times> json) list \<Rightarrow> string" where
  "dumps JNull = ''null''"
| "dumps (JBool b) = (if b then ''true'' else ''false'')"
| "dumps (JInt i) = show_int i"
| "dumps (JFloat l) = l"
| "dumps (JStr s) = dump_str s"
| "dumps (JArr xs) = CHR ''['' # dumps_list xs @ '']''"
| "dumps (JObj kvs) = CHR ''{'' # dumps_items kvs @ ''}''"
| "dumps_list [] = ''''"
| "dumps_list [x] = dumps x"
| "dumps_list (x # y # ys) = dumps x @ '', '' @ dumps_list (y # ys)"
| "dumps_items [] = ''''"
| "dumps_items [(k, v)] = dump_str k @ '': '' @ dumps v"
| "dumps_items ((k, v) # kv # kvs) = dump_str k @ '': '' @ dumps v @ '', '' @ dumps_items (kv # kvs)"

subsection \<open>Parsing\<close>

definition json_space :: "char \<Rightarrow> bool" where
  "json_space c = (c = CHR '' '' \<or> c = CHR 0x09 \<or> c = CHR 0x0A \<or> c = CHR 0x0D)"

definition skip_ws :: "string \<Rightarrow> string" where
  "skip_ws s = dropWhile json_space s"

fun parse_str :: "string \<Rightarrow> (string \<times> string) option" where
  "parse_str [] = None"
| "parse_str (c # cs) =
     (if c = quote then Some ([], cs)
      else if c = backslash then
        (case cs of
           [] \<Rightarrow> None
         | e # r \<Rightarrow>
             if e = CHR ''u'' then
               (case r of
                  a # b # x # y # r' \<Rightarrow>
                    (case (hex_val a, hex_val b, hex_val x, hex_val y) of
                       (Some 0, Some 0, Some h, Some l) \<Rightarrow>
                         map_option (\<lambda>(t, z). (char_of (16 * h + l) # t, z)) (parse_str r')
                     | _ \<Rightarrow> None)
                | _ \<Rightarrow> None)
             else
               (case (if e = quote then Some quote else if e = backslash then Some backslash
                      else if e = CHR ''/'' then Some (CHR ''/'')
                      else if e = CHR ''n'' then Some (CHR 0x0A) else if e = CHR ''r'' then Some (CHR 0x0D)
                      else if e = CHR ''t'' then Some (CHR 0x09) else if e = CHR ''b'' then Some (CHR 0x08)
                      else if e = CHR ''f'' then Some (CHR 0x0C) else None) of
                  None \<Rightarrow> None
                | Some d \<Rightarrow> map_option (\<lambda>(t, z). (d # t, z)) (parse_str r)))
      else if code c < 32 then None
      else map_option (\<lambda>(t, z). (c # t, z)) (parse_str cs))"

definition num_char :: "char \<Rightarrow> bool" where
  "num_char c = (is_digit c \<or> c = CHR ''-'' \<or> c = CHR ''+'' \<or> c = CHR ''.'' \<or> c = CHR ''e'' \<or> c = CHR ''E'')"

text \<open>An integer lexeme is an optional minus sign and digits; any other number lexeme is a float.\<close>

definition int_lexeme :: "string \<Rightarrow> bool" where
  "int_lexeme l = (case l of [] \<Rightarrow> False
     | c # cs \<Rightarrow> if c = CHR ''-'' then cs \<noteq> [] \<and> list_all is_digit cs else list_all is_digit (c # cs))"

definition int_of_lexeme :: "string \<Rightarrow> int" where
  "int_of_lexeme l = (case l of [] \<Rightarrow> 0
     | c # cs \<Rightarrow> if c = CHR ''-'' then - int (digits_val cs) else int (digits_val (c # cs)))"

definition float_lexeme :: "string \<Rightarrow> bool" where
  "float_lexeme l = (\<not> int_lexeme l \<and> l \<noteq> [] \<and> list_all num_char l \<and> (hd l = CHR ''-'' \<or> is_digit (hd l)))"

definition parse_num :: "string \<Rightarrow> (json \<times> string) option" where
  "parse_num s =
     (let l = takeWhile num_char s; r = dropWhile num_char s
      in if int_lexeme l then Some (JInt (int_of_lexeme l), r)
         else if float_lexeme l then Some (JFloat l, r) else None)"

fun parse_value :: "nat \<Rightarrow> string \<Rightarrow> (json \<times> string) option"
  and parse_array :: "nat \<Rightarrow> string \<Rightarrow> (json list \<times> string) option"
  and parse_object :: "nat \<Rightarrow> string \<Rightarrow> ((string \<times> json) list \<times> string) option" where
  "parse_value 0 s = None"
| "parse_value (Suc n) s =
     (case skip_ws s of
        [] \<Rightarrow> None
      | c # cs \<Rightarrow>
          if c = quote then map_option (\<lambda>(t, r). (JStr t, r)) (parse_str cs)
          else if c = CHR ''['' then
            (case skip_ws cs of
               [] \<Rightarrow> None
             | d # r \<Rightarrow> if d = CHR '']'' then Some (JArr [], r)
                        else map_option (\<lambda>(xs, z). (JArr xs, z)) (parse_array n cs))
          else if c = CHR ''{'' then
            (case skip_ws cs of
               [] \<Rightarrow> None
             | d # r \<Rightarrow> if d = CHR ''}'' then Some (JObj [], r)
                        else map_option (\<lambda>(kvs, z). (JObj (fold (\<lambda>(k, v) d. AList.update k v d) kvs []), z))
                               (parse_object n cs))
          else if c = CHR ''n'' then (if prefix ''ull'' cs then Some (JNull, drop 3 cs) else None)
          else if c = CHR ''t'' then (if prefix ''rue'' cs then Some (JBool True, drop 3 cs) else None)
          else if c = CHR ''f'' then (if prefix ''alse'' cs then Some (JBool False, drop 4 cs) else None)
          else parse_num (c # cs))"
| "parse_array 0 s = None"
| "parse_array (Suc n) s =
     (case parse_value n s of
        None \<Rightarrow> None
      | Some (v, r) \<Rightarrow>
          (case skip_ws r of
             [] \<Rightarrow> None
           | d # r' \<Rightarrow> if d = CHR '']'' then Some ([v], r')
                       else if d = CHR '','' then map_option (\<lambda>(vs, z). (v # vs, z)) (parse_array n r')
                       else None))"
| "parse_object 0 s = None"
| "parse_object (Suc n) s =
     (case skip_ws s of
        [] \<Rightarrow> None
      | q # s1 \<Rightarrow>
          if q \<noteq> quote then None
          else (case parse_str s1 of
                  None \<Rightarrow> None
                | Some (k, s2) \<Rightarrow>
                    (case skip_ws s2 of
                       [] \<Rightarrow> None
                     | e # s3 \<Rightarrow>
                         if e \<noteq> CHR '':'' then None
                         else (case parse_value n s3 of
                                 None \<Rightarrow> None
                               | Some (v, r) \<Rightarrow>
                                   (case skip_ws r of
                                      [] \<Rightarrow> None
                                    | d # r' \<Rightarrow>
                                        if d = CHR ''}'' then Some ([(k, v)], r')
                                        else if d = CHR '','' then
                                          map_option (\<lambda>(kvs, z). ((k, v) # kvs, z)) (parse_object n r')
                                        else None)))))"

definition loads :: "string \<Rightarrow> json option" where
  "loads s = (case parse_value (Suc (length s)) s of
     None \<Rightarrow> None
   | Some (v, r) \<Rightarrow> if skip_ws r = [] then Some v else None)"

subsection \<open>Strings and numbers are read back\<close>

lemma hex_val_digit: "n < 16 \<Longrightarrow> hex_val (hex_digit n) = Some n"
  by (auto simp: hex_val_def hex_digit_def code_def Let_def)

lemma code_less: "code c < 256"
  by (simp add: code_def)

lemma char_of_code: "char_of (16 * (code c div 16) + code c mod 16) = c"
  by (simp add: code_def)

lemma hex_val_0: "hex_val (CHR ''0'') = Some 0"
  by (simp add: hex_val_def code_def)

lemma parse_str_plain:
  "c \<noteq> quote \<Longrightarrow> c \<noteq> backslash \<Longrightarrow> \<not> code c < 32
     \<Longrightarrow> parse_str (c # cs) = map_option (\<lambda>(t, z). (c # t, z)) (parse_str cs)"
  by simp

lemma parse_str_unicode:
  "hex_val x = Some h \<Longrightarrow> hex_val y = Some l
     \<Longrightarrow> parse_str (backslash # CHR ''u'' # CHR ''0'' # CHR ''0'' # x # y # r)
       = map_option (\<lambda>(t, z). (char_of (16 * h + l) # t, z)) (parse_str r)"
  by (simp add: hex_val_0)

lemma parse_str_escape:
  "parse_str (backslash # quote # r) = map_option (\<lambda>(t, z). (quote # t, z)) (parse_str r)"
  "parse_str (backslash # backslash # r) = map_option (\<lambda>(t, z). (backslash # t, z)) (parse_str r)"
  "parse_str (backslash # CHR ''n'' # r) = map_option (\<lambda>(t, z). (CHR 0x0A # t, z)) (parse_str r)"
  "parse_str (backslash # CHR ''r'' # r) = map_option (\<lambda>(t, z). (CHR 0x0D # t, z)) (parse_str r)"
  "parse_str (backslash # CHR ''t'' # r) = map_option (\<lambda>(t, z). (CHR 0x09 # t, z)) (parse_str r)"
  "parse_str (backslash # CHR ''b'' # r) = map_option (\<lambda>(t, z). (CHR 0x08 # t, z)) (parse_str r)"
  "parse_str (backslash # CHR ''f'' # r) = map_option (\<lambda>(t, z). (CHR 0x0C # t, z)) (parse_str r)"
  by simp_all

declare parse_str.simps(2) [simp del]

lemma parse_str_esc_char:
  "parse_str (esc_char c @ r) = map_option (\<lambda>(t, z). (c # t, z)) (parse_str r)"
proof -
  consider "c \<in> {quote, backslash, CHR 0x0A, CHR 0x0D, CHR 0x09, CHR 0x08, CHR 0x0C}"
    | "c \<notin> {quote, backslash, CHR 0x0A, CHR 0x0D, CHR 0x09, CHR 0x08, CHR 0x0C}"
      "code c < 32 \<or> 126 < code c"
    | "c \<notin> {quote, backslash, CHR 0x0A, CHR 0x0D, CHR 0x09, CHR 0x08, CHR 0x0C}"
      "\<not> code c < 32" "\<not> 126 < code c" by blast
  then show ?thesis
  proof cases
    case 1
    then show ?thesis by (elim insertE emptyE) (simp_all add: esc_char_def parse_str_escape)
  next
    case 2
    then have "esc_char c @ r =
        backslash # CHR ''u'' # CHR ''0'' # CHR ''0'' # hex_digit (code c div 16) #
          hex_digit (code c mod 16) # r"
      by (simp add: esc_char_def)
    then show ?thesis
      using code_less [of c] char_of_code [of c]
        parse_str_unicode [OF hex_val_digit [of "code c div 16"] hex_val_digit [of "code c mod 16"], of r]
      by simp
  next
    case 3
    then have "esc_char c @ r = c # r" by (simp add: esc_char_def)
    with 3 show ?thesis by (simp add: parse_str_plain)
  qed
qed

lemma parse_str_quote [simp]: "parse_str (quote # r) = Some ([], r)"
  by (simp add: parse_str.simps(2))

lemma parse_str_dump: "parse_str (concat (map esc_char s) @ quote # r) = Some (s, r)"
  by (induction s) (simp_all add: parse_str_esc_char)

text \<open>What may follow a value inside a larger text: not a character of a number.\<close>

definition ends_value :: "string \<Rightarrow> bool" where
  "ends_value r = (r = [] \<or> \<not> num_char (hd r))"

lemma span_lexeme:
  assumes "list_all num_char l" and "ends_value r"
  shows "takeWhile num_char (l @ r) = l" "dropWhile num_char (l @ r) = r"
proof -
  have "takeWhile num_char r = [] \<and> dropWhile num_char r = r"
    using assms(2) by (cases r) (auto simp: ends_value_def)
  then show "takeWhile num_char (l @ r) = l" "dropWhile num_char (l @ r) = r"
    using assms(1) by (simp_all add: list_all_iff)
qed

lemma show_int_cases:
  obtains n where "show_int i = show_nat n" "i = int n"
  | n where "show_int i = CHR ''-'' # show_nat n" "i = - int n"
  using that(1) [of "nat i"] that(2) [of "nat (- i)"] by (cases "i < 0") (auto simp: show_int_def)

lemma show_nat_list_all: "list_all is_digit (show_nat n)"
  using show_nat_digits by (auto simp: list_all_iff)

lemma show_int_lexeme: "int_lexeme (show_int i) \<and> int_of_lexeme (show_int i) = i \<and> list_all num_char (show_int i)"
proof (cases rule: show_int_cases [of i])
  case (1 n)
  obtain c cs where c: "show_nat n = c # cs" by (cases "show_nat n") auto
  then have "is_digit c" using show_nat_list_all [of n] by simp
  then have "c \<noteq> CHR ''-''" using not_digits by blast
  with c 1 show ?thesis
    using show_nat_list_all [of n] digits_val_show_nat [of n]
    by (auto simp: int_lexeme_def int_of_lexeme_def list_all_iff num_char_def)
next
  case (2 n)
  then show ?thesis
    using show_nat_list_all [of n]
    by (auto simp: int_lexeme_def int_of_lexeme_def list_all_iff num_char_def)
qed

lemma parse_num_int: "ends_value r \<Longrightarrow> parse_num (show_int i @ r) = Some (JInt i, r)"
  using span_lexeme [of "show_int i" r] show_int_lexeme [of i] by (simp add: parse_num_def)

lemma parse_num_float: "float_lexeme l \<Longrightarrow> ends_value r \<Longrightarrow> parse_num (l @ r) = Some (JFloat l, r)"
  using span_lexeme [of l r] by (simp add: parse_num_def float_lexeme_def)

definition num_start :: "char \<Rightarrow> bool" where
  "num_start c = (is_digit c \<or> c = CHR ''-'')"

lemma num_start_facts:
  assumes "num_start c"
  shows "\<not> json_space c \<and> c \<noteq> quote \<and> c \<noteq> CHR ''['' \<and> c \<noteq> CHR ''{'' \<and> c \<noteq> CHR ''n'' \<and> c \<noteq> CHR ''t'' \<and>
    c \<noteq> CHR ''f'' \<and> c \<noteq> CHR '']'' \<and> c \<noteq> CHR ''}''"
proof -
  have "\<not> num_start d" if "d \<in> set [quote, CHR ''['', CHR ''{'', CHR ''n'', CHR ''t'', CHR ''f'', CHR '']'',
      CHR ''}'', CHR '' '', CHR 0x09, CHR 0x0A, CHR 0x0D]" for d
    using that by (simp only: set_simps insert_iff empty_iff) (elim disjE; simp add: num_start_def is_digit_def code_def)
  with assms show ?thesis by (auto simp: json_space_def)
qed

lemma parse_value_num:
  assumes "l \<noteq> []" and "num_start (hd l)"
  shows "parse_value (Suc n) (l @ r) = parse_num (l @ r)"
  using assms num_start_facts [of "hd l"] by (cases l) (simp_all add: skip_ws_def)

lemma show_int_start: "show_int i \<noteq> [] \<and> num_start (hd (show_int i))"
proof (cases rule: show_int_cases [of i])
  case (1 n)
  then show ?thesis using show_nat_list_all [of n] by (cases "show_nat n") (auto simp: num_start_def)
qed (auto simp: num_start_def)

subsection \<open>The round trip\<close>

text \<open>Values Python can hold: float lexemes are numbers, dictionary keys are distinct.\<close>

fun json_ok :: "json \<Rightarrow> bool" where
  "json_ok (JFloat l) = float_lexeme l"
| "json_ok (JArr xs) = (\<forall>x \<in> set xs. json_ok x)"
| "json_ok (JObj kvs) = (distinct (map fst kvs) \<and> (\<forall>kv \<in> set kvs. json_ok (snd kv)))"
| "json_ok _ = True"

fun jfuel :: "json \<Rightarrow> nat" and jfuel_list :: "json list \<Rightarrow> nat"
  and jfuel_items :: "(string \<times> json) list \<Rightarrow> nat" where
  "jfuel (JArr xs) = Suc (jfuel_list xs)"
| "jfuel (JObj kvs) = Suc (jfuel_items kvs)"
| "jfuel _ = 1"
| "jfuel_list [] = 0"
| "jfuel_list (x # xs) = Suc (jfuel x + jfuel_list xs)"
| "jfuel_items [] = 0"
| "jfuel_items ((k, v) # kvs) = Suc (jfuel v + jfuel_items kvs)"

lemma jfuel_pos [simp]: "0 < jfuel v"
  by (cases v) auto

lemma dumps_start:
  "json_ok v \<Longrightarrow> \<exists>c cs. dumps v = c # cs \<and> \<not> json_space c \<and> c \<noteq> CHR '']'' \<and> c \<noteq> CHR ''}''"
proof (cases v)
  case (JInt i)
  then show ?thesis using show_int_start [of i] num_start_facts by (cases "show_int i") auto
next
  case (JFloat l)
  moreover assume "json_ok v"
  ultimately have "l \<noteq> [] \<and> num_start (hd l)" by (auto simp: float_lexeme_def num_start_def)
  with JFloat show ?thesis using num_start_facts [of "hd l"] by (cases l) auto
qed (auto simp: json_space_def dump_str_def)

lemma ends_value_sep [simp]:
  "ends_value (CHR '','' # r)" "ends_value (CHR '']'' # r)" "ends_value (CHR ''}'' # r)" "ends_value []"
  by (simp_all add: ends_value_def num_char_def is_digit_def code_def)

lemma skip_ws_dumps: "json_ok v \<Longrightarrow> skip_ws (dumps v @ r) = dumps v @ r"
  using dumps_start [of v] by (auto simp: skip_ws_def)

lemma parse_value_space: "parse_value n (CHR '' '' # s) = parse_value n s"
  by (cases n) (simp_all add: skip_ws_def json_space_def)

lemma parse_array_space: "parse_array n (CHR '' '' # s) = parse_array n s"
  by (cases n) (simp_all add: parse_value_space)

lemma parse_object_space: "parse_object n (CHR '' '' # s) = parse_object n s"
  by (cases n) (simp_all add: skip_ws_def json_space_def)

lemma fold_update_distinct:
  assumes "distinct (map fst kvs)" and "fst ` set kvs \<inter> fst ` set d = {}"
  shows "fold (\<lambda>(k, v) d. AList.update k v d) kvs d = d @ kvs"
  using assms
proof (induction kvs arbitrary: d)
  case (Cons kv kvs)
  obtain k v where kv: "kv = (k, v)" by (cases kv)
  with Cons.prems have "k \<notin> fst ` set d" by auto
  then have "AList.update k v d = d @ [(k, v)]" by (induction d) auto
  with Cons.prems Cons.IH [of "d @ [(k, v)]"] kv show ?case by auto
qed simp

lemma parse_value_str: "parse_value (Suc n) (dump_str s @ r) = Some (JStr s, r)"
  using parse_str_dump [of s r] by (simp add: dump_str_def skip_ws_def json_space_def)

lemma skip_ws_bracket [simp]:
  "skip_ws (CHR '','' # r) = CHR '','' # r" "skip_ws (CHR '']'' # r) = CHR '']'' # r"
  "skip_ws (CHR ''}'' # r) = CHR ''}'' # r" "skip_ws (CHR '':'' # r) = CHR '':'' # r"
  by (simp_all add: skip_ws_def json_space_def)

lemma dumps_list_start:
  "xs \<noteq> [] \<Longrightarrow> \<forall>x \<in> set xs. json_ok x
     \<Longrightarrow> \<exists>c cs. dumps_list xs = c # cs \<and> \<not> json_space c \<and> c \<noteq> CHR '']''"
  using dumps_start [of "hd xs"] by (cases xs rule: dumps_list.cases) auto

lemma dumps_items_start: "kvs \<noteq> [] \<Longrightarrow> \<exists>cs. dumps_items kvs = quote # cs"
  by (cases kvs rule: dumps_items.cases) (auto simp: dump_str_def)

lemma parse_object_key:
  "parse_object (Suc n) (dump_str k @ '': '' @ s) =
     (case parse_value n s of
        None \<Rightarrow> None
      | Some (v, r) \<Rightarrow>
          (case skip_ws r of
             [] \<Rightarrow> None
           | d # r' \<Rightarrow>
               if d = CHR ''}'' then Some ([(k, v)], r')
               else if d = CHR '','' then map_option (\<lambda>(kvs, z). ((k, v) # kvs, z)) (parse_object n r')
               else None))"
  using parse_str_dump [of k "'': '' @ s"]
  by (simp add: dump_str_def skip_ws_def json_space_def parse_value_space)

lemma parse_array_step:
  assumes "parse_value n (s @ t) = Some (v, t)"
  shows "t = CHR '']'' # r \<Longrightarrow> parse_array (Suc n) (s @ t) = Some ([v], r)"
    and "t = CHR '','' # CHR '' '' # r \<Longrightarrow>
      parse_array (Suc n) (s @ t) = map_option (\<lambda>(vs, z). (v # vs, z)) (parse_array n r)"
  using assms by (simp_all add: parse_array_space)

lemma parse_dumps:
  "json_ok v \<Longrightarrow> jfuel v \<le> n \<Longrightarrow> ends_value r \<Longrightarrow> parse_value n (dumps v @ r) = Some (v, r)"
  "xs \<noteq> [] \<Longrightarrow> \<forall>x \<in> set xs. json_ok x \<Longrightarrow> jfuel_list xs \<le> n
     \<Longrightarrow> parse_array n (dumps_list xs @ CHR '']'' # r) = Some (xs, r)"
  "kvs \<noteq> [] \<Longrightarrow> \<forall>kv \<in> set kvs. json_ok (snd kv) \<Longrightarrow> jfuel_items kvs \<le> n
     \<Longrightarrow> parse_object n (dumps_items kvs @ CHR ''}'' # r) = Some (kvs, r)"
proof (induction v and xs and kvs arbitrary: n r and n r and n r rule: dumps_dumps_list_dumps_items.induct)
  case 1
  then show ?case by (cases n) (simp_all add: skip_ws_def json_space_def)
next
  case (2 b)
  then show ?case by (cases n; cases b) (simp_all add: skip_ws_def json_space_def)
next
  case (3 i)
  then show ?case
    using parse_value_num [of "show_int i" "n - 1" r] show_int_start [of i] parse_num_int [of r i]
    by (cases n) simp_all
next
  case (4 l)
  then have "l \<noteq> []" "num_start (hd l)" by (auto simp: float_lexeme_def num_start_def)
  with 4 show ?case
    using parse_value_num [of l "n - 1" r] parse_num_float [of l r] by (cases n) simp_all
next
  case (5 s)
  then show ?case using parse_value_str [of "n - 1" s r] by (cases n) simp_all
next
  case (6 xs)
  then obtain m where n: "n = Suc m" "jfuel_list xs \<le> m" by (cases n) auto
  show ?case
  proof (cases "xs = []")
    case True
    with n show ?thesis by (simp add: skip_ws_def json_space_def)
  next
    case False
    with 6 n have "parse_array m (dumps_list xs @ CHR '']'' # r) = Some (xs, r)" by simp
    moreover obtain c cs where "dumps_list xs = c # cs" "\<not> json_space c" "c \<noteq> CHR '']''"
      using dumps_list_start [of xs] False 6 by auto
    ultimately show ?thesis using n by (simp add: skip_ws_def json_space_def)
  qed
next
  case (7 kvs)
  then obtain m where n: "n = Suc m" "jfuel_items kvs \<le> m" by (cases n) auto
  show ?case
  proof (cases "kvs = []")
    case True
    with n show ?thesis by (simp add: skip_ws_def json_space_def)
  next
    case False
    with 7 n have "parse_object m (dumps_items kvs @ CHR ''}'' # r) = Some (kvs, r)" by simp
    moreover obtain cs where "dumps_items kvs = quote # cs" using dumps_items_start False by blast
    ultimately show ?thesis
      using n 7 fold_update_distinct [of kvs "[]"] by (simp add: skip_ws_def json_space_def)
  qed
next
  case 8
  then show ?case by simp
next
  case (9 x)
  then obtain m where n: "n = Suc m" "jfuel x \<le> m" by (cases n) auto
  with 9 show ?case using parse_array_step(1) [of m "dumps x" "CHR '']'' # r" x r] by simp
next
  case (10 x y ys)
  then obtain m where n: "n = Suc m" "jfuel x \<le> m" "jfuel_list (y # ys) \<le> m" by (cases n) auto
  with 10 have "parse_array m (dumps_list (y # ys) @ CHR '']'' # r) = Some (y # ys, r)" by simp
  with 10 n show ?case
    using parse_array_step(2) [of m "dumps x" "'', '' @ dumps_list (y # ys) @ CHR '']'' # r" x
        "dumps_list (y # ys) @ CHR '']'' # r"] by simp
next
  case 11
  then show ?case by simp
next
  case (12 k v)
  then obtain m where n: "n = Suc m" "jfuel v \<le> m" by (cases n) auto
  with 12 have "parse_value m (dumps v @ CHR ''}'' # r) = Some (v, CHR ''}'' # r)" by simp
  with n show ?case using parse_object_key [of m k "dumps v @ CHR ''}'' # r"] by simp
next
  case (13 k v kv kvs)
  let ?t = "'', '' @ dumps_items (kv # kvs) @ CHR ''}'' # r"
  from 13 obtain m where n: "n = Suc m" "jfuel v \<le> m" "jfuel_items (kv # kvs) \<le> m"
    by (cases n) auto
  with 13 have "parse_value m (dumps v @ ?t) = Some (v, ?t)" by simp
  moreover from 13 n have "parse_object m (dumps_items (kv # kvs) @ CHR ''}'' # r) = Some (kv # kvs, r)"
    by simp
  ultimately show ?case
    using n parse_object_key [of m k "dumps v @ ?t"] by (simp add: parse_object_space)
qed

lemma jfuel_length:
  "json_ok v \<Longrightarrow> jfuel v \<le> length (dumps v)"
  "\<forall>x \<in> set xs. json_ok x \<Longrightarrow> jfuel_list xs \<le> Suc (length (dumps_list xs))"
  "\<forall>kv \<in> set kvs. json_ok (snd kv) \<Longrightarrow> jfuel_items kvs \<le> Suc (length (dumps_items kvs))"
proof (induction v and xs and kvs rule: dumps_dumps_list_dumps_items.induct)
  case (3 i)
  then show ?case using show_int_start [of i] by (cases "show_int i") auto
next
  case (4 l)
  then show ?case by (cases l) (auto simp: float_lexeme_def)
qed (auto simp: dump_str_def)

text \<open>What is stored as text is read back as the same value.\<close>

theorem loads_dumps: "json_ok v \<Longrightarrow> loads (dumps v) = Some v"
  using parse_dumps(1) [of v "Suc (length (dumps v))" "[]"] jfuel_length(1) [of v]
  by (simp add: loads_def skip_ws_def)

end
