(* ===== verification/Idempotency.thy ===== *)
theory Idempotency
  imports Redis_Client Json
begin

section \<open>Idempotency primitives (streams/idempotency.py, streams/async\_idempotency.py)\<close>

text \<open>
  \<open>IdempotencyGuard\<close>, \<open>DistributedLock\<close>, \<open>OutboxRelay\<close> and \<open>AsyncIdempotencyGuard\<close>. The
  tokens \<open>uuid4\<close> returns and the digest \<open>sha256\<close> are parameters. The lock interface that
  \<open>DistributedLock\<close> and \<open>RedlockClient\<close> share is the locale \<open>lock_service\<close>; it is a sublocale
  of the Redis laws for the single-node lock.
\<close>

subsection \<open>IdempotencyGuard\<close>

definition already_seen ::
  "'r redis_client \<Rightarrow> int \<Rightarrow> 'r \<Rightarrow> string \<Rightarrow> (redis_error, bool) result \<times> 'r" where
  "already_seen c ttl s task_id =
     (case rc_setnx c s task_id ''1'' ttl of
        (Inl e, s') \<Rightarrow> (Inl e, s')
      | (Inr created, s') \<Rightarrow> (Inr (\<not> created), s'))"

definition cache_result ::
  "'r redis_client \<Rightarrow> int \<Rightarrow> 'r \<Rightarrow> string \<Rightarrow> string \<Rightarrow> (redis_error, unit) result \<times> 'r" where
  "cache_result c ttl s task_id res = rc_setex c s (task_id @ '':result'') ttl res"

definition get_cached ::
  "'r redis_client \<Rightarrow> 'r \<Rightarrow> string \<Rightarrow> (redis_error, string option) result" where
  "get_cached c s task_id = rc_get c s (task_id @ '':result'')"

text \<open>The intended use: claim the task, run it once, cache its result.\<close>

fun seen_run :: "'r redis_client \<Rightarrow> int \<Rightarrow> 'r \<Rightarrow> string list \<Rightarrow> (redis_error, bool) result list \<times> 'r" where
  "seen_run c ttl s [] = ([], s)"
| "seen_run c ttl s (t # ts) =
     (case already_seen c ttl s t of
        (r, s1) \<Rightarrow> (case seen_run c ttl s1 ts of (rs, s2) \<Rightarrow> (r # rs, s2)))"

subsection \<open>DistributedLock\<close>

record dist_lock =
  dl_ttl :: int
  dl_tokens :: "string \<Rightarrow> string option"

definition dl_init :: "int \<Rightarrow> dist_lock" where
  "dl_init ttl = \<lparr>dl_ttl = ttl, dl_tokens = (\<lambda>_. None)\<rparr>"

definition dl_acquire ::
  "'r redis_client \<Rightarrow> dist_lock \<Rightarrow> 'r \<Rightarrow> string \<Rightarrow> string
     \<Rightarrow> (redis_error, bool) result \<times> dist_lock \<times> 'r" where
  "dl_acquire c l s key token =
     (case rc_setnx c s key token (dl_ttl l) of
        (Inl e, s') \<Rightarrow> (Inl e, l, s')
      | (Inr created, s') \<Rightarrow>
          if created then (Inr True, l\<lparr>dl_tokens := (dl_tokens l)(key \<mapsto> token)\<rparr>, s')
          else (Inr False, l, s'))"

text \<open>
  \<open>release\<close> reads the key and then deletes it: two round trips to the server, modelled as two
  steps (\<open>dl_release_finish\<close> continues with the reply of the read), composed by \<open>dl_release\<close>.
\<close>

definition dl_forget :: "dist_lock \<Rightarrow> string \<Rightarrow> dist_lock" where
  "dl_forget l key = l\<lparr>dl_tokens := (dl_tokens l)(key := None)\<rparr>"

definition dl_release_finish ::
  "'r redis_client \<Rightarrow> dist_lock \<Rightarrow> 'r \<Rightarrow> string \<Rightarrow> string \<Rightarrow> (redis_error, string option) result
     \<Rightarrow> (redis_error, unit) result \<times> dist_lock \<times> 'r" where
  "dl_release_finish c l s key token reply =
     (case reply of
        Inl e \<Rightarrow> (Inl e, l, s)
      | Inr None \<Rightarrow> (Inr (), dl_forget l key, s)
      | Inr (Some stored) \<Rightarrow>
          if stored = token
          then (case rc_delete c s key of
                  (Inl e, s') \<Rightarrow> (Inl e, l, s')
                | (Inr _, s') \<Rightarrow> (Inr (), dl_forget l key, s'))
          else (Inr (), dl_forget l key, s))"

definition dl_release ::
  "'r redis_client \<Rightarrow> dist_lock \<Rightarrow> 'r \<Rightarrow> string \<Rightarrow> (redis_error, unit) result \<times> dist_lock \<times> 'r" where
  "dl_release c l s key =
     (case dl_tokens l key of
        None \<Rightarrow> (Inr (), l, s)
      | Some token \<Rightarrow> dl_release_finish c l s key token (rc_get c s key))"

subsection \<open>OutboxRelay\<close>

text \<open>The queue holds pairs of callables; a callable acts on the world and may raise.\<close>

type_synonym ('e, 'w) action = "'w \<Rightarrow> ('e, unit) result \<times> 'w"
type_synonym ('e, 'w) outbox = "(('e, 'w) action \<times> ('e, 'w) action) list"

definition outbox_add :: "('e, 'w) outbox \<Rightarrow> ('e, 'w) action \<Rightarrow> ('e, 'w) action \<Rightarrow> ('e, 'w) outbox" where
  "outbox_add q state_fn dispatch_fn = q @ [(state_fn, dispatch_fn)]"

fun outbox_loop :: "('e, 'w) outbox \<Rightarrow> 'w \<Rightarrow> ('e, unit) result \<times> 'w" where
  "outbox_loop [] w = (Inr (), w)"
| "outbox_loop ((state_fn, dispatch_fn) # q) w =
     (case state_fn w of
        (Inl e, w1) \<Rightarrow> (Inl e, w1)
      | (Inr _, w1) \<Rightarrow>
          (case dispatch_fn w1 of
             (Inl e, w2) \<Rightarrow> (Inl e, w2)
           | (Inr _, w2) \<Rightarrow> outbox_loop q w2))"

definition outbox_flush :: "('e, 'w) outbox \<Rightarrow> 'w \<Rightarrow> ('e, unit) result \<times> ('e, 'w) outbox \<times> 'w" where
  "outbox_flush q w =
     (case outbox_loop q w of
        (Inl e, w') \<Rightarrow> (Inl e, q, w')
      | (Inr _, w') \<Rightarrow> (Inr (), [], w'))"

subsection \<open>AsyncIdempotencyGuard\<close>

text \<open>\<open>sort_keys=True\<close> orders the keys of every object before printing.\<close>

fun json_sort :: "json \<Rightarrow> json" where
  "json_sort (JArr xs) = JArr (map json_sort xs)"
| "json_sort (JObj kvs) = JObj (sort_key fst (map (\<lambda>(k, v). (k, json_sort v)) kvs))"
| "json_sort v = v"

definition prompt_hash :: "(string \<Rightarrow> string) \<Rightarrow> string \<Rightarrow> (string \<times> json) list \<Rightarrow> string" where
  "prompt_hash digest tool_name args =
     digest (dumps (json_sort (JObj [(''tool'', JStr tool_name), (''args'', JObj args)])))"

definition cache_key :: "(string \<Rightarrow> string) \<Rightarrow> string \<Rightarrow> (string \<times> json) list \<Rightarrow> string" where
  "cache_key digest tool_name args = ''prompt_cache:'' @ prompt_hash digest tool_name args"

text \<open>Both operations swallow client exceptions.\<close>

definition prompt_get :: "'r redis_client \<Rightarrow> 'r \<Rightarrow> string \<Rightarrow> string option" where
  "prompt_get c s key = (case rc_get c s key of Inl _ \<Rightarrow> None | Inr v \<Rightarrow> v)"

definition prompt_set :: "'r redis_client \<Rightarrow> int \<Rightarrow> 'r \<Rightarrow> string \<Rightarrow> string \<Rightarrow> 'r" where
  "prompt_set c ttl s key value = snd (rc_setex c s key ttl value)"


subsection \<open>The guard\<close>

context redis_store
begin

lemma already_seen_up:
  assumes "up s"
  obtains s' where "already_seen c ttl s t = (Inr (view s t \<noteq> None), s')" "up s'"
    "view s' = (if view s t = None then (view s)(t \<mapsto> ''1'') else view s)"
proof -
  obtain s' where "rc_setnx c s t ''1'' ttl = (Inr (view s t = None), s')" "up s'"
      "view s' = (if view s t = None then (view s)(t \<mapsto> ''1'') else view s)"
    by (rule setnx_eq [OF assms])
  with that [of s'] show thesis by (simp add: already_seen_def)
qed

lemma seen_run_up:
  assumes "up s"
  shows "fst (seen_run c ttl s ts) =
    map (\<lambda>i. Inr (view s (ts ! i) \<noteq> None \<or> ts ! i \<in> set (take i ts))) [0..<length ts]"
  using assms
proof (induction ts arbitrary: s)
  case (Cons t ts)
  obtain s1 where s1: "already_seen c ttl s t = (Inr (view s t \<noteq> None), s1)" "up s1"
      "view s1 = (if view s t = None then (view s)(t \<mapsto> ''1'') else view s)"
    by (rule already_seen_up [OF Cons.prems])
  have "fst (seen_run c ttl s (t # ts)) = Inr (view s t \<noteq> None) # fst (seen_run c ttl s1 ts)"
    by (simp add: s1(1) split: prod.split)
  also have "\<dots> = map (\<lambda>i. Inr (view s ((t # ts) ! i) \<noteq> None \<or> (t # ts) ! i \<in> set (take i (t # ts))))
      (0 # map Suc [0..<length ts])"
    using s1(3) by (auto simp: Cons.IH [OF s1(2)])
  also have "0 # map Suc [0..<length ts] = [0..<length (t # ts)]"
    by (simp add: map_Suc_upt upt_conv_Cons del: upt_Suc)
  finally show ?case .
qed simp

lemma cached_result:
  assumes "up s"
  shows "get_cached c (snd (cache_result c ttl s t res)) t = Inr (Some res)"
    and "t' \<noteq> t \<Longrightarrow> get_cached c (snd (cache_result c ttl s t res)) t' = get_cached c s t'"
proof -
  obtain s' where "rc_setex c s (t @ '':result'') ttl res = (Inr (), s')" "up s'"
      "view s' = (view s)(t @ '':result'' \<mapsto> res)"
    by (rule setex_eq [OF assms])
  then show "get_cached c (snd (cache_result c ttl s t res)) t = Inr (Some res)"
    and "t' \<noteq> t \<Longrightarrow> get_cached c (snd (cache_result c ttl s t res)) t' = get_cached c s t'"
    by (simp_all add: cache_result_def get_cached_def get_eq assms)
qed

lemma prompt_cache_up:
  assumes "up s"
  shows "prompt_get c (prompt_set c ttl s k v) k = Some v"
proof -
  obtain s' where "rc_setex c s k ttl v = (Inr (), s')" "up s'" "view s' = (view s)(k \<mapsto> v)"
    by (rule setex_eq [OF assms])
  then show ?thesis by (simp add: prompt_get_def prompt_set_def get_eq)
qed

end

text \<open>
  Task ids are claimed exactly once: on a reachable store, a sequence of \<open>already_seen\<close>
  calls answers False for an id exactly at its first occurrence (and never, if the key was
  there before), whatever other ids are claimed in between.
\<close>

theorem claim_exactly_once:
  assumes "redis_store c view up" and "up s"
  shows "fst (seen_run c ttl s ts) =
    map (\<lambda>i. Inr (view s (ts ! i) \<noteq> None \<or> ts ! i \<in> set (take i ts))) [0..<length ts]"
  using assms by (rule redis_store.seen_run_up)

lemma claim_exactly_once_witness:
  "fst (seen_run mem_redis 300 (\<lambda>_. None) [''a'', ''b'', ''a'']) = [Inr False, Inr False, Inr True]"
  using claim_exactly_once [OF mem.redis_store_axioms, of 300 "\<lambda>_. None" "[''a'', ''b'', ''a'']"]
  by (simp add: upt_rec)

subsection \<open>Locks\<close>

text \<open>
  What a lock service promises its clients. \<open>acq\<close> reports whether the lock was granted, \<open>owns\<close>
  is the token a client object remembers for a key, \<open>holds s k t\<close> says that the servers hold
  key \<open>k\<close> for token \<open>t\<close>.
\<close>

locale lock_service =
  fixes acq :: "'l \<Rightarrow> 's \<Rightarrow> string \<Rightarrow> string \<Rightarrow> bool \<times> 'l \<times> 's"
    and rel :: "'l \<Rightarrow> 's \<Rightarrow> string \<Rightarrow> 'l \<times> 's"
    and owns :: "'l \<Rightarrow> string \<Rightarrow> string option"
    and holds :: "'s \<Rightarrow> string \<Rightarrow> string \<Rightarrow> bool"
    and cfg :: "'l \<Rightarrow> bool"
    and sane :: "'s \<Rightarrow> bool"
  assumes acq_grants: "acq l s k t = (True, l', s') \<Longrightarrow> cfg l \<Longrightarrow> sane s \<Longrightarrow>
      holds s' k t \<and> owns l' k = Some t"
    and acq_excludes: "holds s k t' \<Longrightarrow> t' \<noteq> t \<Longrightarrow> cfg l \<Longrightarrow> sane s \<Longrightarrow> \<not> fst (acq l s k t)"
    and acq_frame: "holds s k' t' \<Longrightarrow> k' \<noteq> k \<or> t' \<noteq> t \<Longrightarrow> acq l s k t = (b, l', s') \<Longrightarrow>
      cfg l \<Longrightarrow> sane s \<Longrightarrow> holds s' k' t'"
    and acq_owns: "acq l s k t = (b, l', s') \<Longrightarrow> owns l' k' = Some u \<Longrightarrow>
      owns l k' = Some u \<or> k' = k \<and> u = t"
    and acq_sane: "acq l s k t = (b, l', s') \<Longrightarrow> cfg l \<Longrightarrow> sane s \<Longrightarrow> cfg l' \<and> sane s'"
    and rel_frame: "holds s k' t' \<Longrightarrow> k' \<noteq> k \<or> owns l k \<noteq> Some t' \<Longrightarrow> rel l s k = (l', s') \<Longrightarrow>
      sane s \<Longrightarrow> holds s' k' t'"
    and rel_owns: "rel l s k = (l', s') \<Longrightarrow> owns l' k' = Some u \<Longrightarrow> owns l k' = Some u"
    and rel_sane: "rel l s k = (l', s') \<Longrightarrow> cfg l \<Longrightarrow> sane s \<Longrightarrow> cfg l' \<and> sane s'"

text \<open>A run of operations by several client objects, with the answer of every acquire.\<close>

datatype lock_op = Acq nat string string | Rel nat string

fun lock_run ::
  "('l \<Rightarrow> 's \<Rightarrow> string \<Rightarrow> string \<Rightarrow> bool \<times> 'l \<times> 's) \<Rightarrow> ('l \<Rightarrow> 's \<Rightarrow> string \<Rightarrow> 'l \<times> 's)
     \<Rightarrow> lock_op list \<Rightarrow> (nat \<Rightarrow> 'l) \<Rightarrow> 's \<Rightarrow> (string \<times> bool) list \<times> (nat \<Rightarrow> 'l) \<times> 's" where
  "lock_run acq rel [] cs s = ([], cs, s)"
| "lock_run acq rel (Acq i k t # ops) cs s =
     (case acq (cs i) s k t of (b, l, s') \<Rightarrow>
        (case lock_run acq rel ops (cs(i := l)) s' of (rs, r) \<Rightarrow> ((k, b) # rs, r)))"
| "lock_run acq rel (Rel i k # ops) cs s =
     (case rel (cs i) s k of (l, s') \<Rightarrow> lock_run acq rel ops (cs(i := l)) s')"

text \<open>The operations of a run that do not use the token \<open>t\<close>.\<close>

fun lock_op_avoids :: "string \<Rightarrow> lock_op \<Rightarrow> bool" where
  "lock_op_avoids t (Acq i k t') = (t' \<noteq> t)"
| "lock_op_avoids t (Rel i k) = True"

context lock_service
begin

lemma lock_kept:
  assumes "holds s k t" and "\<forall>op \<in> set ops. lock_op_avoids t op"
    and "\<forall>i. owns (cs i) k \<noteq> Some t" and "lock_run acq rel ops cs s = (rs, cs', s')"
    and "\<forall>i. cfg (cs i)" and "sane s"
  shows "holds s' k t \<and> (k, True) \<notin> set rs"
  using assms
proof (induction ops arbitrary: cs s rs)
  case (Cons op ops)
  show ?case
  proof (cases op)
    case (Acq i k1 t1)
    obtain b l s1 where a: "acq (cs i) s k1 t1 = (b, l, s1)" by (metis prod_cases3)
    obtain rs1 where r: "lock_run acq rel ops (cs(i := l)) s1 = (rs1, cs', s')" "rs = (k1, b) # rs1"
      using Cons.prems(4) by (auto simp: Acq a split: prod.splits)
    have ok: "cfg (cs i)" "sane s" using Cons.prems(5,6) by simp_all
    have "t1 \<noteq> t" using Cons.prems(2) by (simp add: Acq)
    moreover from this have "holds s1 k t" using acq_frame [OF Cons.prems(1) _ a ok] by simp
    moreover have "\<forall>j. owns ((cs(i := l)) j) k \<noteq> Some t"
      using acq_owns [OF a, of k t] Cons.prems(3) calculation(1) by auto
    moreover have "(\<forall>j. cfg ((cs(i := l)) j)) \<and> sane s1"
      using acq_sane [OF a ok] Cons.prems(5) by simp
    ultimately have "holds s' k t \<and> (k, True) \<notin> set rs1"
      using Cons.IH [OF _ _ _ r(1)] Cons.prems(2) by simp
    moreover have "k1 = k \<longrightarrow> \<not> b"
      using acq_excludes [OF Cons.prems(1), of t1 "cs i"] a ok \<open>t1 \<noteq> t\<close> by auto
    ultimately show ?thesis by (auto simp: r(2))
  next
    case (Rel i k1)
    obtain l s1 where a: "rel (cs i) s k1 = (l, s1)" by (metis prod.exhaust)
    have "holds s1 k t" using rel_frame [OF Cons.prems(1) _ a] Cons.prems(3,6) by auto
    moreover have "\<forall>j. owns ((cs(i := l)) j) k \<noteq> Some t"
      using rel_owns [OF a, of k t] Cons.prems(3) by auto
    moreover have "(\<forall>j. cfg ((cs(i := l)) j)) \<and> sane s1"
      using rel_sane [OF a] Cons.prems(5,6) by simp
    moreover have "lock_run acq rel ops (cs(i := l)) s1 = (rs, cs', s')"
      using Cons.prems(4) by (simp add: Rel a)
    ultimately show ?thesis
      using Cons.IH [of s1 "cs(i := l)" rs] Cons.prems(2) by (simp del: fun_upd_apply)
  qed
qed simp

lemma granted_kept:
  assumes "acq l s k t = (True, l', s1)" and "\<forall>op \<in> set ops. lock_op_avoids t op"
    and "\<forall>i. owns (cs i) k \<noteq> Some t" and "lock_run acq rel ops cs s1 = (rs, cs', s2)"
    and "\<forall>i. cfg (cs i)" and "cfg l" and "sane s"
  shows "holds s2 k t \<and> (k, True) \<notin> set rs"
  using lock_kept [OF _ assms(2-5)] acq_grants [OF assms(1,6,7)] acq_sane [OF assms(1,6,7)] by blast

end

text \<open>The single-node lock provides the service, over any store that honours its replies.\<close>

definition dl_acq ::
  "'r redis_client \<Rightarrow> dist_lock \<Rightarrow> 'r \<Rightarrow> string \<Rightarrow> string \<Rightarrow> bool \<times> dist_lock \<times> 'r" where
  "dl_acq c l s k t = (case dl_acquire c l s k t of (r, l', s') \<Rightarrow> (r = Inr True, l', s'))"

definition dl_rel :: "'r redis_client \<Rightarrow> dist_lock \<Rightarrow> 'r \<Rightarrow> string \<Rightarrow> dist_lock \<times> 'r" where
  "dl_rel c l s k = snd (dl_release c l s k)"


context redis_replies
begin

lemma dl_acquire_view:
  assumes "dl_acquire c l s k t = (r, l', s')"
  shows "if r = Inr True then view s k = None \<and> view s' = (view s)(k \<mapsto> t) \<and>
       l' = l\<lparr>dl_tokens := (dl_tokens l)(k \<mapsto> t)\<rparr>
     else l' = l \<and> (view s' = view s \<or> view s k = None \<and> view s' = (view s)(k \<mapsto> t))"
proof (cases "rc_setnx c s k t (dl_ttl l)")
  case (Pair q s1)
  show ?thesis
  proof (cases q)
    case (Inl e)
    with Pair assms setnx_raised [of s k t "dl_ttl l" e s1] show ?thesis by (auto simp: dl_acquire_def)
  next
    case (Inr b)
    with Pair assms setnx_reply [of s k t "dl_ttl l" b s1] show ?thesis
      by (auto simp: dl_acquire_def split: if_splits)
  qed
qed

lemma dl_release_view:
  assumes "dl_release c l s k = (r, l', s')"
  shows "(view s' = view s \<or> view s' = (view s)(k := None) \<and> view s k = dl_tokens l k \<and> view s k \<noteq> None) \<and>
    (l' = l \<or> l' = dl_forget l k)"
proof (cases "dl_tokens l k")
  case None
  with assms show ?thesis by (simp add: dl_release_def)
next
  case tok: (Some t)
  show ?thesis
  proof (cases "rc_get c s k")
    case (Inl e)
    with tok assms show ?thesis by (simp add: dl_release_def dl_release_finish_def)
  next
    case (Inr v)
    then have v: "v = view s k" by (rule get_reply)
    show ?thesis
    proof (cases "v = Some t")
      case True
      obtain q s1 where d: "rc_delete c s k = (q, s1)" by (metis prod.exhaust)
      have "view s1 = view s \<or> view s1 = (view s)(k := None)"
        using d delete_reply [of s k s1] delete_raised [of s k _ s1] by (cases q) auto
      with True Inr tok v d assms show ?thesis
        by (auto simp: dl_release_def dl_release_finish_def split: sum.splits)
    next
      case False
      with Inr tok v assms show ?thesis
        by (auto simp: dl_release_def dl_release_finish_def split: option.splits if_splits)
    qed
  qed
qed

end

sublocale redis_replies \<subseteq> dlock: lock_service "dl_acq c" "dl_rel c" dl_tokens
  "\<lambda>s k t. view s k = Some t" "\<lambda>_. True" "\<lambda>_. True"
proof unfold_locales
  fix l s k k' t t' l' s' b u
  show "view s' k = Some t \<and> dl_tokens l' k = Some t" if "dl_acq c l s k t = (True, l', s')"
    using that dl_acquire_view [of l s k t] by (auto simp: dl_acq_def split: prod.splits)
  show "\<not> fst (dl_acq c l s k t)" if "view s k = Some t'" "t' \<noteq> t"
    using that dl_acquire_view [of l s k t] by (auto simp: dl_acq_def split: prod.splits)
  show "view s' k' = Some t'"
    if "view s k' = Some t'" "k' \<noteq> k \<or> t' \<noteq> t" "dl_acq c l s k t = (b, l', s')"
    using that dl_acquire_view [of l s k t] by (fastforce simp: dl_acq_def split: prod.splits if_splits)
  show "dl_tokens l k' = Some u \<or> k' = k \<and> u = t"
    if "dl_acq c l s k t = (b, l', s')" "dl_tokens l' k' = Some u"
    using that dl_acquire_view [of l s k t]
    by (fastforce simp: dl_acq_def split: prod.splits if_splits)
  show "view s' k' = Some t'"
    if "view s k' = Some t'" "k' \<noteq> k \<or> dl_tokens l k \<noteq> Some t'" "dl_rel c l s k = (l', s')"
  proof -
    note h = that
    obtain r where "dl_release c l s k = (r, l', s')"
      using h(3) by (cases "dl_release c l s k") (simp add: dl_rel_def)
    with h(1,2) dl_release_view [OF this] show ?thesis by (cases "k' = k") auto
  qed
  show "dl_tokens l k' = Some u" if "dl_rel c l s k = (l', s')" "dl_tokens l' k' = Some u"
  proof -
    note h = that
    obtain r where "dl_release c l s k = (r, l', s')"
      using h(1) by (cases "dl_release c l s k") (simp add: dl_rel_def)
    with h(2) dl_release_view [OF this] show ?thesis by (auto simp: dl_forget_def split: if_splits)
  qed
qed simp_all

context redis_replies
begin

lemmas dl_granted_kept = dlock.granted_kept

end

text \<open>
  \<^bold>\<open>C2.\<close> Mutual exclusion of \<open>DistributedLock\<close>: after one client was granted a key with its token,
  no sequence of acquires and (atomically executed) releases by other clients, each with its own
  token and whatever they ask for, is granted that key, and the key keeps the first client's
  token. Client exceptions are allowed anywhere; expiry is not (no time passes in the sequence).
\<close>

theorem dl_mutual_exclusion:
  assumes "redis_replies c view" and "dl_acquire c l s key token = (Inr True, l', s1)"
    and "\<forall>op \<in> set ops. lock_op_avoids token op" and "\<forall>i. dl_tokens (clients i) key \<noteq> Some token"
    and "lock_run (dl_acq c) (dl_rel c) ops clients s1 = (answers, clients', s2)"
  shows "view s2 key = Some token \<and> (key, True) \<notin> set answers"
  using redis_replies.dl_granted_kept [OF assms(1), of l s key token l' s1 ops clients answers clients' s2]
    assms(2-) by (simp add: dl_acq_def)

lemma dl_mutual_exclusion_witness:
  "[Acq 1 ''job'' ''B'', Rel 1 ''job'', Acq 2 ''job'' ''C''] \<noteq> [] \<and>
   snd (snd (lock_run (dl_acq mem_redis) (dl_rel mem_redis)
     [Acq 1 ''job'' ''B'', Rel 1 ''job'', Acq 2 ''job'' ''C''] (\<lambda>_. dl_init 10) [''job'' \<mapsto> ''A''])) ''job''
   = Some ''A''"
  using dl_mutual_exclusion [OF mem.redis_replies_axioms, of "dl_init 10" "\<lambda>_. None" "''job''" "''A''"
      "(dl_init 10)\<lparr>dl_tokens := [''job'' \<mapsto> ''A'']\<rparr>" "[''job'' \<mapsto> ''A'']"
      "[Acq 1 ''job'' ''B'', Rel 1 ''job'', Acq 2 ''job'' ''C'']" "\<lambda>_. dl_init 10"]
  by (cases "lock_run (dl_acq mem_redis) (dl_rel mem_redis)
     [Acq 1 ''job'' ''B'', Rel 1 ''job'', Acq 2 ''job'' ''C''] (\<lambda>_. dl_init 10) [''job'' \<mapsto> ''A'']")
    (simp add: dl_acquire_def dl_init_def mem_redis_def)

text \<open>
  \<open>release\<close> is not atomic: if the key expires after \<open>release\<close> has read its own token
  and another client then acquires it, the rest of \<open>release\<close> deletes that client's lock.
\<close>

theorem dl_release_race:
  assumes "redis_store c view up" and "up s" and "view s key = Some token"
    and "up expired" and "view expired = (view s)(key := None)"
    and "dl_acquire c other expired key token2 = (Inr True, other', taken)"
    and "dl_release_finish c l taken key token (rc_get c s key) = (r, l', s')"
  shows "view taken key = Some token2 \<and> (r = Inr () \<longrightarrow> view s' key = None)"
proof -
  have replies: "redis_replies c view" using assms(1) by (simp add: redis_store_def)
  have taken: "view taken key = Some token2"
    using redis_replies.dl_acquire_view [OF replies assms(6)] by simp
  obtain q s1 where d: "rc_delete c taken key = (q, s1)" by (metis prod.exhaust)
  have "r = Inr () \<longrightarrow> view s' key = None"
    using assms(7) d redis_replies.delete_reply [OF replies, of taken key s1]
    by (cases q) (auto simp: dl_release_finish_def redis_store.get_eq [OF assms(1,2)] assms(3))
  with taken show ?thesis by simp
qed

lemma dl_release_race_witness:
  "snd (snd (dl_release_finish mem_redis (dl_init 10) [''job'' \<mapsto> ''B''] ''job'' ''A''
     (rc_get mem_redis [''job'' \<mapsto> ''A''] ''job''))) ''job'' = None"
  using dl_release_race [OF mem.redis_store_axioms, of "[''job'' \<mapsto> ''A'']" "''job''" "''A''" "\<lambda>_. None"
      "dl_init 10" "''B''" _ "[''job'' \<mapsto> ''B'']" "dl_init 10"]
  by (simp add: dl_acquire_def dl_release_finish_def dl_init_def mem_redis_def fun_upd_def)


subsection \<open>The outbox\<close>

lemma outbox_loop_append:
  "outbox_loop (q1 @ q2) w =
     (case outbox_loop q1 w of (Inl e, w1) \<Rightarrow> (Inl e, w1) | (Inr _, w1) \<Rightarrow> outbox_loop q2 w1)"
  by (induction q1 w rule: outbox_loop.induct) (auto split: prod.splits sum.splits)

text \<open>
  A failed flush is replayed: if the relay flushed the entries \<open>done\<close> and then the state
  function of an entry raised, the whole queue is kept (with anything added meanwhile behind
  it), so the next flush runs every entry of \<open>done\<close>, its dispatch included, a second time before
  it retries the failed one.
\<close>

theorem outbox_flush_replays:
  assumes "outbox_loop done w = (Inr (), w1)" and "state_fn w1 = (Inl e, w2)"
    and "outbox_loop done w2 = (Inr (), w3)"
    and "outbox_flush (done @ (state_fn, dispatch_fn) # rest) w = (r, q', w')"
  shows "r = Inl e \<and> q' = done @ (state_fn, dispatch_fn) # rest \<and> w' = w2 \<and>
    outbox_flush (outbox_add q' s2 d2) w' =
      (case outbox_loop (((state_fn, dispatch_fn) # rest) @ [(s2, d2)]) w3 of
         (Inl e', w4) \<Rightarrow> (Inl e', done @ (state_fn, dispatch_fn) # rest @ [(s2, d2)], w4)
       | (Inr _, w4) \<Rightarrow> (Inr (), [], w4))"
proof -
  let ?q = "done @ (state_fn, dispatch_fn) # rest"
  have "outbox_loop ?q w = (Inl e, w2)" by (simp add: outbox_loop_append assms(1,2))
  with assms(4) have first: "r = Inl e" "q' = ?q" "w' = w2" by (simp_all add: outbox_flush_def)
  have "outbox_loop (?q @ [(s2, d2)]) w2 = outbox_loop (((state_fn, dispatch_fn) # rest) @ [(s2, d2)]) w3"
    using outbox_loop_append [of "done" "((state_fn, dispatch_fn) # rest) @ [(s2, d2)]" w2]
    by (simp only: append_assoc assms(3)) simp
  with first show ?thesis
    by (simp only: outbox_flush_def outbox_add_def) (simp split: prod.split sum.split)
qed

lemma outbox_flush_replays_witness:
  "outbox_flush (outbox_add
     [(\<lambda>w. (Inr (), w @ ''s''), \<lambda>w. (Inr (), w @ ''d'')),
      (\<lambda>w. if length w < 3 then (Inl (), w @ ''x'') else (Inr (), w @ ''S''), \<lambda>w. (Inr (), w @ ''D''))]
     (\<lambda>w. (Inr (), w @ ''t'')) (\<lambda>w. (Inr (), w @ ''e''))) ''sdx'' = (Inr (), [], ''sdxsdSDte'')"
  using outbox_flush_replays [of "[(\<lambda>w. (Inr (), w @ ''s''), \<lambda>w. (Inr (), w @ ''d''))]" "[]" "''sd''"
    "\<lambda>w. if length w < 3 then (Inl (), w @ ''x'') else (Inr (), w @ ''S'')" "()" "''sdx''" "''sdxsd''"
    "\<lambda>w. (Inr (), w @ ''D'')" "[]" _ _ _ "\<lambda>w. (Inr (), w @ ''t'')" "\<lambda>w. (Inr (), w @ ''e'')"]
  by (simp add: outbox_flush_def)

subsection \<open>The prompt cache\<close>

text \<open>
  The prompt-cache key does not depend on the order in which the caller listed the
  arguments; two argument lists with the same entries share one cache slot, and a value stored
  under the one is returned for the other.
\<close>

theorem cache_key_order_irrelevant:
  assumes "redis_store c view up" and "up s" and "distinct (map fst args)" and "mset args = mset args'"
  shows "cache_key digest tool args = cache_key digest tool args' \<and>
    prompt_get c (prompt_set c ttl s (cache_key digest tool args) result) (cache_key digest tool args')
      = Some result"
proof -
  let ?f = "map (\<lambda>(k, v). (k, json_sort v))"
  have "distinct (map fst (?f args))" using assms(3) by (simp only: map_fst_map_snd)
  moreover have "mset (?f args) = mset (?f args')" using assms(4) by simp
  ultimately have "sort_key fst (?f args) = sort_key fst (?f args')"
    by (intro sort_key_unique)
  then have "json_sort (JObj args) = json_sort (JObj args')" by simp
  then have "json_sort (JObj [(''tool'', JStr tool), (''args'', JObj args)]) =
      json_sort (JObj [(''tool'', JStr tool), (''args'', JObj args')])" by simp
  then have "cache_key digest tool args = cache_key digest tool args'"
    by (simp only: cache_key_def prompt_hash_def)
  with redis_store.prompt_cache_up [OF assms(1,2)] show ?thesis by simp
qed

lemma cache_key_order_irrelevant_witness:
  "cache_key (\<lambda>x. x) ''add'' [(''b'', JInt 2), (''a'', JInt 1)] =
   cache_key (\<lambda>x. x) ''add'' [(''a'', JInt 1), (''b'', JInt 2)]"
  using cache_key_order_irrelevant [OF mem.redis_store_axioms,
      where args = "[(''b'', JInt 2), (''a'', JInt 1)]" and args' = "[(''a'', JInt 1), (''b'', JInt 2)]"
      and digest = "\<lambda>x. x" and tool = "''add''"]
  by simp

end
