(* ===== verification/Redlock.thy ===== *)
theory Redlock
  imports Idempotency
begin

section \<open>The quorum lock (streams/redlock.py)\<close>

text \<open>
  \<open>RedlockClient\<close> over N independent nodes. A node is a client object with the state of its
  server; nodes fail independently. The token \<open>uuid4\<close> returns, the elapsed time of each attempt and
  what other clients do to the servers while this one sleeps between two attempts are arguments.
\<close>

type_synonym 'r node = "'r redis_client \<times> 'r"

record redlock =
  rl_ttl_ms :: int
  rl_retry_count :: int
  rl_retry_delay_ms :: int
  rl_quorum :: nat
  rl_tokens :: "string \<Rightarrow> string option"

definition rl_init :: "'r node list \<Rightarrow> int \<Rightarrow> int \<Rightarrow> int \<Rightarrow> redlock" where
  "rl_init nodes ttl_ms retry_count retry_delay_ms =
     \<lparr>rl_ttl_ms = ttl_ms, rl_retry_count = retry_count, rl_retry_delay_ms = retry_delay_ms,
      rl_quorum = length nodes div 2 + 1, rl_tokens = (\<lambda>_. None)\<rparr>"

text \<open>The loop of SET NX over the nodes: which of them granted the key, and their new states.\<close>

fun rl_set_all :: "int \<Rightarrow> string \<Rightarrow> string \<Rightarrow> 'r node list \<Rightarrow> bool list \<times> 'r node list" where
  "rl_set_all ttl_ms key token [] = ([], [])"
| "rl_set_all ttl_ms key token ((c, s) # nodes) =
     (case rc_setnx_px c s key token ttl_ms of
        (r, s') \<Rightarrow>
          (case rl_set_all ttl_ms key token nodes of
             (granted, nodes') \<Rightarrow> ((r = Inr True) # granted, (c, s') # nodes')))"

definition rl_release_node :: "string \<Rightarrow> string \<Rightarrow> 'r node \<Rightarrow> 'r node" where
  "rl_release_node key token node =
     (case node of
        (c, s) \<Rightarrow>
          (case rc_get c s key of
             Inl _ \<Rightarrow> (c, s)
           | Inr None \<Rightarrow> (c, s)
           | Inr (Some stored) \<Rightarrow>
               if stored = token then (c, snd (rc_delete c s key)) else (c, s)))"

text \<open>\<open>_release_partial\<close> on the nodes selected by a mask.\<close>

definition rl_release_partial ::
  "string \<Rightarrow> string \<Rightarrow> bool list \<Rightarrow> 'r node list \<Rightarrow> 'r node list" where
  "rl_release_partial key token selected nodes =
     map2 (\<lambda>b node. if b then rl_release_node key token node else node) selected nodes"

fun rl_retry ::
  "nat \<Rightarrow> nat \<Rightarrow> (nat \<Rightarrow> int) \<Rightarrow> (nat \<Rightarrow> 'r node list \<Rightarrow> 'r node list) \<Rightarrow> redlock
     \<Rightarrow> 'r node list \<Rightarrow> string \<Rightarrow> string \<Rightarrow> bool \<times> redlock \<times> 'r node list" where
  "rl_retry 0 i elapsed env l nodes key token = (False, l, nodes)"
| "rl_retry (Suc n) i elapsed env l nodes key token =
     (case rl_set_all (rl_ttl_ms l) key token nodes of
        (granted, nodes1) \<Rightarrow>
          (if length (filter id granted) \<ge> rl_quorum l \<and> rl_ttl_ms l - elapsed i > 0
           then (True, l\<lparr>rl_tokens := (rl_tokens l)(key \<mapsto> token)\<rparr>, nodes1)
           else let nodes2 = rl_release_partial key token granted nodes1;
                    nodes3 = (if rl_retry_delay_ms l > 0 then env i nodes2 else nodes2)
                in rl_retry n (Suc i) elapsed env l nodes3 key token))"

definition rl_acquire ::
  "(nat \<Rightarrow> int) \<Rightarrow> (nat \<Rightarrow> 'r node list \<Rightarrow> 'r node list) \<Rightarrow> redlock \<Rightarrow> 'r node list
     \<Rightarrow> string \<Rightarrow> string \<Rightarrow> bool \<times> redlock \<times> 'r node list" where
  "rl_acquire elapsed env l nodes key token =
     rl_retry (nat (rl_retry_count l)) 0 elapsed env l nodes key token"

definition rl_release :: "redlock \<Rightarrow> 'r node list \<Rightarrow> string \<Rightarrow> redlock \<times> 'r node list" where
  "rl_release l nodes key =
     (case rl_tokens l key of
        None \<Rightarrow> (l, nodes)
      | Some token \<Rightarrow>
          (l\<lparr>rl_tokens := (rl_tokens l)(key := None)\<rparr>,
           rl_release_partial key token (replicate (length nodes) True) nodes))"

subsection \<open>Counting the nodes that hold a token\<close>

definition rl_count :: "('r \<Rightarrow> string \<Rightarrow> string option) \<Rightarrow> 'r node list \<Rightarrow> string \<Rightarrow> string \<Rightarrow> nat" where
  "rl_count view nodes key token = length (filter (\<lambda>(c, s). view s key = Some token) nodes)"

definition rl_sane :: "('r \<Rightarrow> string \<Rightarrow> string option) \<Rightarrow> nat \<Rightarrow> 'r node list \<Rightarrow> bool" where
  "rl_sane view n nodes \<longleftrightarrow> length nodes = n \<and> (\<forall>(c, s) \<in> set nodes. redis_replies c view)"

definition rl_holds :: "('r \<Rightarrow> string \<Rightarrow> string option) \<Rightarrow> nat \<Rightarrow> 'r node list \<Rightarrow> string \<Rightarrow> string \<Rightarrow> bool" where
  "rl_holds view n nodes key token \<longleftrightarrow> n div 2 + 1 \<le> rl_count view nodes key token"

lemma rl_count_simps [simp]:
  "rl_count view [] k t = 0"
  "rl_count view ((c, s) # nodes) k t =
     (if view s k = Some t then Suc (rl_count view nodes k t) else rl_count view nodes k t)"
  by (simp_all add: rl_count_def)

lemma setnx_px_view:
  assumes "redis_replies c view" and "rc_setnx_px c s k t ttl = (r, s')"
  shows "if r = Inr True then view s k = None \<and> view s' = (view s)(k \<mapsto> t)
    else view s' = view s \<or> view s k = None \<and> view s' = (view s)(k \<mapsto> t)"
  using redis_replies.setnx_px_reply [OF assms(1), of s k t ttl _ s']
    redis_replies.setnx_px_raised [OF assms(1), of s k t ttl _ s'] assms(2)
  by (cases r) auto

lemma rl_set_all_sane:
  assumes "rl_set_all ttl k t nodes = (bs, nodes')" and "rl_sane view n nodes"
  shows "rl_sane view n nodes' \<and> length bs = n"
  using assms
  by (induction ttl k t nodes arbitrary: bs nodes' n rule: rl_set_all.induct)
    (fastforce simp: rl_sane_def split: prod.splits)+

lemma rl_set_all_counts:
  assumes "rl_set_all ttl k t nodes = (bs, nodes')" and "rl_sane view n nodes"
  shows "length (filter id bs) \<le> rl_count view nodes' k t"
    and "t' \<noteq> t \<Longrightarrow> length (filter id bs) + rl_count view nodes k t' \<le> n"
    and "k' \<noteq> k \<or> t' \<noteq> t \<Longrightarrow> rl_count view nodes k' t' \<le> rl_count view nodes' k' t'"
proof (atomize (full), use assms in \<open>induction nodes arbitrary: bs nodes' n\<close>)
  case (Cons node nodes)
  obtain c s where node: "node = (c, s)" by (metis prod.exhaust)
  obtain r s' where set: "rc_setnx_px c s k t ttl = (r, s')" by (metis prod.exhaust)
  obtain bs1 nodes1 where rest: "rl_set_all ttl k t nodes = (bs1, nodes1)" by (metis prod.exhaust)
  have sane: "rl_sane view (n - 1) nodes" "0 < n" "redis_replies c view"
    using Cons.prems(2) by (auto simp: rl_sane_def node)
  have eqs: "bs = (r = Inr True) # bs1" "nodes' = (c, s') # nodes1"
    using Cons.prems(1) by (simp_all add: node set rest)
  show ?case
    using Cons.IH [OF rest sane(1)] setnx_px_view [OF sane(3) set] sane(2)
    by (auto simp: node eqs split: if_splits)
qed simp


lemma rl_release_node_view:
  assumes "redis_replies c view" and "rl_release_node k t (c, s) = (c', s')"
  shows "c' = c \<and> (view s' = view s \<or> view s k = Some t \<and> view s' = (view s)(k := None))"
proof (cases "rc_get c s k")
  case (Inr v)
  then have v: "v = view s k" by (rule redis_replies.get_reply [OF assms(1)])
  obtain q s1 where d: "rc_delete c s k = (q, s1)" by (metis prod.exhaust)
  have "view s1 = view s \<or> view s1 = (view s)(k := None)"
    using redis_replies.delete_reply [OF assms(1), of s k s1] d
      redis_replies.delete_raised [OF assms(1), of s k _ s1] by (cases q) auto
  with assms(2) Inr v d show ?thesis
    by (auto simp: rl_release_node_def split: option.splits if_splits)
qed (use assms(2) in \<open>simp add: rl_release_node_def\<close>)

lemma rl_release_partial_Cons [simp]:
  "rl_release_partial k t [] nodes = []"
  "rl_release_partial k t bs [] = []"
  "rl_release_partial k t (b # bs) (node # nodes) =
     (if b then rl_release_node k t node else node) # rl_release_partial k t bs nodes"
  by (simp_all add: rl_release_partial_def)

lemma rl_release_partial_sane:
  assumes "rl_sane view n nodes" and "length bs = n"
  shows "rl_sane view n (rl_release_partial k t bs nodes)"
    and "k' \<noteq> k \<or> t' \<noteq> t \<Longrightarrow>
      rl_count view nodes k' t' \<le> rl_count view (rl_release_partial k t bs nodes) k' t'"
proof (atomize (full), use assms in \<open>induction nodes arbitrary: bs n\<close>)
  case (Cons node nodes)
  obtain c s where node: "node = (c, s)" by (metis prod.exhaust)
  obtain b bs1 where bs: "bs = b # bs1" using Cons.prems by (cases bs) (auto simp: rl_sane_def)
  obtain c' s' where rel: "rl_release_node k t (c, s) = (c', s')" by (metis prod.exhaust)
  have sane: "rl_sane view (n - 1) nodes" "length bs1 = n - 1" "redis_replies c view" "0 < n"
    using Cons.prems by (auto simp: rl_sane_def node bs)
  note IH = Cons.IH [OF sane(1,2)]
  have "rl_sane view n (rl_release_partial k t bs (node # nodes))"
    using IH sane rl_release_node_view [OF sane(3) rel]
    by (auto simp: rl_sane_def node bs rel)
  moreover have "rl_count view (node # nodes) k' t' \<le>
      rl_count view (rl_release_partial k t bs (node # nodes)) k' t'" if "k' \<noteq> k \<or> t' \<noteq> t"
    using IH that rl_release_node_view [OF sane(3) rel]
    by (cases "k' = k") (auto simp: node bs rel split: if_splits)
  ultimately show ?case by simp
qed (simp add: rl_sane_def)

subsection \<open>The lock service\<close>

text \<open>What may happen while a client sleeps: nothing that takes a held quorum away.\<close>

definition rl_env_ok ::
  "('r \<Rightarrow> string \<Rightarrow> string option) \<Rightarrow> nat \<Rightarrow> (nat \<Rightarrow> 'r node list \<Rightarrow> 'r node list) \<Rightarrow> bool" where
  "rl_env_ok view n env \<longleftrightarrow>
     (\<forall>i nodes. rl_sane view n nodes \<longrightarrow> rl_sane view n (env i nodes) \<and>
        (\<forall>k t. rl_holds view n nodes k t \<longrightarrow> rl_holds view n (env i nodes) k t))"

lemma rl_retry_facts:
  assumes "rl_retry m i elapsed env l nodes k t = (b, l', nodes')"
    and "rl_env_ok view n env" and "rl_sane view n nodes" and "rl_quorum l = n div 2 + 1"
  shows "rl_sane view n nodes' \<and> rl_quorum l' = n div 2 + 1 \<and>
    (b \<longrightarrow> rl_holds view n nodes' k t \<and> l' = l\<lparr>rl_tokens := (rl_tokens l)(k \<mapsto> t)\<rparr>) \<and>
    (\<not> b \<longrightarrow> l' = l)"
    and "k' \<noteq> k \<or> t' \<noteq> t \<Longrightarrow> rl_holds view n nodes k' t' \<Longrightarrow> rl_holds view n nodes' k' t'"
    and "t' \<noteq> t \<Longrightarrow> rl_holds view n nodes k t' \<Longrightarrow> \<not> b"
proof (atomize (full), use assms in
    \<open>induction m i elapsed env l nodes k t rule: rl_retry.induct\<close>)
  case (2 m i elapsed env l nodes k t)
  obtain bs nodes1 where set: "rl_set_all (rl_ttl_ms l) k t nodes = (bs, nodes1)"
    by (metis prod.exhaust)
  note sane1 = rl_set_all_sane [OF set 2(4)]
  note counts = rl_set_all_counts [OF set 2(4)]
  show ?case
  proof (cases "length (filter id bs) \<ge> rl_quorum l \<and> rl_ttl_ms l - elapsed i > 0")
    case True
    have res: "b" "l' = l\<lparr>rl_tokens := (rl_tokens l)(k \<mapsto> t)\<rparr>" "nodes' = nodes1"
      using 2(2) True by (simp_all add: set)
    have q: "n div 2 + 1 \<le> length (filter id bs)" using True 2(5) by simp
    have "rl_holds view n nodes1 k t" using q counts(1) by (simp add: rl_holds_def)
    moreover have "\<not> rl_holds view n nodes k t'" if "t' \<noteq> t"
      using q counts(2) [OF that] unfolding rl_holds_def by linarith
    moreover have "rl_holds view n nodes1 k' t'"
      if "k' \<noteq> k \<or> t' \<noteq> t" "rl_holds view n nodes k' t'"
      using counts(3) [OF that(1)] that(2) by (simp add: rl_holds_def)
    ultimately show ?thesis using res sane1 2(5) by (simp add: fun_upd_def)
  next
    case False
    let ?n2 = "rl_release_partial k t bs nodes1"
    let ?n3 = "if rl_retry_delay_ms l > 0 then env i ?n2 else ?n2"
    have bs: "length bs = n" using sane1 by simp
    note part = rl_release_partial_sane [OF conjunct1 [OF sane1] bs]
    have sane3: "rl_sane view n ?n3" using part(1) 2(3) by (auto simp: rl_env_ok_def)
    have frame: "rl_holds view n ?n3 k' t'"
      if "k' \<noteq> k \<or> t' \<noteq> t" "rl_holds view n nodes k' t'" for k' t'
    proof -
      have "rl_holds view n ?n2 k' t'"
        using that(2) counts(3) [OF that(1)] part(2) [OF that(1)] by (simp add: rl_holds_def)
      then show ?thesis using part(1) 2(3) by (auto simp: rl_env_ok_def)
    qed
    have again: "rl_retry m (Suc i) elapsed env l ?n3 k t = (b, l', nodes')"
      using 2(2) by (simp only: rl_retry.simps set prod.case if_not_P [OF False] Let_def)
    show ?thesis
      using 2(1) [OF set [symmetric] False refl refl again 2(3) sane3 2(5)] frame by blast
  qed
qed auto

lemma rl_retry_tokens:
  "rl_retry m i elapsed env l nodes k t = (b, l', nodes') \<Longrightarrow>
    l' = l \<or> l' = l\<lparr>rl_tokens := (rl_tokens l)(k \<mapsto> t)\<rparr>"
  by (induction m i elapsed env l nodes k t rule: rl_retry.induct)
    (auto simp: Let_def split: prod.splits if_splits)

lemma rl_release_facts:
  assumes "rl_release l nodes k = (l', nodes')" and "rl_sane view n nodes"
  shows "rl_sane view n nodes' \<and> rl_quorum l' = rl_quorum l"
    and "k' \<noteq> k \<or> rl_tokens l k \<noteq> Some t' \<Longrightarrow> rl_holds view n nodes k' t' \<Longrightarrow>
      rl_holds view n nodes' k' t'"
proof -
  have len: "length (replicate (length nodes) True) = n" using assms(2) by (simp add: rl_sane_def)
  note part = rl_release_partial_sane [OF assms(2) len]
  show "rl_sane view n nodes' \<and> rl_quorum l' = rl_quorum l"
    using assms part(1) by (auto simp: rl_release_def split: option.splits)
  show "rl_holds view n nodes' k' t'"
    if "k' \<noteq> k \<or> rl_tokens l k \<noteq> Some t'" "rl_holds view n nodes k' t'"
  proof (cases "rl_tokens l k")
    case (Some t)
    with that(1) have "k' \<noteq> k \<or> t' \<noteq> t" by auto
    from part(2) [OF this] that(2) Some assms(1) show ?thesis
      by (force simp: rl_release_def rl_holds_def)
  qed (use assms(1) that(2) in \<open>simp add: rl_release_def\<close>)
qed

lemma redlock_service:
  assumes "rl_env_ok view n env"
  shows "lock_service (rl_acquire elapsed env) rl_release rl_tokens (rl_holds view n)
    (\<lambda>l. rl_quorum l = n div 2 + 1) (rl_sane view n)"
proof unfold_locales
  fix l s k k' t t' l' s' b u
  note facts = rl_retry_facts [OF _ assms]
  show "rl_holds view n s' k t \<and> rl_tokens l' k = Some t"
    if "rl_acquire elapsed env l s k t = (True, l', s')" "rl_quorum l = n div 2 + 1" "rl_sane view n s"
    using facts(1) [OF that(1) [unfolded rl_acquire_def] that(3,2)] by simp
  show "\<not> fst (rl_acquire elapsed env l s k t)"
    if "rl_holds view n s k t'" "t' \<noteq> t" "rl_quorum l = n div 2 + 1" "rl_sane view n s"
    using facts(3) [OF _ that(4,3,2,1)] by (metis prod.collapse rl_acquire_def)
  show "rl_holds view n s' k' t'"
    if "rl_holds view n s k' t'" "k' \<noteq> k \<or> t' \<noteq> t" "rl_acquire elapsed env l s k t = (b, l', s')"
      "rl_quorum l = n div 2 + 1" "rl_sane view n s"
    using facts(2) [OF that(3) [unfolded rl_acquire_def] that(5,4,2,1)] .
  show "rl_quorum l' = n div 2 + 1 \<and> rl_sane view n s'"
    if "rl_acquire elapsed env l s k t = (b, l', s')" "rl_quorum l = n div 2 + 1" "rl_sane view n s"
    using facts(1) [OF that(1) [unfolded rl_acquire_def] that(3,2)] by simp
  show "rl_tokens l k' = Some u \<or> k' = k \<and> u = t"
    if "rl_acquire elapsed env l s k t = (b, l', s')" "rl_tokens l' k' = Some u"
    using rl_retry_tokens [OF that(1) [unfolded rl_acquire_def]] that(2) by (auto split: if_splits)
  show "rl_holds view n s' k' t'"
    if "rl_holds view n s k' t'" "k' \<noteq> k \<or> rl_tokens l k \<noteq> Some t'" "rl_release l s k = (l', s')"
      "rl_sane view n s"
    using rl_release_facts(2) [OF that(3,4,2,1)] .
  show "rl_tokens l k' = Some u" if "rl_release l s k = (l', s')" "rl_tokens l' k' = Some u"
    using that by (auto simp: rl_release_def split: option.splits if_splits)
  show "rl_quorum l' = n div 2 + 1 \<and> rl_sane view n s'"
    if "rl_release l s k = (l', s')" "rl_quorum l = n div 2 + 1" "rl_sane view n s"
    using rl_release_facts(1) [OF that(1,3)] that(2) by simp
qed

interpretation mem_redlock: lock_service "rl_acquire elapsed (\<lambda>_ nodes. nodes)" rl_release rl_tokens
  "rl_holds (\<lambda>s. s) n" "\<lambda>l. rl_quorum l = n div 2 + 1"
  "rl_sane (\<lambda>s. s) n :: (mem_state redis_client \<times> mem_state) list \<Rightarrow> bool"
  by (rule redlock_service) (simp add: rl_env_ok_def)




text \<open>A failed attempt cleans up: where every node answers, each is left as it was.\<close>

context redis_store
begin

lemma rl_attempt_node_restores:
  assumes "up s" and "rc_setnx_px c s k t ttl = (r, s')" and "view s k \<noteq> Some t"
  shows "view (snd (if r = Inr True then rl_release_node k t (c, s') else (c, s'))) = view s"
proof -
  obtain b where r: "r = Inr b" using setnx_px_up [OF assms(1), of k t ttl] assms(2) by (auto simp: is_ok_iff)
  have up': "up s'" using setnx_px_up [OF assms(1), of k t ttl] assms(2) by simp
  have set: "b = (view s k = None) \<and> view s' = (if b then (view s)(k \<mapsto> t) else view s)"
    using setnx_px_reply assms(2) r by metis
  obtain s2 where "rc_delete c s' k = (Inr (), s2)" "view s2 = (view s')(k := None)"
    by (rule delete_eq [OF up'])
  then show ?thesis using set r by (cases b) (auto simp: rl_release_node_def get_eq [OF up'])
qed

end

lemma rl_failed_attempt_restores:
  assumes "rl_set_all ttl k t nodes = (bs, nodes')"
    and "\<forall>(c, s) \<in> set nodes. redis_store c view up \<and> up s \<and> view s k \<noteq> Some t"
  shows "map (\<lambda>(c, s). view s) (rl_release_partial k t bs nodes') = map (\<lambda>(c, s). view s) nodes"
  using assms
proof (induction nodes arbitrary: bs nodes')
  case (Cons node nodes)
  obtain c s where node: "node = (c, s)" by (metis prod.exhaust)
  obtain r s' where set: "rc_setnx_px c s k t ttl = (r, s')" by (metis prod.exhaust)
  obtain bs1 nodes1 where rest: "rl_set_all ttl k t nodes = (bs1, nodes1)" by (metis prod.exhaust)
  have eqs: "bs = (r = Inr True) # bs1" "nodes' = (c, s') # nodes1"
    using Cons.prems(1) by (simp_all add: node set rest)
  have "view (snd (if r = Inr True then rl_release_node k t (c, s') else (c, s'))) = view s"
    using Cons.prems(2) redis_store.rl_attempt_node_restores [of c view up, OF _ _ set] by (auto simp: node)
  then show ?case
    using Cons.IH [OF rest] Cons.prems(2) by (simp add: eqs node split_beta)
qed simp

end
