(* ===== verification/Eventlog.thy ===== *)
theory Eventlog
  imports Json
begin

section \<open>Event logs (streams/eventlog.py, streams/kafka\_adapter.py)\<close>

text \<open>
  The \<open>EventLog\<close> protocol is the locale \<open>event_log\<close>; \<open>InProcessEventLog\<close> and \<open>KafkaEventLog\<close>
  are its two providers. The asyncio lock makes every operation one step. The Kafka broker is a
  record of functions; its documented behaviour (offsets count from 0, a poll returns what the
  topic holds, in batches) is the locale \<open>kafka_broker\<close>.
\<close>

type_synonym event = "(string \<times> json) list"

datatype log_error = LogValueError | LogRuntimeError | BrokerError

definition session_topic :: "string \<Rightarrow> string" where
  "session_topic session_id = ''session.'' @ session_id"

definition capability_topic :: "string \<Rightarrow> string" where
  "capability_topic capability = ''capability.'' @ capability"

lemma topics_disjoint: "session_topic s \<noteq> capability_topic c"
  by (simp add: session_topic_def capability_topic_def)

lemma topics_inject: "session_topic s = session_topic s' \<longleftrightarrow> s = s'"
  "capability_topic c = capability_topic c' \<longleftrightarrow> c = c'"
  by (simp_all add: session_topic_def capability_topic_def)

subsection \<open>InProcessEventLog\<close>

record mem_log =
  el_store :: "string \<Rightarrow> (string \<times> event) list"
  el_counters :: "string \<Rightarrow> nat"

definition el_init :: mem_log where
  "el_init = \<lparr>el_store = (\<lambda>_. []), el_counters = (\<lambda>_. 0)\<rparr>"

definition el_msg_id :: "string \<Rightarrow> nat \<Rightarrow> string" where
  "el_msg_id topic idx = topic @ ''-'' @ show_nat idx"

definition el_append :: "mem_log \<Rightarrow> string \<Rightarrow> event \<Rightarrow> (log_error, string) result \<times> mem_log" where
  "el_append l topic event =
     (let idx = el_counters l topic; msg_id = el_msg_id topic idx
      in (Inr msg_id,
          l\<lparr>el_store := (el_store l)(topic := el_store l topic @ [(msg_id, event)]),
            el_counters := (el_counters l)(topic := idx + 1)\<rparr>))"

definition el_read :: "mem_log \<Rightarrow> string \<Rightarrow> string \<Rightarrow> (log_error, (string \<times> event) list) result" where
  "el_read l topic offset =
     (let start = (case parse_int offset of Some n \<Rightarrow> n | None \<Rightarrow> 0)
      in Inr (slice_from (el_store l topic) start))"

definition el_inv :: "mem_log \<Rightarrow> bool" where
  "el_inv l \<longleftrightarrow> (\<forall>topic. el_counters l topic = length (el_store l topic) \<and>
     map fst (el_store l topic) = map (el_msg_id topic) [0..<length (el_store l topic)])"

lemma el_inv_init [inv_intros]: "el_inv el_init"
  by (simp add: el_inv_def el_init_def)

lemma el_append_inv [inv_intros]: "el_inv l \<Longrightarrow> el_inv (snd (el_append l topic e))"
  by (simp add: el_inv_def el_append_def Let_def)

lemma el_msg_id_inject: "el_msg_id t i = el_msg_id t' j \<longleftrightarrow> t = t' \<and> i = j"
proof
  assume "el_msg_id t i = el_msg_id t' j"
  then have eq: "(t @ ''-'') @ show_nat i = (t' @ ''-'') @ show_nat j" by (simp add: el_msg_id_def)
  have dig: "takeWhile is_digit (rev ((u @ ''-'') @ show_nat k)) = rev (show_nat k)" for u k
    by (subst rev_append, subst takeWhile_append2) (auto simp: show_nat_digits not_digits)
  have "rev (show_nat i) = rev (show_nat j)"
    using dig [of t i] dig [of t' j] by (simp only: eq)
  then have "i = j" by simp
  with eq show "t = t' \<and> i = j" by simp
qed simp

lemma el_ids_distinct:
  assumes "el_inv l"
  shows "distinct (map fst (el_store l topic))"
    and "topic \<noteq> topic' \<Longrightarrow> fst ` set (el_store l topic) \<inter> fst ` set (el_store l topic') = {}"
proof -
  have ids: "map fst (el_store l u) = map (el_msg_id u) [0..<length (el_store l u)]" for u
    using assms by (simp add: el_inv_def)
  show "distinct (map fst (el_store l topic))"
    by (simp only: ids distinct_map distinct_upt) (auto simp: inj_on_def el_msg_id_inject)
  have "fst ` set (el_store l u) = el_msg_id u ` {0..<length (el_store l u)}" for u
    using arg_cong [OF ids [of u], of set] by simp
  then show "fst ` set (el_store l topic) \<inter> fst ` set (el_store l topic') = {}" if "topic \<noteq> topic'"
    using that by (auto simp: el_msg_id_inject)
qed

subsection \<open>KafkaEventLog\<close>

record 'b broker =
  br_send :: "'b \<Rightarrow> string \<Rightarrow> string \<Rightarrow> (log_error, nat) result \<times> 'b"
  br_getmany :: "'b \<Rightarrow> string \<Rightarrow> (nat \<times> string) list list"

text \<open>The adapter's own state is whether the producer was started; \<open>avail\<close> is the import guard.\<close>

record 'b kafka_log =
  ka_producer :: bool
  ka_broker :: 'b

definition ka_init :: "bool \<Rightarrow> 'b \<Rightarrow> (log_error, 'b kafka_log) result" where
  "ka_init avail b =
     (if \<not> avail then Inl LogRuntimeError else Inr \<lparr>ka_producer = False, ka_broker = b\<rparr>)"

definition ka_start :: "'b kafka_log \<Rightarrow> 'b kafka_log" where
  "ka_start k = k\<lparr>ka_producer := True\<rparr>"

definition ka_append ::
  "'b broker \<Rightarrow> 'b kafka_log \<Rightarrow> string \<Rightarrow> event \<Rightarrow> (log_error, string) result \<times> 'b kafka_log" where
  "ka_append br k topic event =
     (let k1 = (if ka_producer k then k else ka_start k)
      in case br_send br (ka_broker k1) topic (dumps (JObj event)) of
           (Inl e, b) \<Rightarrow> (Inl e, k1\<lparr>ka_broker := b\<rparr>)
         | (Inr off, b) \<Rightarrow> (Inr (show_nat off), k1\<lparr>ka_broker := b\<rparr>))"

text \<open>The loop over the messages of all batches; \<open>json.loads\<close> may raise.\<close>

fun ka_collect :: "int \<Rightarrow> (nat \<times> string) list \<Rightarrow> (log_error, (string \<times> event) list) result" where
  "ka_collect start [] = Inr []"
| "ka_collect start ((off, value) # msgs) =
     (if int off < start then ka_collect start msgs
      else case loads value of
             Some (JObj event) \<Rightarrow>
               (case ka_collect start msgs of
                  Inl e \<Rightarrow> Inl e
                | Inr res \<Rightarrow> Inr ((show_nat off, event) # res))
           | _ \<Rightarrow> Inl LogValueError)"

definition ka_read ::
  "bool \<Rightarrow> 'b broker \<Rightarrow> 'b kafka_log \<Rightarrow> string \<Rightarrow> string \<Rightarrow> (log_error, (string \<times> event) list) result" where
  "ka_read avail br k topic offset =
     (if \<not> avail then Inl LogRuntimeError
      else case parse_int offset of
             None \<Rightarrow> Inl LogValueError
           | Some start \<Rightarrow> ka_collect start (concat (br_getmany br (ka_broker k) topic)))"

subsection \<open>The protocol\<close>

text \<open>
  \<open>log s t\<close> is the sequence of events of a topic; the id of an appended event may be anything.
\<close>

locale event_log =
  fixes append_ev :: "'s \<Rightarrow> string \<Rightarrow> event \<Rightarrow> (log_error, string) result \<times> 's"
    and read_evs :: "'s \<Rightarrow> string \<Rightarrow> string \<Rightarrow> (log_error, (string \<times> event) list) result"
    and log :: "'s \<Rightarrow> string \<Rightarrow> event list"
    and good :: "'s \<Rightarrow> bool"
    and event_ok :: "event \<Rightarrow> bool"
  assumes append_log: "good s \<Longrightarrow> event_ok e \<Longrightarrow> append_ev s t e = (r, s') \<Longrightarrow>
      is_ok r \<and> good s' \<and> log s' = (log s)(t := log s t @ [e])"
    and read_log: "good s \<Longrightarrow> \<exists>ids. length ids = length (drop n (log s t)) \<and>
      read_evs s t (show_nat n) = Inr (zip ids (drop n (log s t)))"

text \<open>A producer and a consumer that polls from the number of events it has seen so far.\<close>

datatype log_op = Append string event | Poll

fun log_run ::
  "('s \<Rightarrow> string \<Rightarrow> event \<Rightarrow> (log_error, string) result \<times> 's)
     \<Rightarrow> ('s \<Rightarrow> string \<Rightarrow> string \<Rightarrow> (log_error, (string \<times> event) list) result)
     \<Rightarrow> string \<Rightarrow> log_op list \<Rightarrow> 's \<Rightarrow> event list \<Rightarrow> (log_error, event list) result" where
  "log_run append_ev read_evs topic [] s seen = Inr seen"
| "log_run append_ev read_evs topic (Append t e # ops) s seen =
     log_run append_ev read_evs topic ops (snd (append_ev s t e)) seen"
| "log_run append_ev read_evs topic (Poll # ops) s seen =
     (case read_evs s topic (show_nat (length seen)) of
        Inl e \<Rightarrow> Inl e
      | Inr evs \<Rightarrow> log_run append_ev read_evs topic ops s (seen @ map snd evs))"

fun appended :: "string \<Rightarrow> log_op list \<Rightarrow> event list" where
  "appended topic [] = []"
| "appended topic (Append t e # ops) = (if t = topic then e # appended topic ops else appended topic ops)"
| "appended topic (Poll # ops) = appended topic ops"

fun log_ops_ok :: "(event \<Rightarrow> bool) \<Rightarrow> log_op list \<Rightarrow> bool" where
  "log_ops_ok event_ok [] = True"
| "log_ops_ok event_ok (Append t e # ops) = (event_ok e \<and> log_ops_ok event_ok ops)"
| "log_ops_ok event_ok (Poll # ops) = log_ops_ok event_ok ops"

context event_log
begin

lemma poll_exactly_once:
  assumes "good s" and "log_ops_ok event_ok ops" and "prefix seen (log s t)"
  shows "log_run append_ev read_evs t (ops @ [Poll]) s seen = Inr (log s t @ appended t ops)"
  using assms
proof (induction ops arbitrary: s seen)
  case Nil
  obtain ids where "length ids = length (drop (length seen) (log s t))"
    "read_evs s t (show_nat (length seen)) = Inr (zip ids (drop (length seen) (log s t)))"
    using read_log [OF Nil.prems(1), of "length seen" t] by blast
  then show ?case using Nil.prems(3) by (auto elim!: prefixE)
next
  case (Cons op ops)
  show ?case
  proof (cases op)
    case (Append t1 e)
    obtain r s1 where a: "append_ev s t1 e = (r, s1)" by (metis prod.exhaust)
    have "event_ok e" using Cons.prems(2) by (simp add: Append)
    note f = append_log [OF Cons.prems(1) this a]
    have "prefix seen (log s1 t)" using f Cons.prems(3) by (auto intro: prefix_prefix)
    then have "log_run append_ev read_evs t (ops @ [Poll]) s1 seen = Inr (log s1 t @ appended t ops)"
      using Cons.IH f Cons.prems(2) by (simp add: Append)
    then show ?thesis using f by (auto simp: Append a)
  next
    case Poll
    obtain ids where "length ids = length (drop (length seen) (log s t))"
      "read_evs s t (show_nat (length seen)) = Inr (zip ids (drop (length seen) (log s t)))"
      using read_log [OF Cons.prems(1), of "length seen" t] by blast
    moreover have "seen @ drop (length seen) (log s t) = log s t"
      using Cons.prems(3) by (auto elim!: prefixE)
    ultimately show ?thesis
      using Cons.IH [of s "log s t"] Cons.prems(1,2) by (simp add: Poll)
  qed
qed

end


subsection \<open>The providers\<close>

interpretation in_process: event_log el_append el_read "\<lambda>l t. map snd (el_store l t)" el_inv "\<lambda>_. True"
proof unfold_locales
  fix s s' :: mem_log and e t r n
  show "is_ok r \<and> el_inv s' \<and> (\<lambda>t. map snd (el_store s' t)) =
      (\<lambda>t. map snd (el_store s t))(t := map snd (el_store s t) @ [e])"
    if "el_inv s" "el_append s t e = (r, s')"
    using el_append_inv [OF that(1), of t e] that(2) by (auto simp: el_append_def Let_def)
  show "\<exists>ids. length ids = length (drop n (map snd (el_store s t))) \<and>
      el_read s t (show_nat n) = Inr (zip ids (drop n (map snd (el_store s t))))"
    using parse_int_show_int [of "int n"]
    by (intro exI [of _ "drop n (map fst (el_store s t))"])
      (simp add: el_read_def show_int_def slice_from_def drop_zip [symmetric] zip_map_fst_snd)
qed

text \<open>What the adapter relies on in the broker: offsets count the messages of the topic.\<close>

locale kafka_broker =
  fixes br :: "'b broker"
    and msgs :: "'b \<Rightarrow> string \<Rightarrow> string list"
  assumes send: "br_send br b t v = (r, b') \<Longrightarrow>
      r = Inr (length (msgs b t)) \<and> msgs b' = (msgs b)(t := msgs b t @ [v])"
    and getmany: "concat (br_getmany br b t) = zip [0..<length (msgs b t)] (msgs b t)"

definition ka_events :: "('b \<Rightarrow> string \<Rightarrow> string list) \<Rightarrow> 'b kafka_log \<Rightarrow> string \<Rightarrow> event list" where
  "ka_events msgs k t = map (\<lambda>v. obj_items (the (loads v))) (msgs (ka_broker k) t)"

definition ka_good :: "('b \<Rightarrow> string \<Rightarrow> string list) \<Rightarrow> 'b kafka_log \<Rightarrow> bool" where
  "ka_good msgs k \<longleftrightarrow> (\<forall>t. \<forall>v \<in> set (msgs (ka_broker k) t). \<exists>e. loads v = Some (JObj e))"

lemma ka_collect_zip:
  assumes "\<forall>v \<in> set vs. \<exists>e. loads v = Some (JObj e)"
  shows "\<exists>ids. length ids = length (drop (n - m) vs) \<and>
    ka_collect (int n) (zip [m..<m + length vs] vs) =
      Inr (zip ids (map (\<lambda>v. obj_items (the (loads v))) (drop (n - m) vs)))"
  using assms
proof (induction vs arbitrary: m)
  case (Cons v vs)
  obtain e where e: "loads v = Some (JObj e)" using Cons.prems by auto
  obtain ids where ids: "length ids = length (drop (n - Suc m) vs)"
      "ka_collect (int n) (zip [Suc m..<Suc m + length vs] vs) =
        Inr (zip ids (map (\<lambda>v. obj_items (the (loads v))) (drop (n - Suc m) vs)))"
    using Cons.IH [of "Suc m"] Cons.prems by auto
  have up: "[m..<m + length (v # vs)] = m # [Suc m..<Suc m + length vs]"
    using upt_conv_Cons [of m "m + length (v # vs)"] by simp
  show ?case
  proof (cases "m < n")
    case True
    then have "drop (n - m) (v # vs) = drop (n - Suc m) vs" by (simp add: drop_Cons' Suc_diff_Suc)
    with True ids show ?thesis unfolding up by (intro exI [of _ ids]) (simp del: upt_Suc)
  next
    case False
    with ids e show ?thesis
      unfolding up by (intro exI [of _ "show_nat m # ids"]) (simp del: upt_Suc)
  qed
qed simp

sublocale kafka_broker \<subseteq> kafka: event_log "ka_append br" "ka_read True br" "ka_events msgs" "ka_good msgs"
  "\<lambda>e. json_ok (JObj e)"
proof unfold_locales
  fix s s' e t r n
  show "is_ok r \<and> ka_good msgs s' \<and> ka_events msgs s' = (ka_events msgs s)(t := ka_events msgs s t @ [e])"
    if "ka_good msgs s" "json_ok (JObj e)" "ka_append br s t e = (r, s')"
  proof -
    note h = that
    let ?v = "dumps (JObj e)"
    obtain q b where snd: "br_send br (ka_broker s) t ?v = (q, b)" by (metis prod.exhaust)
    note s = send [OF snd]
    have "r = Inr (show_nat (length (msgs (ka_broker s) t)))" "ka_broker s' = b"
      using h(3) snd s by (auto simp: ka_append_def ka_start_def Let_def split: if_splits)
    then show ?thesis
      using s h(1) loads_dumps [OF h(2)] by (auto simp: ka_good_def ka_events_def fun_eq_iff)
  qed
  show "\<exists>ids. length ids = length (drop n (ka_events msgs s t)) \<and>
      ka_read True br s t (show_nat n) = Inr (zip ids (drop n (ka_events msgs s t)))"
    if "ka_good msgs s"
    using ka_collect_zip [of "msgs (ka_broker s) t" n 0] that parse_int_show_int [of "int n"]
    by (simp add: ka_read_def show_int_def getmany ka_good_def ka_events_def drop_map)
qed

context kafka_broker
begin

lemmas kafka_poll = kafka.poll_exactly_once

end

text \<open>A broker in memory, the instance the laws are checked on.\<close>

definition mem_broker :: "(string \<Rightarrow> string list) broker" where
  "mem_broker =
     \<lparr>br_send = (\<lambda>b t v. (Inr (length (b t)), b(t := b t @ [v]))),
      br_getmany = (\<lambda>b t. [zip [0..<length (b t)] (b t)])\<rparr>"

interpretation mem_kafka: kafka_broker mem_broker "\<lambda>b. b"
  by unfold_locales (auto simp: mem_broker_def)

text \<open>
  A consumer of the in-process log that polls with the number of events it has seen as
  offset, in any interleaving with producers on this and other topics, ends up after its last
  poll with exactly the appended events of its topic, each once and in order.
\<close>

theorem in_process_exactly_once:
  "log_run el_append el_read topic (ops @ [Poll]) el_init [] = Inr (appended topic ops)"
proof -
  have "log_ops_ok (\<lambda>_. True) ops" by (induction ops rule: log_ops_ok.induct [of "\<lambda>_ ops. log_ops_ok (\<lambda>_. True) ops"]) simp_all
  from in_process.poll_exactly_once [OF el_inv_init this, of "[]" topic] show ?thesis
    by (simp add: el_init_def)
qed



end
