(* ===== verification/Message_Bus.thy ===== *)
theory Message_Bus
  imports Eventlog
begin

section \<open>The message bus and its SSE endpoints (messaging/bus.py, sse\_v1\_router.py, sse\_router.py)\<close>

text \<open>
  Queues are objects with identity: the state keeps the contents of every queue ever created
  (\<open>bus_queues\<close>, by number) and, per topic, the numbers of its subscribers in order of
  subscription. The SSE generators are state machines over the bus: where the generator is
  suspended decides what closing it does.
\<close>

record agent_message =
  am_id :: string
  am_topic :: string
  am_sender :: string
  am_content :: "(string \<times> json) list"
  am_timestamp :: string

record message_bus =
  bus_subscribers :: "(string, nat list) dict"
  bus_queues :: "nat \<Rightarrow> agent_message list"
  bus_next :: nat

definition bus_init :: message_bus where
  "bus_init = \<lparr>bus_subscribers = [], bus_queues = (\<lambda>_. []), bus_next = 0\<rparr>"

definition bus_subs :: "message_bus \<Rightarrow> string \<Rightarrow> nat list" where
  "bus_subs b topic = (case map_of (bus_subscribers b) topic of None \<Rightarrow> [] | Some qs \<Rightarrow> qs)"

definition bus_subscribe :: "message_bus \<Rightarrow> string \<Rightarrow> nat \<times> message_bus" where
  "bus_subscribe b topic =
     (let q = bus_next b
      in (q, b\<lparr>bus_subscribers := AList.update topic (bus_subs b topic @ [q]) (bus_subscribers b),
               bus_queues := (bus_queues b)(q := []), bus_next := q + 1\<rparr>))"

definition bus_unsubscribe :: "message_bus \<Rightarrow> string \<Rightarrow> nat \<Rightarrow> message_bus" where
  "bus_unsubscribe b topic q =
     (case map_of (bus_subscribers b) topic of
        None \<Rightarrow> b
      | Some qs \<Rightarrow> b\<lparr>bus_subscribers := AList.update topic (remove1 q qs) (bus_subscribers b)\<rparr>)"

definition bus_publish :: "message_bus \<Rightarrow> string \<Rightarrow> agent_message \<Rightarrow> message_bus" where
  "bus_publish b topic m =
     b\<lparr>bus_queues := fold (\<lambda>q queues. queues(q := queues q @ [m])) (bus_subs b topic) (bus_queues b)\<rparr>"

definition bus_subscriber_count :: "message_bus \<Rightarrow> string \<Rightarrow> int" where
  "bus_subscriber_count b topic = int (length (bus_subs b topic))"

text \<open>\<open>queue.get()\<close> on a queue that holds a message.\<close>

definition bus_get :: "message_bus \<Rightarrow> nat \<Rightarrow> agent_message option \<times> message_bus" where
  "bus_get b q =
     (case bus_queues b q of
        [] \<Rightarrow> (None, b)
      | m # ms \<Rightarrow> (Some m, b\<lparr>bus_queues := (bus_queues b)(q := ms)\<rparr>))"

subsection \<open>Delivery\<close>

text \<open>Every queue number below \<open>bus_next\<close> is subscribed at most once, to one topic.\<close>

definition bus_inv :: "message_bus \<Rightarrow> bool" where
  "bus_inv b \<longleftrightarrow> (\<forall>topic. distinct (bus_subs b topic) \<and> (\<forall>q \<in> set (bus_subs b topic). q < bus_next b)) \<and>
     (\<forall>topic topic'. topic \<noteq> topic' \<longrightarrow> set (bus_subs b topic) \<inter> set (bus_subs b topic') = {})"

lemma bus_subs_subscribe:
  "bus_subs (snd (bus_subscribe b topic)) t = (if t = topic then bus_subs b topic @ [bus_next b] else bus_subs b t)"
  by (simp add: bus_subs_def bus_subscribe_def Let_def)

lemma bus_subs_unsubscribe:
  "bus_subs (bus_unsubscribe b topic q) t = (if t = topic then remove1 q (bus_subs b topic) else bus_subs b t)"
  by (auto simp: bus_subs_def bus_unsubscribe_def split: option.splits)

lemma bus_subs_publish [simp]: "bus_subs (bus_publish b topic m) t = bus_subs b t"
  by (simp add: bus_subs_def bus_publish_def)

lemma bus_subs_get [simp]: "bus_subs (snd (bus_get b q)) t = bus_subs b t"
  by (simp add: bus_subs_def bus_get_def split: list.split)

lemma fold_put:
  "fold (\<lambda>q queues. queues(q := queues q @ [m])) qs queues q =
     queues q @ replicate (count (mset qs) q) m"
  by (induction qs arbitrary: queues) (auto simp: replicate_app_Cons_same)

lemma bus_publish_queue:
  assumes "bus_inv b"
  shows "bus_queues (bus_publish b topic m) q =
    (if q \<in> set (bus_subs b topic) then bus_queues b q @ [m] else bus_queues b q)"
proof -
  have "distinct (bus_subs b topic)" using assms by (simp add: bus_inv_def)
  then have "count (mset (bus_subs b topic)) q = (if q \<in> set (bus_subs b topic) then 1 else 0)"
    by (simp add: distinct_count_atmost_1)
  then show ?thesis by (simp add: bus_publish_def fold_put)
qed

text \<open>A bus that has only gained messages: same subscriptions, and every queue is extended at its end.\<close>

definition bus_grown :: "message_bus \<Rightarrow> message_bus \<Rightarrow> bool" where
  "bus_grown b b' \<longleftrightarrow> bus_subscribers b' = bus_subscribers b \<and> bus_next b' = bus_next b
     \<and> (\<forall>q. \<exists>ms. bus_queues b' q = bus_queues b q @ ms)"

lemma bus_grown_refl [simp]: "bus_grown b b"
  by (simp add: bus_grown_def)

lemma bus_grown_trans: "bus_grown b1 b2 \<Longrightarrow> bus_grown b2 b3 \<Longrightarrow> bus_grown b1 b3"
  by (simp add: bus_grown_def) (metis append.assoc)

lemma bus_grown_publish: "bus_grown b (bus_publish b topic m)"
  by (simp add: bus_grown_def bus_publish_def fold_put)

lemma bus_grown_subs: "bus_grown b b' \<Longrightarrow> bus_subs b' t = bus_subs b t"
  by (simp add: bus_grown_def bus_subs_def)

lemma bus_grown_next: "bus_grown b b' \<Longrightarrow> bus_next b' = bus_next b"
  by (simp add: bus_grown_def)

lemma bus_grown_inv: "bus_grown b b' \<Longrightarrow> bus_inv b \<Longrightarrow> bus_inv b'"
  by (simp add: bus_inv_def bus_grown_subs) (simp add: bus_grown_def)

lemma bus_inv_init [inv_intros]: "bus_inv bus_init"
  by (simp add: bus_inv_def bus_init_def bus_subs_def)

lemma bus_inv_change:
  assumes "bus_inv b" and subs: "\<And>t. bus_subs b' t = (if t = topic then qs else bus_subs b t)"
    and "distinct qs" and "bus_next b \<le> bus_next b'"
    and "\<And>q. q \<in> set qs \<Longrightarrow> q \<in> set (bus_subs b topic) \<or> q = bus_next b \<and> q < bus_next b'"
  shows "bus_inv b'"
  unfolding bus_inv_def
proof (intro conjI allI impI)
  have old: "distinct (bus_subs b t)" "\<And>q. q \<in> set (bus_subs b t) \<Longrightarrow> q < bus_next b"
      "t \<noteq> t' \<Longrightarrow> set (bus_subs b t) \<inter> set (bus_subs b t') = {}" for t t'
    using assms(1) by (auto simp: bus_inv_def)
  have qs: "q < bus_next b'" "t \<noteq> topic \<Longrightarrow> q \<notin> set (bus_subs b t)" if "q \<in> set qs" for q t
    using assms(5) [OF that] old(2) [of q topic] old(3) [of t topic] old(2) [of q t] assms(4) by auto
  show "distinct (bus_subs b' t)" for t using old(1) assms(3) by (simp add: subs)
  show "\<forall>q\<in>set (bus_subs b' t). q < bus_next b'" for t
  proof
    fix q assume "q \<in> set (bus_subs b' t)"
    then show "q < bus_next b'"
      using old(2) [of q t] qs(1) [of q] assms(4) by (cases "t = topic") (auto simp: subs)
  qed
  show "set (bus_subs b' t) \<inter> set (bus_subs b' t') = {}" if "t \<noteq> t'" for t t'
    using old(3) [OF that] qs(2) [of _ t] qs(2) [of _ t'] that by (auto simp: subs)
qed

lemma bus_subscribe_inv [inv_intros]:
  assumes "bus_inv b"
  shows "bus_inv (snd (bus_subscribe b topic))"
proof (rule bus_inv_change [OF assms, where topic = topic])
  show "bus_subs (snd (bus_subscribe b topic)) t =
      (if t = topic then bus_subs b topic @ [bus_next b] else bus_subs b t)" for t
    by (rule bus_subs_subscribe)
  show "distinct (bus_subs b topic @ [bus_next b])" using assms by (auto simp: bus_inv_def)
qed (auto simp: bus_subscribe_def Let_def)

lemma bus_unsubscribe_inv [inv_intros]:
  assumes "bus_inv b"
  shows "bus_inv (bus_unsubscribe b topic q)"
proof (rule bus_inv_change [OF assms, where topic = topic])
  show "bus_subs (bus_unsubscribe b topic q) t =
      (if t = topic then remove1 q (bus_subs b topic) else bus_subs b t)" for t
    by (rule bus_subs_unsubscribe)
  show "distinct (remove1 q (bus_subs b topic))" using assms by (simp add: bus_inv_def distinct_remove1)
  show "bus_next b \<le> bus_next (bus_unsubscribe b topic q)"
    by (simp add: bus_unsubscribe_def split: option.split)
qed (metis notin_set_remove1)

lemma bus_publish_inv [inv_intros]: "bus_inv b \<Longrightarrow> bus_inv (bus_publish b topic m)"
  by (simp add: bus_inv_def) (simp add: bus_publish_def)

lemma bus_get_inv [inv_intros]: "bus_inv b \<Longrightarrow> bus_inv (snd (bus_get b q))"
  by (simp add: bus_inv_def) (simp add: bus_get_def split: list.split)

lemma bus_get_facts:
  assumes "bus_get b q = (r, b')"
  shows "bus_subs b' t = bus_subs b t" and "bus_inv b \<Longrightarrow> bus_inv b'"
  using assms bus_subs_get [of b q t] bus_get_inv [of b q] by simp_all

text \<open>A run of operations; the answers of \<open>Get\<close> are collected per queue.\<close>

datatype bus_op = Subscribe string | Unsubscribe string nat | Publish string agent_message | Get nat

fun bus_run :: "bus_op list \<Rightarrow> message_bus \<Rightarrow> (nat \<times> agent_message) list \<times> message_bus" where
  "bus_run [] b = ([], b)"
| "bus_run (Subscribe t # ops) b = bus_run ops (snd (bus_subscribe b t))"
| "bus_run (Unsubscribe t q # ops) b = bus_run ops (bus_unsubscribe b t q)"
| "bus_run (Publish t m # ops) b = bus_run ops (bus_publish b t m)"
| "bus_run (Get q # ops) b =
     (case bus_get b q of
        (None, b') \<Rightarrow> bus_run ops b'
      | (Some m, b') \<Rightarrow> (case bus_run ops b' of (got, b'') \<Rightarrow> ((q, m) # got, b'')))"

fun published :: "string \<Rightarrow> bus_op list \<Rightarrow> agent_message list" where
  "published topic [] = []"
| "published topic (Publish t m # ops) = (if t = topic then m # published topic ops else published topic ops)"
| "published topic (_ # ops) = published topic ops"

definition received :: "nat \<Rightarrow> (nat \<times> agent_message) list \<Rightarrow> agent_message list" where
  "received q got = map snd (filter (\<lambda>(p, m). p = q) got)"

lemma bus_run_delivery:
  assumes "bus_inv b" and "q \<in> set (bus_subs b topic)" and "\<forall>t. Unsubscribe t q \<notin> set ops"
    and "bus_run ops b = (got, b')"
  shows "received q got @ bus_queues b' q = bus_queues b q @ published topic ops
    \<and> q \<in> set (bus_subs b' topic)"
  using assms
proof (induction ops b arbitrary: got rule: bus_run.induct)
  case (1 b)
  then show ?case by (simp add: received_def)
next
  case (2 t ops b)
  have "q \<noteq> bus_next b" using 2(2,3) by (auto simp: bus_inv_def)
  moreover from this have "bus_queues (snd (bus_subscribe b t)) q = bus_queues b q"
    by (simp add: bus_subscribe_def Let_def)
  moreover have "q \<in> set (bus_subs (snd (bus_subscribe b t)) topic)"
    using 2(3) by (auto simp: bus_subs_subscribe)
  ultimately show ?case
    using 2(1) [of got] 2(2-) bus_subscribe_inv [OF 2(2), of t] by simp
next
  case (3 t p ops b)
  have "p \<noteq> q" using 3(4) by auto
  moreover have "bus_queues (bus_unsubscribe b t p) = bus_queues b"
    by (simp add: bus_unsubscribe_def split: option.split)
  moreover have "q \<in> set (bus_subs (bus_unsubscribe b t p) topic)"
    using 3(3) \<open>p \<noteq> q\<close> by (auto simp: bus_subs_unsubscribe)
  ultimately show ?case
    using 3(1) [of got] 3(2-) bus_unsubscribe_inv [OF 3(2), of t p] by simp
next
  case (4 t m ops b)
  have "q \<in> set (bus_subs b t) \<longleftrightarrow> t = topic" using 4(2,3) unfolding bus_inv_def by blast
  then show ?case
    using 4(1) [of got] 4(2-) bus_publish_inv [OF 4(2), of t m] by (simp add: bus_publish_queue)
next
  case (5 p ops b)
  show ?case
  proof (cases "bus_queues b p")
    case Nil
    then have "bus_get b p = (None, b)" by (simp add: bus_get_def)
    then show ?thesis using 5(1) [of None b got] 5(3-) by simp
  next
    case (Cons m ms)
    let ?b1 = "b\<lparr>bus_queues := (bus_queues b)(p := ms)\<rparr>"
    have get: "bus_get b p = (Some m, ?b1)" by (simp add: bus_get_def Cons)
    obtain got1 where run: "bus_run ops ?b1 = (got1, b')" "got = (p, m) # got1"
      using 5(6) by (auto simp: get split: prod.splits)
    have "bus_inv ?b1" using bus_get_inv [OF 5(3), of p] by (simp add: get)
    moreover have "bus_subs ?b1 topic = bus_subs b topic" by (simp add: bus_subs_def)
    ultimately show ?thesis
      using 5(2) [OF get [symmetric] refl _ _ _ run(1)] 5(4,5) Cons by (auto simp: received_def run(2))
  qed
qed


text \<open>
  \<^bold>\<open>C5.\<close> Fan-out delivery: whatever other subscriptions, publications and reads are interleaved,
  as long as its subscription is not removed a subscriber of \<open>topic\<close> receives the messages
  published on that topic after it subscribed, all of them, once, in order, and nothing else
  (what it has not read yet is in its queue).
\<close>

theorem bus_delivery:
  assumes "bus_run before bus_init = (got0, b0)" and "bus_subscribe b0 topic = (q, b1)"
    and "\<forall>t. Unsubscribe t q \<notin> set ops" and "bus_run ops b1 = (got, b2)"
  shows "received q got @ bus_queues b2 q = published topic ops \<and> q \<in> set (bus_subs b2 topic)"
proof -
  have run: "bus_inv b \<Longrightarrow> bus_inv (snd (bus_run os b))" for os b
    by (induction os b rule: bus_run.induct)
      (auto intro: inv_intros split: prod.splits option.splits, (metis bus_get_facts(2))+)
  have "bus_inv b0" using run [OF bus_inv_init, of before] assms(1) by simp
  then have "bus_inv b1" using bus_subscribe_inv [of b0 topic] assms(2) by simp
  moreover have "q \<in> set (bus_subs b1 topic)" "bus_queues b1 q = []"
    using assms(2) bus_subs_subscribe [of b0 topic topic] by (auto simp: bus_subscribe_def Let_def)
  ultimately show ?thesis using bus_run_delivery [OF _ _ assms(3,4)] by simp
qed

lemma bus_delivery_witness:
  "\<exists>got b. bus_run [Subscribe ''a'', Publish ''b'' \<lparr>am_id = ''1'', am_topic = ''b'', am_sender = ''x'',
        am_content = [], am_timestamp = ''0.5''\<rparr>, Publish ''a'' \<lparr>am_id = ''2'', am_topic = ''a'',
        am_sender = ''x'', am_content = [], am_timestamp = ''1.5''\<rparr>, Get 1]
      (snd (bus_subscribe (snd (bus_run [Subscribe ''a''] bus_init)) ''a'')) = (got, b) \<and>
    map am_id (received 1 got @ bus_queues b 1) = [''2'']"
proof -
  let ?ops = "[Subscribe ''a'', Publish ''b'' \<lparr>am_id = ''1'', am_topic = ''b'', am_sender = ''x'',
      am_content = [], am_timestamp = ''0.5''\<rparr>, Publish ''a'' \<lparr>am_id = ''2'', am_topic = ''a'',
      am_sender = ''x'', am_content = [], am_timestamp = ''1.5''\<rparr>, Get 1]"
  obtain got0 b0 where b0: "bus_run [Subscribe ''a''] bus_init = (got0, b0)" by (metis prod.exhaust)
  then have "bus_next b0 = 1" by (auto simp: bus_subscribe_def bus_init_def)
  then obtain b1 where b1: "bus_subscribe b0 ''a'' = (1, b1)" by (simp add: bus_subscribe_def Let_def)
  obtain got b where run: "bus_run ?ops b1 = (got, b)" by (metis prod.exhaust)
  from bus_delivery [OF b0 b1 _ run] run b0 b1 show ?thesis by (intro exI [of _ got] exI [of _ b]) simp
qed

subsection \<open>The SSE generators\<close>

text \<open>
  An event source is the pair of its event name and data. \<open>SseStart\<close> is a generator that was
  created and not yet advanced, \<open>SseHandshake\<close> one suspended at its first \<open>yield\<close>, which
  stands before the \<open>try\<close> (only the v1 router has it), \<open>SseLoop\<close> one suspended inside the loop.
\<close>

datatype sse_phase = SseStart | SseHandshake | SseLoop | SseClosed

record sse_stream =
  sse_topic :: string
  sse_queue :: nat
  sse_phase :: sse_phase

definition sse_open :: "message_bus \<Rightarrow> string \<Rightarrow> sse_stream \<times> message_bus" where
  "sse_open b topic =
     (case bus_subscribe b topic of
        (q, b') \<Rightarrow> (\<lparr>sse_topic = topic, sse_queue = q, sse_phase = SseStart\<rparr>, b'))"

definition dump_message :: "agent_message \<Rightarrow> string" where
  "dump_message m =
     dumps (JObj [(''id'', JStr (am_id m)), (''topic'', JStr (am_topic m)), (''sender'', JStr (am_sender m)),
                  (''content'', JObj (am_content m)), (''timestamp'', JFloat (am_timestamp m))])"

text \<open>
  One iteration of the loop of \<open>sse_router\<close>: the next message, or a keepalive when the wait
  timed out on an empty queue.
\<close>

definition sse_wait :: "message_bus \<Rightarrow> nat \<Rightarrow> (string \<times> string) \<times> message_bus" where
  "sse_wait b q =
     (case bus_get b q of
        (None, b') \<Rightarrow> ((''keepalive'', []), b')
      | (Some m, b') \<Rightarrow> ((''message'', dump_message m), b'))"

definition sse_next ::
  "message_bus \<Rightarrow> sse_stream \<Rightarrow> (string \<times> string) option \<times> sse_stream \<times> message_bus" where
  "sse_next b g =
     (if sse_phase g = SseClosed then (None, g, b)
      else case sse_wait b (sse_queue g) of (ev, b') \<Rightarrow> (Some ev, g\<lparr>sse_phase := SseLoop\<rparr>, b'))"

definition sse_v1_next ::
  "message_bus \<Rightarrow> sse_stream \<Rightarrow> (string \<times> string) option \<times> sse_stream \<times> message_bus" where
  "sse_v1_next b g =
     (if sse_phase g = SseClosed then (None, g, b)
      else if sse_phase g = SseStart
      then (Some (''connected'', dumps (JObj [(''topic'', JStr (sse_topic g))])),
            g\<lparr>sse_phase := SseHandshake\<rparr>, b)
      else case sse_wait b (sse_queue g) of (ev, b') \<Rightarrow> (Some ev, g\<lparr>sse_phase := SseLoop\<rparr>, b'))"

text \<open>Closing a generator runs its \<open>finally\<close> only if it is suspended inside the \<open>try\<close>.\<close>

definition sse_close :: "message_bus \<Rightarrow> sse_stream \<Rightarrow> sse_stream \<times> message_bus" where
  "sse_close b g =
     (g\<lparr>sse_phase := SseClosed\<rparr>,
      if sse_phase g = SseLoop then bus_unsubscribe b (sse_topic g) (sse_queue g) else b)"

text \<open>POST /sse/v1/messages: the body's recipient is not a field of the message.\<close>

record publish_body =
  pb_topic :: string
  pb_sender :: string
  pb_recipient :: string
  pb_content :: "(string \<times> json) list"

definition publish_message :: "message_bus \<Rightarrow> publish_body \<Rightarrow> string \<Rightarrow> string \<Rightarrow> json \<times> message_bus" where
  "publish_message b body fresh_id now =
     (let msg = \<lparr>am_id = fresh_id, am_topic = pb_topic body, am_sender = pb_sender body,
                 am_content = pb_content body, am_timestamp = now\<rparr>
      in (JObj [(''published'', JBool True)], bus_publish b (pb_topic body) msg))"

lemma sse_close_loop:
  assumes "bus_inv b" and "sse_phase g = SseLoop"
  shows "sse_queue g \<notin> set (bus_subs (snd (sse_close b g)) (sse_topic g))"
  using assms by (simp add: sse_close_def bus_subs_unsubscribe bus_inv_def set_remove1_eq)

text \<open>
  A v1 stream whose client leaves during the handshake is never unsubscribed: the
  \<open>connected\<close> event is yielded before the \<open>try\<close>, so closing the generator there skips the
  \<open>finally\<close>, the dead queue stays among the subscribers and keeps every later message on its
  topic. Once the stream has entered its loop, closing it removes the subscription.
\<close>

theorem sse_v1_handshake_leak:
  assumes "bus_inv b" and "sse_open b topic = (g0, b1)" and "sse_v1_next b1 g0 = (ev, g1, b2)"
  shows "bus_queues (bus_publish (snd (sse_close b2 g1)) topic m) (sse_queue g1) = [m]
    \<and> bus_subscriber_count (snd (sse_close b2 g1)) topic = bus_subscriber_count b topic + 1
    \<and> (\<forall>ev' g2 b3. sse_v1_next b2 g1 = (ev', g2, b3) \<longrightarrow>
         bus_subscriber_count (snd (sse_close b3 g2)) topic = bus_subscriber_count b topic)"
proof -
  let ?q = "bus_next b"
  have sub: "bus_subscribe b topic = (?q, b1)" "g0 = \<lparr>sse_topic = topic, sse_queue = ?q, sse_phase = SseStart\<rparr>"
    using assms(2) by (auto simp: sse_open_def bus_subscribe_def Let_def)
  then have b1: "b1 = snd (bus_subscribe b topic)" by simp
  have g1: "g1 = g0\<lparr>sse_phase := SseHandshake\<rparr>" "b2 = b1"
    using assms(3) sub(2) by (simp_all add: sse_v1_next_def)
  have inv: "bus_inv b1" using bus_subscribe_inv [OF assms(1)] by (simp add: b1)
  have subs: "bus_subs b1 topic = bus_subs b topic @ [?q]" by (simp add: b1 bus_subs_subscribe)
  have empty: "bus_queues b1 ?q = []" by (simp add: b1 bus_subscribe_def Let_def)
  have new: "?q \<notin> set (bus_subs b topic)" using assms(1) by (auto simp: bus_inv_def)
  have close: "snd (sse_close b2 g1) = b1" "sse_queue g1 = ?q" by (simp_all add: sse_close_def g1 sub(2))
  have rest: "bus_subscriber_count (snd (sse_close b3 g2)) topic = bus_subscriber_count b topic"
    if "sse_v1_next b2 g1 = (ev', g2, b3)" for ev' g2 b3
  proof -
    have "g2 = g1\<lparr>sse_phase := SseLoop\<rparr>" "bus_subs b3 topic = bus_subs b1 topic"
      using that g1 sub(2)
      by (auto simp: sse_v1_next_def sse_wait_def bus_get_facts(1) split: prod.splits option.splits)
    then show ?thesis
      using subs new g1 sub(2)
      by (simp add: sse_close_def bus_subscriber_count_def bus_subs_unsubscribe remove1_append)
  qed
  show ?thesis
    using bus_publish_queue [OF inv, of topic m ?q] subs empty rest
    unfolding close by (simp add: bus_subscriber_count_def)
qed


lemma sse_v1_handshake_leak_witness:
  "bus_subscriber_count (snd (sse_close (snd (snd (sse_v1_next (snd (sse_open bus_init ''a''))
      (fst (sse_open bus_init ''a'')))))
      (fst (snd (sse_v1_next (snd (sse_open bus_init ''a'')) (fst (sse_open bus_init ''a''))))))) ''a'' = 1"
proof -
  obtain g0 b1 where o1: "sse_open bus_init ''a'' = (g0, b1)" by (metis prod.exhaust)
  obtain ev g1 b2 where n1: "sse_v1_next b1 g0 = (ev, g1, b2)" by (metis prod_cases3)
  from sse_v1_handshake_leak [OF bus_inv_init o1 n1] o1 n1 show ?thesis
    by (simp add: bus_subscriber_count_def bus_subs_def bus_init_def)
qed

end
