(* ===== verification/Scheduler.thy ===== *)
theory Scheduler
  imports Prelude Json
begin

section \<open>The task scheduler (scheduler.py)\<close>

text \<open>
  \<open>TaskScheduler\<close>: an inbox, a heap ordered by negated priority and insertion counter, and the
  run loop with retry. \<open>heapq\<close> is represented by the list of its entries in pop order; the
  insertion counter makes the keys distinct, so that order is the only one \<open>heappop\<close> can follow.
  The handler is client code on a world \<open>'w\<close>: it returns or raises, and may put tasks into the
  inbox and call \<open>stop\<close>; what other coroutines do while the loop waits on an empty inbox is an
  argument of each iteration (\<open>idle\<close>).
\<close>

datatype scheduler_state = PENDING | RUNNING | COMPLETED | FAILED

record task_item =
  ti_id :: string
  ti_name :: string
  ti_priority :: int
  ti_args :: "(string \<times> json) list"
  ti_state :: scheduler_state
  ti_retry_count :: int
  ti_max_retries :: int

type_synonym heap_entry = "int \<times> nat \<times> task_item"

record scheduler =
  sc_inbox :: "task_item list"
  sc_heap :: "heap_entry list"
  sc_counter :: nat
  sc_running :: bool

definition sc_init :: scheduler where
  "sc_init = \<lparr>sc_inbox = [], sc_heap = [], sc_counter = 0, sc_running = False\<rparr>"

definition entry_less :: "heap_entry \<Rightarrow> heap_entry \<Rightarrow> bool" where
  "entry_less a b \<longleftrightarrow> fst a < fst b \<or> fst a = fst b \<and> fst (snd a) < fst (snd b)"

fun heap_push :: "heap_entry \<Rightarrow> heap_entry list \<Rightarrow> heap_entry list" where
  "heap_push x [] = [x]"
| "heap_push x (y # ys) = (if entry_less x y then x # y # ys else y # heap_push x ys)"

definition add_task :: "scheduler \<Rightarrow> task_item \<Rightarrow> scheduler" where
  "add_task s item =
     s\<lparr>sc_heap := heap_push (- ti_priority item, sc_counter s, item) (sc_heap s),
       sc_counter := sc_counter s + 1\<rparr>"

definition get_next_task :: "scheduler \<Rightarrow> task_item option \<times> scheduler" where
  "get_next_task s =
     (case sc_heap s of
        [] \<Rightarrow> (None, s)
      | (p, c, item) # rest \<Rightarrow> (Some item, s\<lparr>sc_heap := rest\<rparr>))"

definition put_inbox :: "task_item \<Rightarrow> scheduler \<Rightarrow> scheduler" where
  "put_inbox item s = s\<lparr>sc_inbox := sc_inbox s @ [item]\<rparr>"

definition sc_stop :: "scheduler \<Rightarrow> scheduler" where
  "sc_stop s = s\<lparr>sc_running := False\<rparr>"

definition sc_drain :: "scheduler \<Rightarrow> scheduler" where
  "sc_drain s = fold (\<lambda>item s. add_task s item) (sc_inbox s) (s\<lparr>sc_inbox := []\<rparr>)"

text \<open>The handler sees the running task, the scheduler and the world.\<close>

type_synonym 'w handler = "task_item \<Rightarrow> scheduler \<Rightarrow> 'w \<Rightarrow> (string, unit) result \<times> scheduler \<times> 'w"

text \<open>The result of a dispatch also gives the item in its final state of this attempt.\<close>

definition sc_dispatch ::
  "scheduler \<Rightarrow> task_item \<Rightarrow> 'w handler \<Rightarrow> 'w \<Rightarrow> task_item \<times> scheduler \<times> 'w" where
  "sc_dispatch s item handler w =
     (let running = item\<lparr>ti_state := RUNNING\<rparr>
      in case handler running s w of
           (Inr _, s1, w1) \<Rightarrow> (running\<lparr>ti_state := COMPLETED\<rparr>, s1, w1)
         | (Inl exc, s1, w1) \<Rightarrow>
             (let failed = running\<lparr>ti_retry_count := ti_retry_count running + 1\<rparr>
              in if ti_retry_count failed \<le> ti_max_retries failed
                 then (let again = failed\<lparr>ti_state := PENDING\<rparr> in (again, put_inbox again s1, w1))
                 else (failed\<lparr>ti_state := FAILED\<rparr>, s1, w1)))"

definition sc_iter ::
  "'w handler \<Rightarrow> (scheduler \<Rightarrow> scheduler) \<Rightarrow> scheduler \<Rightarrow> 'w \<Rightarrow> task_item option \<times> scheduler \<times> 'w" where
  "sc_iter handler idle s w =
     (case get_next_task (sc_drain s) of
        (Some task, s1) \<Rightarrow>
          (case sc_dispatch s1 task handler w of (item, s2, w2) \<Rightarrow> (Some item, s2, w2))
      | (None, s1) \<Rightarrow>
          (let s2 = idle s1
           in case sc_inbox s2 of
                [] \<Rightarrow> (None, s2, w)
              | item # rest \<Rightarrow> (None, add_task (s2\<lparr>sc_inbox := rest\<rparr>) item, w)))"

text \<open>
  The while loop, one element of \<open>idles\<close> per iteration (the loop itself has no other bound); the
  result lists the attempts in the order they ran.
\<close>

fun sc_loop ::
  "'w handler \<Rightarrow> (scheduler \<Rightarrow> scheduler) list \<Rightarrow> scheduler \<Rightarrow> 'w \<Rightarrow> task_item list \<times> scheduler \<times> 'w" where
  "sc_loop handler [] s w = ([], s, w)"
| "sc_loop handler (idle # idles) s w =
     (if sc_running s
      then case sc_iter handler idle s w of
             (done, s1, w1) \<Rightarrow>
               (case sc_loop handler idles s1 w1 of
                  (attempts, s2, w2) \<Rightarrow>
                    ((case done of None \<Rightarrow> attempts | Some item \<Rightarrow> item # attempts), s2, w2))
      else ([], s, w))"

definition sc_run ::
  "'w handler \<Rightarrow> (scheduler \<Rightarrow> scheduler) list \<Rightarrow> scheduler \<Rightarrow> 'w \<Rightarrow> task_item list \<times> scheduler \<times> 'w" where
  "sc_run handler idles s w = sc_loop handler idles (s\<lparr>sc_running := True\<rparr>) w"

subsection \<open>The heap\<close>

definition heap_inv :: "scheduler \<Rightarrow> bool" where
  "heap_inv s \<longleftrightarrow> sorted_wrt entry_less (sc_heap s) \<and>
     (\<forall>(p, c, item) \<in> set (sc_heap s). p = - ti_priority item \<and> c < sc_counter s)"

definition heap_items :: "scheduler \<Rightarrow> task_item list" where
  "heap_items s = map (snd \<circ> snd) (sc_heap s)"

lemma set_heap_push [simp]: "set (heap_push x ys) = insert x (set ys)"
  by (induction ys) auto

lemma mset_heap_push [simp]: "mset (heap_push x ys) = add_mset x (mset ys)"
  by (induction ys) auto

lemma sorted_heap_push:
  assumes "sorted_wrt entry_less ys" and "\<forall>y \<in> set ys. fst (snd y) < fst (snd x)"
  shows "sorted_wrt entry_less (heap_push x ys)"
  using assms
proof (induction ys)
  case (Cons y ys)
  then show ?case by (auto simp: entry_less_def)
qed simp

lemma heap_inv_init [inv_intros]: "heap_inv sc_init"
  by (simp add: heap_inv_def sc_init_def)

lemma add_task_inv [inv_intros]: "heap_inv s \<Longrightarrow> heap_inv (add_task s item)"
  unfolding heap_inv_def add_task_def by (auto intro!: sorted_heap_push)

lemma get_next_task_inv [inv_intros]: "heap_inv s \<Longrightarrow> heap_inv (snd (get_next_task s))"
  by (auto simp: heap_inv_def get_next_task_def split: list.splits)

lemma sc_drain_inv [inv_intros]: "heap_inv s \<Longrightarrow> heap_inv (sc_drain s)"
proof -
  have "heap_inv s \<Longrightarrow> heap_inv (fold (\<lambda>item s. add_task s item) items s)" for items s
    by (induction items arbitrary: s) (auto intro: inv_intros)
  moreover have "heap_inv s \<Longrightarrow> heap_inv (s\<lparr>sc_inbox := []\<rparr>)" by (simp add: heap_inv_def)
  ultimately show "heap_inv s \<Longrightarrow> heap_inv (sc_drain s)" by (simp add: sc_drain_def)
qed

text \<open>Pushing with a counter above all others is insertion behind the entries of equal priority.\<close>

lemma heap_push_filter:
  assumes "sorted_wrt entry_less ys" and "\<forall>y \<in> set ys. fst (snd y) < fst (snd x)"
  shows "filter (\<lambda>e. fst e = k) (heap_push x ys) =
    filter (\<lambda>e. fst e = k) ys @ (if fst x = k then [x] else [])"
  using assms
proof (induction ys)
  case (Cons y ys)
  show ?case
  proof (cases "entry_less x y")
    case True
    then have "fst x < fst y" using Cons.prems by (auto simp: entry_less_def)
    moreover have "\<forall>z \<in> set ys. fst y \<le> fst z" using Cons.prems by (auto simp: entry_less_def)
    ultimately have "\<forall>z \<in> set (y # ys). fst x < fst z" by auto
    then have "filter (\<lambda>e. fst e = fst x) (y # ys) = []" by (auto simp: filter_empty_conv)
    with True show ?thesis by (cases "fst x = k") auto
  qed (use Cons in auto)
qed simp

definition task_key :: "task_item \<Rightarrow> int" where
  "task_key t = - ti_priority t"

lemma heap_keys:
  assumes "heap_inv s"
  shows "map fst (sc_heap s) = map task_key (heap_items s)"
    and "filter (\<lambda>t. task_key t = k) (heap_items s) = map (snd \<circ> snd) (filter (\<lambda>e. fst e = k) (sc_heap s))"
proof -
  have key: "\<forall>e \<in> set (sc_heap s). fst e = task_key ((snd \<circ> snd) e)"
    using assms by (auto simp: heap_inv_def task_key_def)
  then show "map fst (sc_heap s) = map task_key (heap_items s)" by (simp add: heap_items_def)
  have "filter (\<lambda>e. task_key ((snd \<circ> snd) e) = k) (sc_heap s) = filter (\<lambda>e. fst e = k) (sc_heap s)"
    using key by (intro filter_cong) auto
  then show "filter (\<lambda>t. task_key t = k) (heap_items s) = map (snd \<circ> snd) (filter (\<lambda>e. fst e = k) (sc_heap s))"
    by (simp add: heap_items_def filter_map comp_def)
qed

lemma add_task_items:
  assumes "heap_inv s" and "heap_items s = sort_key task_key ts"
  shows "heap_items (add_task s item) = sort_key task_key (ts @ [item])"
proof (rule sym, rule properties_for_sort_key)
  let ?x = "(task_key item, sc_counter s, item)"
  have heap: "sc_heap (add_task s item) = heap_push ?x (sc_heap s)"
    by (simp add: add_task_def task_key_def)
  have inv: "heap_inv (add_task s item)" using assms(1) by (rule add_task_inv)
  have "mset (heap_items (add_task s item)) = add_mset item (mset (heap_items s))"
    by (simp add: heap_items_def heap)
  then show "mset (heap_items (add_task s item)) = mset (ts @ [item])" by (simp add: assms(2))
  have "sorted (map fst (sc_heap (add_task s item)))"
    using inv unfolding heap_inv_def sorted_map
    by (elim conjE sorted_wrt_mono_rel [rotated]) (auto simp: entry_less_def)
  then show "sorted (map task_key (heap_items (add_task s item)))" by (simp add: heap_keys(1) [OF inv])
  fix t
  let ?k = "task_key t"
  have "filter (\<lambda>e. fst e = ?k) (heap_push ?x (sc_heap s)) =
      filter (\<lambda>e. fst e = ?k) (sc_heap s) @ (if task_key item = ?k then [?x] else [])"
  proof -
    have "sorted_wrt entry_less (sc_heap s)" "\<forall>y \<in> set (sc_heap s). fst (snd y) < fst (snd ?x)"
      using assms(1) by (auto simp: heap_inv_def)
    from heap_push_filter [OF this, of ?k] show ?thesis by simp
  qed
  then have "filter (\<lambda>u. task_key u = ?k) (heap_items (add_task s item)) =
      filter (\<lambda>u. task_key u = ?k) (heap_items s) @ (if task_key item = ?k then [item] else [])"
    by (simp only: heap_keys(2) [OF inv] heap_keys(2) [OF assms(1)] heap) simp
  then have "filter (\<lambda>u. task_key u = ?k) (heap_items (add_task s item)) =
      filter (\<lambda>u. task_key u = ?k) (ts @ [item])"
    by (simp add: assms(2) sort_key_stable)
  then show "filter (\<lambda>u. ?k = task_key u) (heap_items (add_task s item)) =
      filter (\<lambda>u. ?k = task_key u) (ts @ [item])"
    by (simp only: eq_commute [of ?k])
qed

lemma add_tasks_items:
  assumes "heap_inv s" and "heap_items s = sort_key task_key ts"
  shows "heap_items (fold (\<lambda>item s. add_task s item) items s) = sort_key task_key (ts @ items)"
  using assms
proof (induction items arbitrary: s ts)
  case (Cons item items)
  show ?case
    using Cons.IH [OF add_task_inv [OF Cons.prems(1)] add_task_items [OF Cons.prems]] by simp
qed simp

text \<open>Popping \<open>n\<close> times.\<close>

fun pop_all :: "nat \<Rightarrow> scheduler \<Rightarrow> task_item list" where
  "pop_all 0 s = []"
| "pop_all (Suc n) s =
     (case get_next_task s of (None, s') \<Rightarrow> [] | (Some t, s') \<Rightarrow> t # pop_all n s')"

lemma pop_all_items: "length (sc_heap s) \<le> n \<Longrightarrow> pop_all n s = heap_items s"
proof (induction n arbitrary: s)
  case (Suc n)
  then show ?case
    by (cases "sc_heap s") (auto simp: get_next_task_def heap_items_def split: prod.splits)
qed (simp add: heap_items_def)

text \<open>
  The queue is a stable priority queue: tasks added in any order come out sorted by
  falling priority, tasks of equal priority in the order they were added.
\<close>

theorem scheduler_priority_order:
  "pop_all (length (items @ later))
     (sc_drain (fold put_inbox later (fold (\<lambda>t s. add_task s t) items sc_init)))
   = sort_key (\<lambda>t. - ti_priority t) (items @ later)"
proof -
  let ?s1 = "fold (\<lambda>t s. add_task s t) items sc_init"
  have start: "heap_inv sc_init" "heap_items sc_init = sort_key task_key []"
    by (rule heap_inv_init) (simp add: heap_items_def sc_init_def)
  have inv1: "heap_inv s \<Longrightarrow> heap_inv (fold (\<lambda>t s. add_task s t) ts s)" for ts s
    by (induction ts arbitrary: s) (auto intro: inv_intros)
  have items1: "heap_items ?s1 = sort_key task_key items"
    using add_tasks_items [OF start, of items] by simp
  have inbox1: "sc_inbox (fold (\<lambda>t s. add_task s t) ts s) = sc_inbox s" for ts s
    by (induction ts arbitrary: s) (auto simp: add_task_def)
  have put: "fold put_inbox ts s = s\<lparr>sc_inbox := sc_inbox s @ ts\<rparr>" for ts s
    by (induction ts arbitrary: s) (auto simp: put_inbox_def)
  let ?s2 = "(fold put_inbox later ?s1)\<lparr>sc_inbox := []\<rparr>"
  have "heap_inv ?s1" using start(1) by (rule inv1)
  then have s2: "heap_inv ?s2" "heap_items ?s2 = sort_key task_key items"
    using items1 by (simp_all add: put heap_inv_def heap_items_def)
  have s3: "sc_inbox (fold put_inbox later ?s1) = later"
    using inbox1 [of items sc_init] by (simp add: put sc_init_def)
  have all: "heap_items (sc_drain (fold put_inbox later ?s1)) = sort_key task_key (items @ later)"
    using add_tasks_items [OF s2(1,2), of later] by (simp add: sc_drain_def s3)
  have "length (sc_heap (sc_drain (fold put_inbox later ?s1))) = length (items @ later)"
    using arg_cong [OF all, of length] by (simp add: heap_items_def)
  then show ?thesis
    using pop_all_items [of "sc_drain (fold put_inbox later ?s1)" "length (items @ later)"] all
    by (simp add: task_key_def [abs_def])
qed

subsection \<open>Dispatch and retry\<close>

definition pending :: "scheduler \<Rightarrow> task_item multiset" where
  "pending s = mset (sc_inbox s) + mset (heap_items s)"

text \<open>The attempts a task has left, and whether an attempt was its last.\<close>

definition attempts_left :: "task_item \<Rightarrow> nat" where
  "attempts_left t = nat (ti_max_retries t - ti_retry_count t) + 1"

definition settled :: "task_item \<Rightarrow> bool" where
  "settled t \<longleftrightarrow> ti_state t = COMPLETED \<or> ti_state t = FAILED"

definition quiet :: "'w handler \<Rightarrow> bool" where
  "quiet handler \<longleftrightarrow> (\<forall>t s w. fst (snd (handler t s w)) = s)"

lemma add_task_sel [simp]: "sc_inbox (add_task s t) = sc_inbox s" "sc_running (add_task s t) = sc_running s"
  by (simp_all add: add_task_def)

lemma pending_add_task [simp]: "pending (add_task s t) = add_mset t (pending s)"
  by (simp add: pending_def heap_items_def add_task_def)

lemma pending_drain [simp]: "pending (sc_drain s) = pending s" "sc_inbox (sc_drain s) = []"
  "sc_running (sc_drain s) = sc_running s"
proof -
  have "pending (fold (\<lambda>t s. add_task s t) ts u) = mset ts + pending u \<and>
      sc_inbox (fold (\<lambda>t s. add_task s t) ts u) = sc_inbox u \<and>
      sc_running (fold (\<lambda>t s. add_task s t) ts u) = sc_running u" for ts u
    by (induction ts arbitrary: u) auto
  from this [of "sc_inbox s" "s\<lparr>sc_inbox := []\<rparr>"]
  show "pending (sc_drain s) = pending s" "sc_inbox (sc_drain s) = []"
      "sc_running (sc_drain s) = sc_running s"
    by (simp_all add: sc_drain_def) (simp add: pending_def heap_items_def)
qed

lemma get_next_task_pending:
  "get_next_task s = (None, s') \<Longrightarrow> sc_heap s = [] \<and> s' = s"
  "get_next_task s = (Some t, s') \<Longrightarrow> pending s = add_mset t (pending s') \<and>
     sc_inbox s' = sc_inbox s \<and> sc_running s' = sc_running s"
  by (auto simp: get_next_task_def pending_def heap_items_def split: list.splits)

lemma sc_dispatch_quiet:
  assumes "quiet handler" and "sc_dispatch s t handler w = (t', s', w')"
  shows "ti_id t' = ti_id t" and "sc_running s' = sc_running s"
    and "settled t' \<and> pending s' = pending s \<or>
      \<not> settled t' \<and> pending s' = add_mset t' (pending s) \<and> attempts_left t' < attempts_left t"
    and "(\<forall>t s w. \<not> is_ok (fst (handler t s w))) \<Longrightarrow> settled t' \<Longrightarrow> attempts_left t = 1"
    and "\<not> settled t' \<Longrightarrow> attempts_left t = Suc (attempts_left t')"
proof -
  obtain r s1 w1 where h: "handler (t\<lparr>ti_state := RUNNING\<rparr>) s w = (r, s1, w1)" by (metis prod_cases3)
  then have s1: "s1 = s" using assms(1) unfolding quiet_def by (metis fst_conv snd_conv)
  note defs = sc_dispatch_def Let_def h settled_def pending_def put_inbox_def heap_items_def attempts_left_def
  show "ti_id t' = ti_id t" "sc_running s' = sc_running s"
    using assms(2) by (auto simp: defs s1 split: sum.splits if_splits)
  show "settled t' \<and> pending s' = pending s \<or>
      \<not> settled t' \<and> pending s' = add_mset t' (pending s) \<and> attempts_left t' < attempts_left t"
    using assms(2) by (auto simp: defs s1 split: sum.splits if_splits)
  show "(\<forall>t s w. \<not> is_ok (fst (handler t s w))) \<Longrightarrow> settled t' \<Longrightarrow> attempts_left t = 1"
  proof -
    assume "\<forall>t s w. \<not> is_ok (fst (handler t s w))" and "settled t'"
    moreover from this(1) have "\<not> is_ok r" using h by (metis fst_conv)
    ultimately show "attempts_left t = 1"
      using assms(2) by (cases r) (auto simp: defs s1 split: if_splits)
  qed
  show "\<not> settled t' \<Longrightarrow> attempts_left t = Suc (attempts_left t')"
    using assms(2) by (auto simp: defs s1 split: sum.splits if_splits)
qed

definition work :: "scheduler \<Rightarrow> nat" where
  "work s = sum_mset (image_mset attempts_left (pending s))"

lemma sc_loop_settles:
  assumes "quiet handler" and "sc_running s" and "work s \<le> n"
    and "sc_loop handler (replicate n (\<lambda>s. s)) s w = (attempts, s', w')"
  shows "pending s' = {#}
    \<and> image_mset ti_id (filter_mset settled (mset attempts)) = image_mset ti_id (pending s)
    \<and> length attempts \<le> work s
    \<and> ((\<forall>t s w. \<not> is_ok (fst (handler t s w))) \<longrightarrow> length attempts = work s)"
  using assms(2-)
proof (induction n arbitrary: s w attempts)
  case 0
  then have "pending s = {#}" by (auto simp: work_def attempts_left_def)
  then show ?case using 0 by (simp add: work_def)
next
  case (Suc n)
  obtain nxt s1 where get: "get_next_task (sc_drain s) = (nxt, s1)" by (metis prod.exhaust)
  show ?case
  proof (cases nxt)
    case None
    then have s1: "s1 = sc_drain s" "sc_heap (sc_drain s) = []"
      using get_next_task_pending(1) [of "sc_drain s" s1] get by auto
    then have empty: "pending s = {#}"
      using pending_drain(1) [of s] by (simp add: pending_def heap_items_def)
    have iter: "sc_iter handler (\<lambda>s. s) s w = (None, sc_drain s, w)"
      using get s1 None by (simp add: sc_iter_def)
    have "sc_loop handler (replicate n (\<lambda>s. s)) (sc_drain s) w = (attempts, s', w')"
      using Suc.prems by (auto simp: iter split: prod.splits)
    from Suc.IH [OF _ _ this] Suc.prems(1) empty show ?thesis by (simp add: work_def)
  next
    case (Some t)
    obtain t' s2 w2 where d: "sc_dispatch s1 t handler w = (t', s2, w2)" by (metis prod_cases3)
    have iter: "sc_iter handler (\<lambda>s. s) s w = (Some t', s2, w2)"
      using get Some d by (simp add: sc_iter_def)
    obtain rest where rest: "sc_loop handler (replicate n (\<lambda>s. s)) s2 w2 = (rest, s', w')"
        "attempts = t' # rest"
      using Suc.prems by (auto simp: iter split: prod.splits)
    have p: "pending s = add_mset t (pending s1)" "sc_running s1"
      using get_next_task_pending(2) [of "sc_drain s" t s1] get Some Suc.prems(1) by auto
    note q = sc_dispatch_quiet [OF assms(1) d]
    have run2: "sc_running s2" using q(2) p(2) by simp
    have pos: "0 < attempts_left t" by (simp add: attempts_left_def)
    have w: "work s = attempts_left t + work s1" by (simp add: work_def p)
    show ?thesis
    proof (cases "settled t'")
      case True
      then have p2: "pending s2 = pending s1" using q(3) by auto
      then have "work s2 = work s1" by (simp add: work_def)
      with Suc.IH [OF run2 _ rest(1)] Suc.prems(2) w pos p p2 True q(1,4) rest(2) show ?thesis by auto
    next
      case False
      then have p2: "pending s2 = add_mset t' (pending s1)" using q(3) by auto
      then have "work s2 = attempts_left t' + work s1" by (simp add: work_def)
      with Suc.IH [OF run2 _ rest(1)] Suc.prems(2) w p p2 False q(1,5) rest(2) show ?thesis by auto
    qed
  qed
qed


definition sample_task :: "string \<Rightarrow> int \<Rightarrow> int \<Rightarrow> task_item" where
  "sample_task name priority max_retries =
     \<lparr>ti_id = name, ti_name = name, ti_priority = priority, ti_args = [], ti_state = PENDING,
      ti_retry_count = 0, ti_max_retries = max_retries\<rparr>"


end
