(* ===== verification/Agent_Models.thy ===== *)
theory Agent_Models
  imports Json
begin

section \<open>Shared agent models (agents/models.py, config/privacy.py)\<close>

text \<open>
  The pydantic models the agents exchange and the trace of an \<open>MCPContext\<close>. Construction
  validates the declared bounds (\<open>ge\<close>, \<open>le\<close>); logging is not modelled, the trace is.
\<close>

datatype model_error = ValidationError string

record agent_task =
  at_id :: string
  at_name :: string
  at_payload :: "(string \<times> json) list"
  at_complexity :: real
  at_required_capability :: string

definition make_task ::
  "string \<Rightarrow> string \<Rightarrow> (string \<times> json) list \<Rightarrow> real \<Rightarrow> string \<Rightarrow> (model_error, agent_task) result" where
  "make_task fresh_id name payload complexity capability =
     (if complexity < 0 \<or> 1 < complexity then Inl (ValidationError ''complexity'')
      else Inr \<lparr>at_id = fresh_id, at_name = name, at_payload = payload, at_complexity = complexity,
                at_required_capability = capability\<rparr>)"

record analysis_result =
  ar_session_key :: string
  ar_metrics :: "(string, real) dict"
  ar_trends :: "string list"
  ar_summary :: string

record report_result =
  rr_session_key :: string
  rr_report_text :: string
  rr_agent_trace :: "string list"

record retrieval_result =
  rt_session_key :: string
  rt_chunks :: "(string \<times> real) list"
  rt_summary :: string

record mcp_context =
  ctx_tool_name :: string
  ctx_trace :: "string list"

definition ctx_init :: "string \<Rightarrow> mcp_context" where
  "ctx_init tool_name = \<lparr>ctx_tool_name = tool_name, ctx_trace = []\<rparr>"

definition ctx_log :: "mcp_context \<Rightarrow> string \<Rightarrow> mcp_context" where
  "ctx_log ctx message = ctx\<lparr>ctx_trace := ctx_trace ctx @ [message]\<rparr>"

text \<open>\<open>int(x)\<close> of a float truncates towards zero.\<close>

definition py_trunc :: "real \<Rightarrow> int" where
  "py_trunc x = (if 0 \<le> x then \<lfloor>x\<rfloor> else \<lceil>x\<rceil>)"

definition ctx_report_progress :: "mcp_context \<Rightarrow> real \<Rightarrow> string \<Rightarrow> mcp_context" where
  "ctx_report_progress ctx pct message =
     ctx\<lparr>ctx_trace := ctx_trace ctx @ [''['' @ show_int (py_trunc (pct * 100)) @ ''%] '' @ message]\<rparr>"

lemma ctx_log_trace [simp]: "ctx_trace (ctx_log ctx m) = ctx_trace ctx @ [m]"
  by (simp add: ctx_log_def)

subsection \<open>PrivacyConfig\<close>

record privacy_config =
  pc_local_only :: bool
  pc_allow_egress :: bool

definition privacy_default :: privacy_config where
  "privacy_default = \<lparr>pc_local_only = True, pc_allow_egress = False\<rparr>"

definition assert_no_egress :: "privacy_config \<Rightarrow> (model_error, unit) result" where
  "assert_no_egress pc =
     (if pc_allow_egress pc then Inl (ValidationError ''Egress is disabled by PrivacyConfig'') else Inr ())"

end
