(* ===== verification/Vector_Store.thy ===== *)
theory Vector_Store
  imports Agent_Models
begin

section \<open>The knowledge base (knowledge/vector\_store.py, reranker.py, tools.py, gateway/pruner.py,
  agents/librarian.py)\<close>

text \<open>
  Stores are namespaced by owner. \<open>InMemoryVectorStore\<close> ranks by cosine similarity;
  \<open>PgVectorStore\<close> is the table its SQL statements describe, with the operators of the extension
  (vector distance, text match and rank) as arguments; \<open>_rrf_fusion\<close>, the rerankers and
  \<open>query_knowledge_base\<close> are the query path. Vectors are lists of reals; a dimension mismatch
  raises, as \<open>numpy.dot\<close> does. The embedding model and the cross encoder are arguments.
\<close>

type_synonym vector = "real list"
type_synonym hit = "string \<times> real"

datatype store_error = StoreValueError | StoreRuntimeError

subsection \<open>Vectors\<close>

definition np_dot :: "vector \<Rightarrow> vector \<Rightarrow> (store_error, real) result" where
  "np_dot a b = (if length a = length b then Inr (sum_list (map2 (*) a b)) else Inl StoreValueError)"

definition np_norm :: "vector \<Rightarrow> real" where
  "np_norm a = sqrt (sum_list (map (\<lambda>x. x * x) a))"

definition np_scale :: "vector \<Rightarrow> real \<Rightarrow> vector" where
  "np_scale a d = map (\<lambda>x. x / d) a"

subsection \<open>InMemoryVectorStore\<close>

type_synonym mem_store = "string \<Rightarrow> (string \<times> vector) list"

definition vs_empty :: mem_store where
  "vs_empty = (\<lambda>_. [])"

definition vs_upsert :: "mem_store \<Rightarrow> string \<Rightarrow> string \<Rightarrow> vector \<Rightarrow> mem_store" where
  "vs_upsert s owner_id txt vec = s(owner_id := s owner_id @ [(txt, vec)])"

fun vs_scores :: "vector \<Rightarrow> (string \<times> vector) list \<Rightarrow> (store_error, hit list) result" where
  "vs_scores q_norm [] = Inr []"
| "vs_scores q_norm ((txt, vec) # entries) =
     (let v_norm = np_scale vec (np_norm vec + 1 / 10 ^ 10)
      in case np_dot q_norm v_norm of
           Inl e \<Rightarrow> Inl e
         | Inr score \<Rightarrow>
             (case vs_scores q_norm entries of
                Inl e \<Rightarrow> Inl e
              | Inr rest \<Rightarrow> Inr ((txt, score) # rest)))"

text \<open>\<open>sort(key=..., reverse=True)\<close> keeps the order of equal keys.\<close>

definition sort_desc :: "hit list \<Rightarrow> hit list" where
  "sort_desc xs = sort_key (\<lambda>h. - snd h) xs"

definition vs_search :: "mem_store \<Rightarrow> string \<Rightarrow> vector \<Rightarrow> int \<Rightarrow> (store_error, hit list) result" where
  "vs_search s owner_id query_vector top_k =
     (let entries = s owner_id
      in if entries = [] then Inr []
         else let q_norm = np_scale query_vector (np_norm query_vector + 1 / 10 ^ 10)
              in case vs_scores q_norm entries of
                   Inl e \<Rightarrow> Inl e
                 | Inr results \<Rightarrow> Inr (slice_to (sort_desc results) top_k))"

subsection \<open>Reciprocal rank fusion\<close>

definition dict_get0 :: "(string, real) dict \<Rightarrow> string \<Rightarrow> real" where
  "dict_get0 d k = (case map_of d k of None \<Rightarrow> 0 | Some v \<Rightarrow> v)"

fun rrf_add :: "int \<Rightarrow> int \<Rightarrow> hit list \<Rightarrow> (string, real) dict \<Rightarrow> (string, real) dict" where
  "rrf_add k rank [] scores = scores"
| "rrf_add k rank ((txt, _) # hits) scores =
     rrf_add k (rank + 1) hits
       (AList.update txt (dict_get0 scores txt + 1 / real_of_int (k + rank)) scores)"

definition rrf_fusion :: "hit list \<Rightarrow> hit list \<Rightarrow> int \<Rightarrow> int \<Rightarrow> hit list" where
  "rrf_fusion dense text_results top_k k =
     slice_to (sort_desc (rrf_add k 1 text_results (rrf_add k 1 dense []))) top_k"

subsection \<open>PgVectorStore\<close>

record pg_row =
  pg_owner :: string
  pg_chunk_id :: string
  pg_text :: string
  pg_embedding :: vector

text \<open>The database operators: \<open><=>\<close>, \<open>@@\<close> and \<open>ts_rank_cd\<close> against \<open>plainto_tsquery\<close>.\<close>

record pg_ops =
  op_distance :: "vector \<Rightarrow> vector \<Rightarrow> real"
  op_matches :: "string \<Rightarrow> string \<Rightarrow> bool"
  op_rank :: "string \<Rightarrow> string \<Rightarrow> real"

text \<open>INSERT ... ON CONFLICT (owner\_id, chunk\_id) DO UPDATE.\<close>

fun pg_insert :: "pg_row \<Rightarrow> pg_row list \<Rightarrow> pg_row list" where
  "pg_insert r [] = [r]"
| "pg_insert r (x # xs) =
     (if pg_owner x = pg_owner r \<and> pg_chunk_id x = pg_chunk_id r then r # xs else x # pg_insert r xs)"

definition pg_upsert ::
  "pg_row list \<Rightarrow> string \<Rightarrow> string \<Rightarrow> vector \<Rightarrow> string option \<Rightarrow> pg_row list" where
  "pg_upsert rows owner_id txt vec chunk_id =
     (let cid = (case chunk_id of Some c \<Rightarrow> if c = [] then take 64 txt else c | None \<Rightarrow> take 64 txt)
      in pg_insert \<lparr>pg_owner = owner_id, pg_chunk_id = cid, pg_text = txt, pg_embedding = vec\<rparr> rows)"

definition pg_search :: "pg_ops \<Rightarrow> pg_row list \<Rightarrow> string \<Rightarrow> vector \<Rightarrow> nat \<Rightarrow> hit list" where
  "pg_search ops rows owner_id query_vector top_k =
     map (\<lambda>r. (pg_text r, 1 - op_distance ops (pg_embedding r) query_vector))
       (take top_k (sort_key (\<lambda>r. op_distance ops (pg_embedding r) query_vector)
          (filter (\<lambda>r. pg_owner r = owner_id) rows)))"

definition pg_search_text :: "pg_ops \<Rightarrow> pg_row list \<Rightarrow> string \<Rightarrow> string \<Rightarrow> nat \<Rightarrow> hit list" where
  "pg_search_text ops rows owner_id query top_k =
     take top_k (sort_desc (map (\<lambda>r. (pg_text r, op_rank ops (pg_text r) query))
       (filter (\<lambda>r. pg_owner r = owner_id \<and> op_matches ops (pg_text r) query) rows)))"

definition pg_search_hybrid ::
  "pg_ops \<Rightarrow> pg_row list \<Rightarrow> string \<Rightarrow> string \<Rightarrow> vector \<Rightarrow> int \<Rightarrow> nat \<Rightarrow> int \<Rightarrow> hit list" where
  "pg_search_hybrid ops rows owner_id query query_vector top_k dense_k rrf_k =
     rrf_fusion (pg_search ops rows owner_id query_vector dense_k)
       (pg_search_text ops rows owner_id query dense_k) top_k rrf_k"

subsection \<open>Rerankers\<close>

definition noop_rerank :: "string \<Rightarrow> hit list \<Rightarrow> int \<Rightarrow> hit list" where
  "noop_rerank query candidates top_k = slice_to candidates top_k"

definition ce_rerank ::
  "((string \<times> string) list \<Rightarrow> real list) \<Rightarrow> bool \<Rightarrow> string \<Rightarrow> hit list \<Rightarrow> int \<Rightarrow> hit list" where
  "ce_rerank predict enabled query candidates top_k =
     (if \<not> enabled \<or> candidates = [] then slice_to candidates top_k
      else let texts = map fst candidates;
               scores = predict (map (\<lambda>t. (query, t)) texts)
           in slice_to (sort_desc (zip texts scores)) top_k)"

subsection \<open>query\_knowledge\_base\<close>

text \<open>
  \<open>search\<close> is the store's \<open>search\<close>, \<open>hybrid\<close> its \<open>search_hybrid\<close> when it has one.
\<close>

definition query_knowledge_base ::
  "(string \<Rightarrow> vector \<Rightarrow> int \<Rightarrow> (store_error, hit list) result)
     \<Rightarrow> (string \<Rightarrow> string \<Rightarrow> vector \<Rightarrow> int \<Rightarrow> (store_error, hit list) result) option
     \<Rightarrow> (string \<Rightarrow> vector) \<Rightarrow> (string \<Rightarrow> hit list \<Rightarrow> int \<Rightarrow> hit list) option
     \<Rightarrow> string \<Rightarrow> string \<Rightarrow> int \<Rightarrow> bool \<Rightarrow> (store_error, hit list) result" where
  "query_knowledge_base search hybrid emb reranker query owner_id top_k use_hybrid =
     (let rerank = (case reranker of None \<Rightarrow> noop_rerank | Some r \<Rightarrow> r);
          query_vector = emb query;
          candidate_k = max (top_k * 10) 50;
          found = (case (use_hybrid, hybrid) of
                     (True, Some h) \<Rightarrow> h owner_id query query_vector candidate_k
                   | _ \<Rightarrow> search owner_id query_vector candidate_k)
      in case found of
           Inl e \<Rightarrow> Inl e
         | Inr results \<Rightarrow> Inr (rerank query results top_k))"

text \<open>\<open>LibrarianAgent.run\<close>: the owner it asks for is the task's id.\<close>

definition librarian_run ::
  "(string \<Rightarrow> vector \<Rightarrow> int \<Rightarrow> (store_error, hit list) result) \<Rightarrow> (string \<Rightarrow> vector) \<Rightarrow> int
     \<Rightarrow> agent_task \<Rightarrow> mcp_context \<Rightarrow> (store_error, retrieval_result) result \<times> mcp_context" where
  "librarian_run search emb top_k task ctx =
     (let ctx1 = ctx_log ctx (''librarian: querying knowledge base for '' @ [CHR 0x27] @ at_name task @ [CHR 0x27])
      in case query_knowledge_base search None emb None (at_name task) (at_id task) top_k False of
           Inl e \<Rightarrow> (Inl e, ctx1)
         | Inr chunks \<Rightarrow>
             (Inr \<lparr>rt_session_key = at_id task, rt_chunks = chunks,
                   rt_summary = ''Retrieved '' @ show_nat (length chunks) @ '' chunk(s) for query: '' @ at_name task\<rparr>,
              ctx_log ctx1 (''librarian: retrieved '' @ show_nat (length chunks) @ '' chunk(s)'')))"

subsection \<open>ContextPruner\<close>

definition cosine :: "vector \<Rightarrow> vector \<Rightarrow> (store_error, real) result" where
  "cosine a b =
     (if np_norm a = 0 \<or> np_norm b = 0 then Inr 0
      else case np_dot a b of
             Inl e \<Rightarrow> Inl e
           | Inr d \<Rightarrow> Inr (d / (np_norm a * np_norm b)))"

fun prune_loop ::
  "(string \<Rightarrow> vector) \<Rightarrow> vector \<Rightarrow> real \<Rightarrow> string list \<Rightarrow> (store_error, string list) result" where
  "prune_loop emb query_vec cutoff [] = Inr []"
| "prune_loop emb query_vec cutoff (chunk # chunks) =
     (case cosine query_vec (emb chunk) of
        Inl e \<Rightarrow> Inl e
      | Inr c \<Rightarrow>
          (case prune_loop emb query_vec cutoff chunks of
             Inl e \<Rightarrow> Inl e
           | Inr rest \<Rightarrow> Inr (if cutoff \<le> c then chunk # rest else rest)))"

definition prune ::
  "real \<Rightarrow> (string \<Rightarrow> vector) \<Rightarrow> string \<Rightarrow> string list \<Rightarrow> real option \<Rightarrow> (store_error, string list) result" where
  "prune default_threshold emb query chunks threshold =
     (if chunks = [] then Inr []
      else prune_loop emb (emb query) (case threshold of Some t \<Rightarrow> t | None \<Rightarrow> default_threshold) chunks)"


subsection \<open>The contract of a store\<close>

text \<open>
  \<open>texts s o\<close> is what the store holds for owner \<open>o\<close>. The laws are what a multi-tenant query
  path relies on; \<open>ok\<close> excludes searches that raise.
\<close>

locale vector_store =
  fixes upsert :: "'s \<Rightarrow> string \<Rightarrow> string \<Rightarrow> vector \<Rightarrow> 's"
    and search :: "'s \<Rightarrow> string \<Rightarrow> vector \<Rightarrow> int \<Rightarrow> (store_error, hit list) result"
    and texts :: "'s \<Rightarrow> string \<Rightarrow> string set"
  assumes upsert_own: "texts (upsert s o1 t v) o1 \<subseteq> insert t (texts s o1)" "t \<in> texts (upsert s o1 t v) o1"
    and upsert_other: "o2 \<noteq> o1 \<Longrightarrow> texts (upsert s o1 t v) o2 = texts s o2"
      "o2 \<noteq> o1 \<Longrightarrow> search (upsert s o1 t v) o2 q k = search s o2 q k"
    and search_owned: "search s o1 q k = Inr hits \<Longrightarrow> fst ` set hits \<subseteq> texts s o1"
    and search_bound: "search s o1 q k = Inr hits \<Longrightarrow> 0 \<le> k \<Longrightarrow> length hits \<le> nat k"
    and search_ranked: "search s o1 q k = Inr hits \<Longrightarrow> sorted_wrt (\<lambda>a b. snd b \<le> snd a) hits"

text \<open>A sequence of upserts by any owners.\<close>

definition upserts :: "('s \<Rightarrow> string \<Rightarrow> string \<Rightarrow> vector \<Rightarrow> 's) \<Rightarrow> (string \<times> string \<times> vector) list \<Rightarrow> 's \<Rightarrow> 's" where
  "upserts upsert ops s = fold (\<lambda>(owner, t, v) s. upsert s owner t v) ops s"

context vector_store
begin

lemma search_foreign_upserts:
  assumes "\<forall>(owner, t, v) \<in> set ops. owner \<noteq> o1"
  shows "search (upserts upsert ops s) o1 q k = search s o1 q k"
  using assms
proof (induction ops arbitrary: s)
  case (Cons op ops)
  then show ?case by (cases op) (auto simp: upserts_def intro!: upsert_other(2))
qed (simp add: upserts_def)

lemma texts_upserts:
  "texts (upserts upsert ops s) o1 \<subseteq> texts s o1 \<union> {t. \<exists>v. (o1, t, v) \<in> set ops}"
proof (induction ops arbitrary: s)
  case (Cons op ops)
  obtain owner t v where op: "op = (owner, t, v)" by (metis prod_cases3)
  have "texts (upsert s owner t v) o1 \<subseteq> texts s o1 \<union> (if owner = o1 then {t} else {})"
    using upsert_own(1) [of s owner t v] upsert_other(1) [of o1 owner s t v] by auto
  moreover have "upserts upsert (op # ops) s = upserts upsert ops (upsert s owner t v)"
    by (simp add: upserts_def op)
  ultimately show ?case using Cons.IH [of "upsert s owner t v"] by (auto simp: op split: if_splits)
qed (simp add: upserts_def)

lemma query_isolated:
  assumes "query_knowledge_base (search s) None emb reranker query o1 k hyb = Inr hits"
    and "\<And>q cs n r. reranker = Some r \<Longrightarrow> fst ` set (r q cs n) \<subseteq> fst ` set cs"
  shows "fst ` set hits \<subseteq> texts s o1"
proof -
  obtain found where f: "search s o1 (emb query) (max (k * 10) 50) = Inr found"
      "hits = (case reranker of None \<Rightarrow> noop_rerank | Some r \<Rightarrow> r) query found k"
    using assms(1) by (auto simp: query_knowledge_base_def Let_def split: sum.splits bool.splits)
  have "fst ` set hits \<subseteq> fst ` set found"
  proof (cases reranker)
    case None
    then show ?thesis using f(2) set_slice_to [of found k] by (auto simp: noop_rerank_def)
  next
    case (Some r)
    then show ?thesis using f(2) assms(2) [OF Some] by simp
  qed
  with search_owned [OF f(1)] show ?thesis by blast
qed

end

lemma set_sort_desc [simp]: "set (sort_desc xs) = set xs" "length (sort_desc xs) = length xs"
  by (simp_all add: sort_desc_def)

lemma sorted_sort_desc: "sorted_wrt (\<lambda>a b. snd b \<le> snd a) (sort_desc xs)"
  using sorted_sort_key [of "\<lambda>h. - snd h" xs] by (simp add: sort_desc_def sorted_map)

lemma vs_scores_texts: "vs_scores q es = Inr hits \<Longrightarrow> map fst hits = map fst es"
  by (induction q es arbitrary: hits rule: vs_scores.induct) (auto simp: Let_def split: sum.splits)

interpretation mem_vs: vector_store vs_upsert vs_search "\<lambda>s owner. fst ` set (s owner)"
proof unfold_locales
  fix s :: mem_store and o1 o2 t v q k hits
  show "fst ` set (vs_upsert s o1 t v o1) \<subseteq> insert t (fst ` set (s o1))"
    "t \<in> fst ` set (vs_upsert s o1 t v o1)" by (auto simp: vs_upsert_def)
  show "o2 \<noteq> o1 \<Longrightarrow> fst ` set (vs_upsert s o1 t v o2) = fst ` set (s o2)"
    "o2 \<noteq> o1 \<Longrightarrow> vs_search (vs_upsert s o1 t v) o2 q k = vs_search s o2 q k"
    by (auto simp: vs_upsert_def vs_search_def)
  assume h: "vs_search s o1 q k = Inr hits"
  then obtain results where r: "hits = slice_to (sort_desc results) k" "map fst results = map fst (s o1)"
    by (auto simp: vs_search_def Let_def split: if_splits sum.splits dest: vs_scores_texts)
      (metis slice_to_Nil sort_key_simps(1) sort_desc_def)
  show "fst ` set hits \<subseteq> fst ` set (s o1)"
    using set_slice_to [of "sort_desc results" k] arg_cong [OF r(2), of set] by (auto simp: r(1))
  show "0 \<le> k \<Longrightarrow> length hits \<le> nat k" by (simp add: r(1) length_slice_to)
  show "sorted_wrt (\<lambda>a b. snd b \<le> snd a) hits"
    by (simp add: r(1) sorted_wrt_slice_to sorted_sort_desc)
qed

text \<open>The table never holds two rows with the same owner and chunk id.\<close>

definition pg_ok :: "pg_row list \<Rightarrow> bool" where
  "pg_ok rows \<longleftrightarrow> distinct (map (\<lambda>r. (pg_owner r, pg_chunk_id r)) rows)"

lemma pg_insert_keys:
  "set (map (\<lambda>r. (pg_owner r, pg_chunk_id r)) (pg_insert r rows)) =
     insert (pg_owner r, pg_chunk_id r) (set (map (\<lambda>r. (pg_owner r, pg_chunk_id r)) rows))"
  by (induction rows) auto

lemma pg_ok_upsert [inv_intros]: "pg_ok rows \<Longrightarrow> pg_ok (pg_upsert rows o1 t v cid)"
proof -
  have "pg_ok rows \<Longrightarrow> pg_ok (pg_insert r rows)" for r
  proof (induction rows)
    case (Cons x xs)
    then show ?case using pg_insert_keys [of r xs] by (auto simp: pg_ok_def)
  qed (simp add: pg_ok_def)
  then show "pg_ok rows \<Longrightarrow> pg_ok (pg_upsert rows o1 t v cid)" by (simp add: pg_upsert_def Let_def)
qed

lemma pg_insert_other:
  "pg_owner r \<noteq> o1 \<Longrightarrow> filter (\<lambda>r. pg_owner r = o1) (pg_insert r rows) = filter (\<lambda>r. pg_owner r = o1) rows"
  by (induction rows) auto

lemma pg_insert_own: "r \<in> set (pg_insert r rows)" "set (pg_insert r rows) \<subseteq> insert r (set rows)"
  by (induction rows) auto

text \<open>The table as a store; the adapter's \<open>search\<close> never raises.\<close>

definition pg_search_result :: "pg_ops \<Rightarrow> pg_row list \<Rightarrow> string \<Rightarrow> vector \<Rightarrow> int \<Rightarrow> (store_error, hit list) result" where
  "pg_search_result ops rows owner q k = Inr (pg_search ops rows owner q (nat k))"

interpretation pg_vs: vector_store "\<lambda>rows owner t v. pg_upsert rows owner t v None" "pg_search_result ops"
  "\<lambda>rows owner. pg_text ` {r \<in> set rows. pg_owner r = owner}"
proof unfold_locales
  fix s :: "pg_row list" and o1 o2 t v q k hits
  let ?r = "\<lparr>pg_owner = o1, pg_chunk_id = take 64 t, pg_text = t, pg_embedding = v\<rparr>"
  have up: "pg_upsert s o1 t v None = pg_insert ?r s" by (simp add: pg_upsert_def Let_def)
  show "pg_text ` {r \<in> set (pg_upsert s o1 t v None). pg_owner r = o1}
      \<subseteq> insert t (pg_text ` {r \<in> set s. pg_owner r = o1})"
  proof
    fix x assume "x \<in> pg_text ` {r \<in> set (pg_upsert s o1 t v None). pg_owner r = o1}"
    then obtain r where r: "r \<in> set (pg_insert ?r s)" "pg_owner r = o1" "x = pg_text r"
      unfolding up by blast
    with pg_insert_own(2) [of ?r s] have "r = ?r \<or> r \<in> set s" by blast
    then show "x \<in> insert t (pg_text ` {r \<in> set s. pg_owner r = o1})"
    proof
      assume "r = ?r"
      then have "pg_text r = t" by (metis pg_row.select_convs(3))
      with r(3) show ?thesis by simp
    qed (use r in auto)
  qed
  show "t \<in> pg_text ` {r \<in> set (pg_upsert s o1 t v None). pg_owner r = o1}"
    unfolding up using pg_insert_own(1) [of ?r s] by (intro image_eqI [of _ _ ?r]) simp_all
  have other: "filter (\<lambda>r. pg_owner r = o2) (pg_upsert s o1 t v None) = filter (\<lambda>r. pg_owner r = o2) s"
    if "o2 \<noteq> o1" using that by (simp add: up pg_insert_other)
  show "pg_text ` {r \<in> set (pg_upsert s o1 t v None). pg_owner r = o2} = pg_text ` {r \<in> set s. pg_owner r = o2}"
    if "o2 \<noteq> o1" using arg_cong [OF other [OF that], of set] by simp
  show "pg_search_result ops (pg_upsert s o1 t v None) o2 q k = pg_search_result ops s o2 q k"
    if "o2 \<noteq> o1" using other [OF that] by (simp add: pg_search_result_def pg_search_def)
  assume "pg_search_result ops s o1 q k = Inr hits"
  then have h: "hits = pg_search ops s o1 q (nat k)" by (simp add: pg_search_result_def)
  show "fst ` set hits \<subseteq> pg_text ` {r \<in> set s. pg_owner r = o1}"
    by (auto simp: h pg_search_def dest!: in_set_takeD)
  show "0 \<le> k \<Longrightarrow> length hits \<le> nat k" by (simp add: h pg_search_def)
  let ?d = "\<lambda>r. op_distance ops (pg_embedding r) q"
  have "sorted_wrt (\<lambda>a b. ?d a \<le> ?d b) (take (nat k) (sort_key ?d (filter (\<lambda>r. pg_owner r = o1) s)))"
    using sorted_sort_key [of ?d "filter (\<lambda>r. pg_owner r = o1) s"]
    by (simp add: sorted_map sorted_wrt_take)
  then show "sorted_wrt (\<lambda>a b. snd b \<le> snd a) hits" by (simp add: h pg_search_def sorted_wrt_map)
qed


subsection \<open>Fusion\<close>

definition rank_score :: "int \<Rightarrow> hit list \<Rightarrow> string \<Rightarrow> real" where
  "rank_score k hits t =
     (\<Sum>i<length hits. if fst (hits ! i) = t then 1 / real_of_int (k + 1 + int i) else 0)"

lemma rrf_add_score:
  "dict_get0 (rrf_add k r hits d) t = dict_get0 d t +
     (\<Sum>i<length hits. if fst (hits ! i) = t then 1 / real_of_int (k + r + int i) else 0)"
proof (induction k r hits d rule: rrf_add.induct)
  case (2 k rank tx s hits scores)
  have "(\<Sum>i<length ((tx, s) # hits). if fst (((tx, s) # hits) ! i) = t
        then 1 / real_of_int (k + rank + int i) else 0) =
      (if tx = t then 1 / real_of_int (k + rank) else 0) +
      (\<Sum>i<length hits. if fst (hits ! i) = t then 1 / real_of_int (k + rank + int (Suc i)) else 0)"
    unfolding length_Cons sum.lessThan_Suc_shift by simp
  also have "(\<Sum>i<length hits. if fst (hits ! i) = t then 1 / real_of_int (k + rank + int (Suc i)) else 0) =
      (\<Sum>i<length hits. if fst (hits ! i) = t then 1 / real_of_int (k + (rank + 1) + int i) else 0)"
    by (rule sum.cong) (auto simp: algebra_simps)
  finally show ?case using 2 by (simp add: dict_get0_def del: sum.lessThan_Suc length_Cons)
qed simp

lemma rrf_add_dict: "dict_ok d \<Longrightarrow> dict_ok (rrf_add k r hits d)"
  by (induction k r hits d rule: rrf_add.induct) auto

lemma rrf_add_keys: "fst ` set (rrf_add k r hits d) = fst ` set d \<union> fst ` set hits"
  by (induction k r hits d rule: rrf_add.induct) auto

lemma sort_desc_take_max:
  assumes "x \<in> set (slice_to (sort_desc xs) n)" and "y \<in> set xs" and "y \<notin> set (slice_to (sort_desc xs) n)"
  shows "snd y \<le> snd x"
proof -
  obtain m where m: "slice_to (sort_desc xs) n = take m (sort_desc xs)"
    by (metis slice_to_def)
  have "y \<in> set (drop m (sort_desc xs))"
    using assms(2,3) m by (metis Un_iff append_take_drop_id set_append set_sort_desc(1))
  moreover have "sorted_wrt (\<lambda>a b. snd b \<le> snd a) (take m (sort_desc xs) @ drop m (sort_desc xs))"
    unfolding append_take_drop_id by (rule sorted_sort_desc)
  ultimately show ?thesis using assms(1) m unfolding sorted_wrt_append by simp
qed



text \<open>
  Without an explicit chunk id the table key is the first 64 characters of the text: of two
  different chunks of one owner that agree on them only the one inserted last is kept, while a
  chunk of another owner is untouched.
\<close>

theorem pg_upsert_prefix_collision:
  assumes "take 64 t1 = take 64 t2" and "t1 \<noteq> t2" and "pg_ok rows"
    and "t1 \<notin> pg_text ` {r \<in> set rows. pg_owner r = owner}"
  shows "let rows' = pg_upsert (pg_upsert rows owner t1 v1 None) owner t2 v2 None
    in t2 \<in> pg_text ` {r \<in> set rows'. pg_owner r = owner}
       \<and> t1 \<notin> pg_text ` {r \<in> set rows'. pg_owner r = owner}
       \<and> (\<forall>other. other \<noteq> owner \<longrightarrow> pg_search ops rows' other q n = pg_search ops rows other q n)"
proof -
  let ?r1 = "\<lparr>pg_owner = owner, pg_chunk_id = take 64 t1, pg_text = t1, pg_embedding = v1\<rparr>"
  let ?r2 = "\<lparr>pg_owner = owner, pg_chunk_id = take 64 t1, pg_text = t2, pg_embedding = v2\<rparr>"
  let ?rows' = "pg_upsert (pg_upsert rows owner t1 v1 None) owner t2 v2 None"
  have rows': "?rows' = pg_insert ?r2 (pg_insert ?r1 rows)"
    using assms(1) by (simp add: pg_upsert_def Let_def)
  have "pg_insert ?r2 (pg_insert ?r1 rows) = pg_insert ?r2 rows" by (induction rows) auto
  then have eq: "?rows' = pg_insert ?r2 rows" by (simp add: rows')
  have "t1 \<notin> pg_text ` {r \<in> set ?rows'. pg_owner r = owner}"
  proof
    assume "t1 \<in> pg_text ` {r \<in> set ?rows'. pg_owner r = owner}"
    then obtain r where r: "r \<in> set (pg_insert ?r2 rows)" "pg_owner r = owner" "t1 = pg_text r"
      unfolding eq by blast
    with pg_insert_own(2) [of ?r2 rows] have "r = ?r2 \<or> r \<in> set rows" by blast
    then show False
    proof
      assume "r = ?r2"
      then have "pg_text r = t2" by (metis pg_row.select_convs(3))
      with r(3) assms(2) show False by simp
    qed (use r assms(4) in auto)
  qed
  moreover have "t2 \<in> pg_text ` {r \<in> set ?rows'. pg_owner r = owner}"
    unfolding eq using pg_insert_own(1) [of ?r2 rows] by (intro image_eqI [of _ _ ?r2]) simp_all
  moreover have "pg_search ops ?rows' other q n = pg_search ops rows other q n" if "other \<noteq> owner" for other
    using that unfolding eq by (simp add: pg_search_def pg_insert_other)
  ultimately show ?thesis by (simp add: Let_def)
qed

lemma pg_upsert_prefix_collision_witness:
  "replicate 64 (CHR ''x'') @ ''1'' \<notin> pg_text ` {r \<in> set (pg_upsert (pg_upsert [] ''acme''
     (replicate 64 (CHR ''x'') @ ''1'') [1] None) ''acme'' (replicate 64 (CHR ''x'') @ ''2'') [2] None).
     pg_owner r = ''acme''}"
proof -
  have "pg_ok []" by (simp add: pg_ok_def)
  from pg_upsert_prefix_collision [of "replicate 64 (CHR ''x'') @ ''1''" "replicate 64 (CHR ''x'') @ ''2''"
      "[]" "''acme''" "[1]" "[2]", OF _ _ this]
  show ?thesis by (simp add: Let_def del: replicate.simps)
qed

end
