(* ===== verification/Chunker.thy ===== *)
theory Chunker
  imports Vector_Store Message_Bus
begin

section \<open>Chunking and ingestion (knowledge/chunker.py, ingest.py, pdf\_tool.py)\<close>

text \<open>
  \<open>chunk_text\<close> with its two \<open>re.split\<close> calls written out as scanners, \<open>IngestionWorker\<close> over a
  vector store, and the PDF extraction tool over a file system argument.
\<close>

subsection \<open>Splitting\<close>

text \<open>\<open>re.split(r"\n\n+", text)\<close>: cut at every maximal run of at least two newlines.\<close>

definition newline :: char where
  "newline = CHR 0x0A"

fun split_paragraphs :: "string \<Rightarrow> string \<Rightarrow> string list" where
  "split_paragraphs acc [] = [rev acc]"
| "split_paragraphs acc (c # cs) =
     (if c = newline \<and> cs \<noteq> [] \<and> hd cs = newline
      then rev acc # split_paragraphs [] (dropWhile (\<lambda>d. d = newline) cs)
      else split_paragraphs (c # acc) cs)"

text \<open>
  \<open>re.split(r"(?<=[.!?])\s+", para)\<close>: cut at every maximal run of white space whose previous
  character ends a sentence; \<open>acc\<close> is the reversed text since the last cut and \<open>prev\<close> the
  previous character.
\<close>

definition ends_sentence :: "char option \<Rightarrow> bool" where
  "ends_sentence prev \<longleftrightarrow> prev \<in> {Some (CHR ''.''), Some (CHR ''!''), Some (CHR ''?'')}"

fun split_sentences :: "char option \<Rightarrow> string \<Rightarrow> string \<Rightarrow> string list" where
  "split_sentences prev acc [] = [rev acc]"
| "split_sentences prev acc (c # cs) =
     (if is_space c \<and> ends_sentence prev
      then rev acc # split_sentences (Some c) [] (dropWhile is_space cs)
      else split_sentences (Some c) (c # acc) cs)"

definition chunk_units :: "string \<Rightarrow> int \<Rightarrow> string list" where
  "chunk_units text_in chunk_size =
     (let paragraphs = filter (\<lambda>p. p \<noteq> []) (map py_strip (split_paragraphs [] text_in))
      in concat (map (\<lambda>para.
           if int (length para) \<le> chunk_size then [para]
           else filter (\<lambda>p. p \<noteq> []) (map py_strip (split_sentences None [] para))) paragraphs))"

subsection \<open>Packing\<close>

record chunk =
  ck_text :: string
  ck_source :: string
  ck_position :: nat
  ck_chunk_size :: int
  ck_overlap :: int

text \<open>
  The tail of the previous chunk that is carried over: sentences from the end while their
  summed length stays within \<open>overlap\<close>; the argument is the reversed chunk.
\<close>

fun overlap_tail :: "int \<Rightarrow> int \<Rightarrow> string list \<Rightarrow> string list \<Rightarrow> string list \<times> int" where
  "overlap_tail overlap len acc [] = (acc, len)"
| "overlap_tail overlap len acc (s # ss) =
     (if len + int (length s) > overlap then (acc, len)
      else overlap_tail overlap (len + int (length s)) (s # acc) ss)"

fun pack :: "int \<Rightarrow> int \<Rightarrow> string list \<Rightarrow> string list \<Rightarrow> int \<Rightarrow> string list list" where
  "pack chunk_size overlap [] cur cur_len = (if cur \<noteq> [] then [cur] else [])"
| "pack chunk_size overlap (sent # sents) cur cur_len =
     (if cur_len + int (length sent) > chunk_size \<and> cur \<noteq> []
      then case overlap_tail overlap 0 [] (rev cur) of
             (tail, tail_len) \<Rightarrow>
               cur # pack chunk_size overlap sents (tail @ [sent]) (tail_len + int (length sent))
      else pack chunk_size overlap sents (cur @ [sent]) (cur_len + int (length sent)))"

definition make_chunk :: "string \<Rightarrow> int \<Rightarrow> int \<Rightarrow> nat \<Rightarrow> string \<Rightarrow> chunk" where
  "make_chunk source chunk_size overlap position txt =
     \<lparr>ck_text = txt, ck_source = source, ck_position = position, ck_chunk_size = chunk_size,
      ck_overlap = overlap\<rparr>"

definition chunk_text :: "string \<Rightarrow> string \<Rightarrow> int \<Rightarrow> int \<Rightarrow> chunk list" where
  "chunk_text text_in source chunk_size overlap =
     (let groups = pack chunk_size overlap (chunk_units text_in chunk_size) [] 0;
          chunks = map (\<lambda>(i, g). make_chunk source chunk_size overlap i (py_join '' '' g))
                     (zip [0..<length groups] groups)
      in if chunks \<noteq> [] then chunks else [make_chunk source chunk_size overlap 0 text_in])"

subsection \<open>What packing guarantees\<close>

definition total_len :: "string list \<Rightarrow> int" where
  "total_len ss = int (sum_list (map length ss))"

lemma total_len_simps [simp]:
  "total_len [] = 0" "total_len (s # ss) = int (length s) + total_len ss"
  "total_len (xs @ ys) = total_len xs + total_len ys"
  by (simp_all add: total_len_def)

lemma total_len_nonneg [simp]: "0 \<le> total_len ss"
  by (simp add: total_len_def)

lemma overlap_tail_spec:
  assumes "overlap_tail overlap len acc ss = (tail, tail_len)"
  shows "\<exists>n. tail = rev (take n ss) @ acc \<and> tail_len = len + total_len (take n ss) \<and>
    (n = 0 \<or> tail_len \<le> overlap)"
  using assms
proof (induction overlap len acc ss rule: overlap_tail.induct)
  case (2 overlap len acc s ss)
  show ?case
  proof (cases "len + int (length s) > overlap")
    case False
    then obtain n where n: "tail = rev (take n ss) @ s # acc"
        "tail_len = len + int (length s) + total_len (take n ss)" "n = 0 \<or> tail_len \<le> overlap"
      using 2 by auto
    then show ?thesis using False by (intro exI [of _ "Suc n"]) auto
  qed (use 2(2) in \<open>intro exI [of _ 0], simp\<close>)
qed simp

text \<open>
  Chunk \<open>g\<close> starts with the last \<open>k\<close> units of the chunk before it; dropping them from every
  chunk gives back the units.
\<close>

fun fresh_parts :: "string list list \<Rightarrow> nat list \<Rightarrow> string list" where
  "fresh_parts (g # gs) (k # ks) = drop k g @ fresh_parts gs ks"
| "fresh_parts _ _ = []"

fun linked :: "string list list \<Rightarrow> nat list \<Rightarrow> bool" where
  "linked (g # g' # gs) (k # k' # ks) = (suffix (take k' g') g \<and> linked (g' # gs) (k' # ks))"
| "linked _ _ = True"

lemma pack_hd:
  assumes "cur @ sents \<noteq> []"
  shows "\<exists>g gs. pack chunk_size overlap sents cur cur_len = g # gs \<and> prefix cur g"
  using assms
proof (induction chunk_size overlap sents cur cur_len rule: pack.induct)
  case (2 chunk_size overlap sent sents cur cur_len)
  show ?case
  proof (cases "cur_len + int (length sent) > chunk_size \<and> cur \<noteq> []")
    case False
    with 2(2) [OF False] show ?thesis by (auto simp: append_prefixD)
  qed (auto split: prod.splits)
qed auto

lemma pack_fresh:
  assumes "cur @ sents \<noteq> []" and "k \<le> length cur"
  shows "\<exists>ks. Suc (length ks) = length (pack chunk_size overlap sents cur cur_len)
    \<and> fresh_parts (pack chunk_size overlap sents cur cur_len) (k # ks) = drop k cur @ sents
    \<and> linked (pack chunk_size overlap sents cur cur_len) (k # ks)"
  using assms
proof (induction chunk_size overlap sents cur cur_len arbitrary: k rule: pack.induct)
  case (1 chunk_size overlap cur cur_len)
  then show ?case by (intro exI [of _ "[]"]) simp
next
  case (2 chunk_size overlap sent sents cur cur_len)
  show ?case
  proof (cases "cur_len + int (length sent) > chunk_size \<and> cur \<noteq> []")
    case True
    obtain tail tail_len where t: "overlap_tail overlap 0 [] (rev cur) = (tail, tail_len)"
      by (metis prod.exhaust)
    obtain n where n: "tail = rev (take n (rev cur))" using overlap_tail_spec [OF t] by auto
    let ?rest = "pack chunk_size overlap sents (tail @ [sent]) (tail_len + int (length sent))"
    obtain ks where ks: "Suc (length ks) = length ?rest" "fresh_parts ?rest (length tail # ks) = sent # sents"
        "linked ?rest (length tail # ks)"
      using 2(1) [OF True t [symmetric], of "length tail"] by auto
    obtain g gs where g: "?rest = g # gs" "prefix (tail @ [sent]) g"
      using pack_hd [of "tail @ [sent]" sents] by blast
    then have "take (length tail) g = tail" by (auto simp: prefix_def)
    moreover have "suffix tail cur"
      using take_is_prefix [of n "rev cur"] by (simp add: n suffix_to_prefix)
    ultimately show ?thesis
      using True t ks g(1) 2(4) by (intro exI [of _ "length tail # ks"]) simp
  next
    case False
    from 2(2) [OF False, of k] 2(4) obtain ks where
      "Suc (length ks) = length (pack chunk_size overlap sents (cur @ [sent]) (cur_len + int (length sent)))"
      "fresh_parts (pack chunk_size overlap sents (cur @ [sent]) (cur_len + int (length sent))) (k # ks) =
        drop k (cur @ [sent]) @ sents"
      "linked (pack chunk_size overlap sents (cur @ [sent]) (cur_len + int (length sent))) (k # ks)"
      by auto
    with 2(4) False show ?thesis by (intro exI [of _ ks]) (simp only: pack.simps if_not_P, simp)
  qed
qed

lemma pack_bound:
  assumes "\<forall>s \<in> set sents. int (length s) \<le> longest" and "cur_len = total_len cur"
    and "cur = [] \<or> total_len cur \<le> max chunk_size (max 0 overlap + longest)"
  shows "\<forall>g \<in> set (pack chunk_size overlap sents cur cur_len).
    g \<noteq> [] \<and> total_len g \<le> max chunk_size (max 0 overlap + longest)"
  using assms
proof (induction chunk_size overlap sents cur cur_len rule: pack.induct)
  case (2 chunk_size overlap sent sents cur cur_len)
  have long: "0 \<le> int (length sent)" "int (length sent) \<le> longest" using 2(3) by simp_all
  show ?case
  proof (cases "cur_len + int (length sent) > chunk_size \<and> cur \<noteq> []")
    case True
    obtain tail tail_len where t: "overlap_tail overlap 0 [] (rev cur) = (tail, tail_len)"
      by (metis prod.exhaust)
    obtain n where n: "tail = rev (take n (rev cur))" "tail_len = total_len (take n (rev cur))"
        "n = 0 \<or> tail_len \<le> overlap"
      using overlap_tail_spec [OF t] by auto
    have tl: "tail_len = total_len tail" by (simp add: n(1,2) total_len_def flip: rev_map)
    have "tail_len + int (length sent) = total_len (tail @ [sent])" by (simp add: tl)
    moreover have "total_len (tail @ [sent]) \<le> max chunk_size (max 0 overlap + longest)"
      using n(2,3) tl long by auto
    ultimately show ?thesis
      using 2(1) [OF True t [symmetric]] 2(3-5) True t by auto
  next
    case False
    have "total_len (cur @ [sent]) \<le> max chunk_size (max 0 overlap + longest)"
      using False 2(4) long by auto
    with 2(2) [OF False] 2(3,4) False show ?thesis by (simp only: pack.simps if_not_P) simp
  qed
qed auto




lemma chunk_text_blank: "chunk_units txt n = [] \<Longrightarrow> chunk_text txt source n overlap = [make_chunk source n overlap 0 txt]"
  by (simp add: chunk_text_def Let_def)

text \<open>A chunk can be longer than the chunk size: the blanks of the join are not counted.\<close>

lemma chunk_exceeds_size:
  "map ck_text (chunk_text (''ab'' @ [newline, newline] @ ''cd'') [] 4 0) = [''ab cd'']"
  by (simp add: chunk_text_def chunk_units_def Let_def newline_def str_eval make_chunk_def)

subsection \<open>IngestionWorker\<close>

datatype ingest_error = IngestKeyError

definition content_str :: "(string \<times> json) list \<Rightarrow> string \<Rightarrow> string option" where
  "content_str content k = (case map_of content k of Some (JStr v) \<Rightarrow> Some v | _ \<Rightarrow> None)"

definition ingest_process ::
  "('s \<Rightarrow> string \<Rightarrow> string \<Rightarrow> vector \<Rightarrow> 's) \<Rightarrow> (string \<Rightarrow> vector) \<Rightarrow> int \<Rightarrow> int \<Rightarrow> 's \<Rightarrow> agent_message
     \<Rightarrow> (ingest_error, 's) result" where
  "ingest_process upsert emb chunk_size overlap s msg =
     (case (content_str (am_content msg) ''text'', content_str (am_content msg) ''owner_id'') of
        (Some txt, Some owner_id) \<Rightarrow>
          (let source = (case content_str (am_content msg) ''source'' of Some v \<Rightarrow> v | None \<Rightarrow> []);
               chunks = chunk_text txt source chunk_size overlap
           in Inr (fold (\<lambda>chunk s. upsert s owner_id (ck_text chunk) (emb (ck_text chunk))) chunks s))
      | _ \<Rightarrow> Inl IngestKeyError)"

text \<open>
  \<open>start\<close> processes the messages of its queue one by one; a message without text or owner raises
  out of the loop and ends the worker.
\<close>

fun ingest_start ::
  "('s \<Rightarrow> string \<Rightarrow> string \<Rightarrow> vector \<Rightarrow> 's) \<Rightarrow> (string \<Rightarrow> vector) \<Rightarrow> int \<Rightarrow> int \<Rightarrow> 's \<Rightarrow> agent_message list
     \<Rightarrow> ingest_error option \<times> 's" where
  "ingest_start upsert emb chunk_size overlap s [] = (None, s)"
| "ingest_start upsert emb chunk_size overlap s (m # ms) =
     (case ingest_process upsert emb chunk_size overlap s m of
        Inl e \<Rightarrow> (Some e, s)
      | Inr s' \<Rightarrow> ingest_start upsert emb chunk_size overlap s' ms)"

text \<open>The upserts a message leads to.\<close>

definition message_chunks :: "int \<Rightarrow> int \<Rightarrow> string \<Rightarrow> agent_message \<Rightarrow> string list" where
  "message_chunks chunk_size overlap owner msg =
     (case (content_str (am_content msg) ''text'', content_str (am_content msg) ''owner_id'') of
        (Some txt, Some o1) \<Rightarrow>
          (if o1 = owner
           then map ck_text (chunk_text txt (case content_str (am_content msg) ''source'' of Some v \<Rightarrow> v | None \<Rightarrow> []) chunk_size overlap)
           else [])
      | _ \<Rightarrow> [])"

context vector_store
begin

lemma ingest_process_upserts:
  assumes "ingest_process upsert emb n k s m = Inr s'"
  shows "\<exists>ops. s' = upserts upsert ops s \<and>
    (\<forall>o1. {t. \<exists>v. (o1, t, v) \<in> set ops} = set (message_chunks n k o1 m))"
proof -
  obtain tx o0 where m: "content_str (am_content m) ''text'' = Some tx"
      "content_str (am_content m) ''owner_id'' = Some o0"
    using assms by (auto simp: ingest_process_def split: option.splits)
  let ?src = "case content_str (am_content m) ''source'' of Some v \<Rightarrow> v | None \<Rightarrow> []"
  let ?ops = "map (\<lambda>c. (o0, ck_text c, emb (ck_text c))) (chunk_text tx ?src n k)"
  have "fold (\<lambda>c s. upsert s o0 (ck_text c) (emb (ck_text c))) cs s0 =
      upserts upsert (map (\<lambda>c. (o0, ck_text c, emb (ck_text c))) cs) s0" for cs s0
    by (induction cs arbitrary: s0) (auto simp: upserts_def)
  from this [of "chunk_text tx ?src n k" s] have "s' = upserts upsert ?ops s"
    using assms m unfolding ingest_process_def Let_def by (simp only: m) simp
  then show ?thesis
    by (intro exI [of _ ?ops]) (auto simp: message_chunks_def m)
qed

lemma ingest_texts:
  assumes "ingest_start upsert emb n k s ms = (r, s')"
  shows "texts s' o1 \<subseteq> texts s o1 \<union> (\<Union>m \<in> set ms. set (message_chunks n k o1 m))"
  using assms
proof (induction ms arbitrary: s)
  case (Cons m ms)
  show ?case
  proof (cases "ingest_process upsert emb n k s m")
    case (Inr s1)
    obtain ops where ops: "s1 = upserts upsert ops s"
        "\<forall>o1. {t. \<exists>v. (o1, t, v) \<in> set ops} = set (message_chunks n k o1 m)"
      using ingest_process_upserts [OF Inr] by blast
    have "texts s1 o1 \<subseteq> texts s o1 \<union> set (message_chunks n k o1 m)"
      using texts_upserts [of ops s o1] ops by auto
    moreover have "texts s' o1 \<subseteq> texts s1 o1 \<union> (\<Union>m \<in> set ms. set (message_chunks n k o1 m))"
      using Cons.IH [of s1] Cons.prems Inr by simp
    ultimately show ?thesis by auto
  qed (use Cons.prems in auto)
qed simp

lemma ingest_query_isolated:
  assumes "ingest_start upsert emb n k s ms = (r, s')"
    and "query_knowledge_base (search s') None emb reranker query o1 top_k hyb = Inr hits"
    and "\<And>q cs n r. reranker = Some r \<Longrightarrow> fst ` set (r q cs n) \<subseteq> fst ` set cs"
  shows "fst ` set hits \<subseteq> texts s o1 \<union> (\<Union>m \<in> set ms. set (message_chunks n k o1 m))"
  using ingest_texts [OF assms(1), of o1] query_isolated [OF assms(2)] assms(3) by blast

end

text \<open>
  \<^bold>\<open>C9.\<close> Tenant isolation from ingestion to answer: after the worker has processed any messages
  into an empty in-memory store, a knowledge-base query for an owner (with the default reranker)
  returns only texts of chunks of messages that named this owner, at most \<open>top_k\<close> of them.
\<close>

theorem knowledge_base_isolated:
  assumes "ingest_start vs_upsert emb n k vs_empty ms = (r, s)" and "0 \<le> top_k"
    and "query_knowledge_base (vs_search s) None emb None query owner top_k use_hybrid = Inr hits"
  shows "fst ` set hits \<subseteq> (\<Union>m \<in> set ms. set (message_chunks n k owner m)) \<and> length hits \<le> nat top_k"
proof -
  have "fst ` set hits \<subseteq> (\<Union>m \<in> set ms. set (message_chunks n k owner m))"
    using mem_vs.ingest_query_isolated [OF assms(1,3)] by (simp add: vs_empty_def)
  moreover have "length hits \<le> nat top_k"
    using assms(2,3) by (auto simp: query_knowledge_base_def Let_def noop_rerank_def length_slice_to
      split: sum.splits bool.splits)
  ultimately show ?thesis by simp
qed

definition sample_message :: "string \<Rightarrow> string \<Rightarrow> agent_message" where
  "sample_message owner txt =
     \<lparr>am_id = ''1'', am_topic = ''agent.output.final'', am_sender = ''analyst'',
      am_content = [(''text'', JStr txt), (''owner_id'', JStr owner)], am_timestamp = ''0.0''\<rparr>"

lemma knowledge_base_isolated_witness:
  "\<exists>hits. query_knowledge_base (vs_search (snd (ingest_start vs_upsert (\<lambda>_. [1]) 512 64 vs_empty
       [sample_message ''acme'' ''alpha'', sample_message ''other'' ''beta'']))) None (\<lambda>_. [1]) None ''q''
     ''acme'' 5 False = Inr hits \<and> fst ` set hits \<subseteq> {''alpha''}"
proof -
  let ?ms = "[sample_message ''acme'' ''alpha'', sample_message ''other'' ''beta'']"
  obtain r s where run: "ingest_start vs_upsert (\<lambda>_. [1]) 512 64 vs_empty ?ms = (r, s)" by (metis prod.exhaust)
  have a: "chunk_text ''alpha'' [] 512 64 = [make_chunk [] 512 64 0 ''alpha'']" by (simp add: chunk_text_def chunk_units_def Let_def newline_def str_eval make_chunk_def)
  have b: "chunk_text ''beta'' [] 512 64 = [make_chunk [] 512 64 0 ''beta'']" by (simp add: chunk_text_def chunk_units_def Let_def newline_def str_eval make_chunk_def)
  note ev = sample_message_def content_str_def ingest_process_def message_chunks_def a b make_chunk_def
  have "s ''acme'' = [(''alpha'', [1])]"
    using run by (simp add: ev vs_upsert_def vs_empty_def Let_def) auto
  then obtain hits where q: "query_knowledge_base (vs_search s) None (\<lambda>_. [1]) None ''q'' ''acme'' 5 False = Inr hits"
    by (simp add: query_knowledge_base_def Let_def vs_search_def np_scale_def np_dot_def)
  have "fst ` set hits \<subseteq> (\<Union>m \<in> set ?ms. set (message_chunks 512 64 ''acme'' m))"
    using knowledge_base_isolated [OF run _ q] by simp
  then show ?thesis using q run by (intro exI [of _ hits]) (simp add: ev)
qed

subsection \<open>file\_context\_extractor\<close>

text \<open>
  The file system and the PDF library: whether a path exists, whether the library is installed,
  the pages of a document (the text of a page, or none) or a parse error, and the absolute path.
\<close>

datatype pdf_error = FileNotFoundError string | PdfRuntimeError string

record pdf_env =
  pe_exists :: "string \<Rightarrow> bool"
  pe_installed :: bool
  pe_pages :: "string \<Rightarrow> (string, string option list) result"
  pe_abspath :: "string \<Rightarrow> string"

definition pdf_snippets :: "string option list \<Rightarrow> int \<Rightarrow> (nat \<times> string) list" where
  "pdf_snippets pages pages_to_read =
     filter (\<lambda>(i, t). t \<noteq> [])
       (map (\<lambda>i. (i + 1, py_strip (case pages ! i of None \<Rightarrow> [] | Some t \<Rightarrow> t))) [0..<nat pages_to_read])"

definition file_context_extractor ::
  "pdf_env \<Rightarrow> string \<Rightarrow> string \<Rightarrow> int \<Rightarrow> (pdf_error, json) result" where
  "file_context_extractor env path query max_pages =
     (if \<not> pe_exists env path then Inl (FileNotFoundError path)
      else if \<not> pe_installed env then Inl (PdfRuntimeError ''pypdf is required'')
      else case pe_pages env path of
             Inl e \<Rightarrow> Inl (PdfRuntimeError e)
           | Inr pages \<Rightarrow>
               (let total_pages = int (length pages);
                    pages_to_read = min total_pages max_pages
                in Inr (JObj
                     [(''snippets'', JArr (map (\<lambda>(page, t). JObj [(''page'', JInt (int page)), (''text'', JStr t)])
                         (pdf_snippets pages pages_to_read))),
                      (''total_pages'', JInt total_pages), (''pages_read'', JInt pages_to_read),
                      (''source'', JStr (pe_abspath env path)), (''query'', JStr query)])))"

lemma pdf_snippets_pages:
  assumes "(i, t) \<in> set (pdf_snippets pages (min (int (length pages)) n))"
  shows "1 \<le> i \<and> i \<le> length pages \<and> int i \<le> n \<and> t \<noteq> []"
  using assms by (auto simp: pdf_snippets_def)

end
