(* ===== verification/Economics.thy ===== *)
theory Economics
  imports Vector_Store
begin

section \<open>Task allocation (economics/utility.py, economics/auction.py)\<close>

text \<open>
  \<open>UtilityFunction.score\<close> and the sealed-bid \<open>Auction\<close>. Bids are a dict from agent id to score,
  so a later profile with the same id replaces the earlier bid. The vector store of the knowledge
  probe is its \<open>search\<close> function. Metric counters and spans are not modelled.
\<close>

record agent_profile =
  ap_agent_id :: string
  ap_capabilities :: "string list"
  ap_expertise_score :: real
  ap_cost_per_unit :: real

text \<open>The bounds pydantic checks on construction.\<close>

definition profile_ok :: "agent_profile \<Rightarrow> bool" where
  "profile_ok p \<longleftrightarrow> 0 \<le> ap_expertise_score p \<and> ap_expertise_score p \<le> 1 \<and> 0 \<le> ap_cost_per_unit p"

definition raw_score :: "agent_task \<Rightarrow> agent_profile \<Rightarrow> bool \<Rightarrow> real" where
  "raw_score task profile knowledge_boost =
     (let expertise_match = (if at_required_capability task \<in> set (ap_capabilities profile) then 1 else 3 / 10);
          raw = expertise_match * ap_expertise_score profile - 2 / 10 * at_complexity task
                - 1 / 10 * ap_cost_per_unit profile
      in if knowledge_boost \<and> ''knowledge_retrieval'' \<in> set (ap_capabilities profile)
         then raw * (12 / 10) else raw)"

definition utility_score :: "agent_task \<Rightarrow> agent_profile \<Rightarrow> bool \<Rightarrow> real" where
  "utility_score task profile knowledge_boost = max 0 (min 1 (raw_score task profile knowledge_boost))"

datatype auction_error = AuctionValueError | AuctionStoreError store_error

record bid_result =
  br_task_id :: string
  br_bids :: "(string, real) dict"
  br_winner_id :: string
  br_winning_bid :: real

definition collect_bids :: "agent_task \<Rightarrow> bool \<Rightarrow> agent_profile list \<Rightarrow> (string, real) dict" where
  "collect_bids task boost profiles =
     fold (\<lambda>p bids. AList.update (ap_agent_id p) (utility_score task p boost) bids) profiles []"

text \<open>\<open>sorted(bids.items(), key=lambda kv: (-kv[1], kv[0]))\<close>.\<close>

definition bid_before :: "string \<times> real \<Rightarrow> string \<times> real \<Rightarrow> bool" where
  "bid_before a b \<longleftrightarrow> snd b < snd a \<or> snd a = snd b \<and> fst a \<le> fst b"

fun bid_insert :: "string \<times> real \<Rightarrow> (string \<times> real) list \<Rightarrow> (string \<times> real) list" where
  "bid_insert x [] = [x]"
| "bid_insert x (y # ys) = (if bid_before x y then x # y # ys else y # bid_insert x ys)"

definition sort_bids :: "(string \<times> real) list \<Rightarrow> (string \<times> real) list" where
  "sort_bids bids = foldr bid_insert bids []"

definition auction_inner ::
  "(string \<Rightarrow> vector \<Rightarrow> int \<Rightarrow> (store_error, hit list) result) option \<Rightarrow> vector option \<Rightarrow> agent_task
     \<Rightarrow> agent_profile list \<Rightarrow> string \<Rightarrow> (auction_error, bid_result) result" where
  "auction_inner store query_vector task profiles owner_id =
     (let probe = (case (store, query_vector) of
                     (Some search, Some q) \<Rightarrow>
                       (case search owner_id q 1 of
                          Inl e \<Rightarrow> Inl (AuctionStoreError e)
                        | Inr results \<Rightarrow> Inr (0 < length results))
                   | _ \<Rightarrow> Inr False)
      in case probe of
           Inl e \<Rightarrow> Inl e
         | Inr knowledge_boost \<Rightarrow>
             (let bids = collect_bids task knowledge_boost profiles;
                  sorted_agents = sort_bids bids;
                  winner_id = fst (hd sorted_agents);
                  winning_bid = (case map_of bids winner_id of Some b \<Rightarrow> b | None \<Rightarrow> 0)
              in Inr \<lparr>br_task_id = at_id task, br_bids = bids, br_winner_id = winner_id,
                      br_winning_bid = winning_bid\<rparr>))"

definition auction_run ::
  "(string \<Rightarrow> vector \<Rightarrow> int \<Rightarrow> (store_error, hit list) result) option \<Rightarrow> vector option \<Rightarrow> agent_task
     \<Rightarrow> agent_profile list \<Rightarrow> string \<Rightarrow> (auction_error, bid_result) result" where
  "auction_run store query_vector task profiles owner_id =
     (if profiles = [] then Inl AuctionValueError
      else auction_inner store query_vector task profiles owner_id)"

subsection \<open>Scores\<close>

lemma utility_score_bounds: "0 \<le> utility_score t p b" "utility_score t p b \<le> 1"
  by (simp_all add: utility_score_def)

text \<open>The knowledge boost never lowers a bid: a negative raw score is clamped either way.\<close>

lemma utility_boost_mono: "utility_score t p False \<le> utility_score t p True"
proof -
  let ?r = "raw_score t p False"
  have "raw_score t p True = ?r \<or> raw_score t p True = ?r * (12 / 10)"
    by (simp add: raw_score_def Let_def)
  moreover have "max 0 (min 1 ?r) \<le> max 0 (min 1 (?r * (12 / 10)))" by (simp add: max_def min_def)
  ultimately show ?thesis by (auto simp: utility_score_def)
qed

subsection \<open>The winner\<close>

lemma set_sort_bids [simp]: "set (sort_bids bids) = set bids"
proof -
  have "set (bid_insert x ys) = insert x (set ys)" for x ys by (induction ys) auto
  then show ?thesis unfolding sort_bids_def by (induction bids) auto
qed

lemma bid_before_trans: "bid_before a b \<Longrightarrow> bid_before b c \<Longrightarrow> bid_before a c"
  by (auto simp: bid_before_def)

lemma bid_before_total: "bid_before a b \<or> bid_before b a"
  by (auto simp: bid_before_def)

lemma sorted_sort_bids: "sorted_wrt bid_before (sort_bids bids)"
proof -
  have ins: "set (bid_insert x ys) = insert x (set ys)" for x ys by (induction ys) auto
  have "sorted_wrt bid_before ys \<Longrightarrow> sorted_wrt bid_before (bid_insert x ys)" for x ys
  proof (induction ys)
    case (Cons y ys)
    then show ?case using bid_before_total [of x y] by (auto simp: ins intro: bid_before_trans)
  qed simp
  then show ?thesis unfolding sort_bids_def by (induction bids) auto
qed

lemma collect_bids_keys: "fst ` set (collect_bids t b ps) = ap_agent_id ` set ps" "dict_ok (collect_bids t b ps)"
proof -
  have "fst ` set (fold (\<lambda>p bids. AList.update (ap_agent_id p) (utility_score t p b) bids) ps d) =
      fst ` set d \<union> ap_agent_id ` set ps" for d
    by (induction ps arbitrary: d) auto
  from this [of "[]"] show "fst ` set (collect_bids t b ps) = ap_agent_id ` set ps" by (simp add: collect_bids_def)
  have "dict_ok d \<Longrightarrow> dict_ok (fold (\<lambda>p bids. AList.update (ap_agent_id p) (utility_score t p b) bids) ps d)" for d
    by (induction ps arbitrary: d) auto
  then show "dict_ok (collect_bids t b ps)" by (simp add: collect_bids_def)
qed

text \<open>The last profile with an id decides its bid.\<close>

lemma collect_bids_last:
  assumes "distinct (map ap_agent_id ps)" and "p \<in> set ps"
  shows "map_of (collect_bids t b ps) (ap_agent_id p) = Some (utility_score t p b)"
proof -
  have "distinct (map ap_agent_id ps) \<Longrightarrow> p \<in> set ps \<or> map_of d (ap_agent_id p) = Some (utility_score t p b) \<and>
      ap_agent_id p \<notin> ap_agent_id ` set ps \<Longrightarrow>
      map_of (fold (\<lambda>p bids. AList.update (ap_agent_id p) (utility_score t p b) bids) ps d) (ap_agent_id p)
        = Some (utility_score t p b)" for d
    by (induction ps arbitrary: d) auto
  then show ?thesis using assms by (simp add: collect_bids_def)
qed

text \<open>
  \<^bold>\<open>C10.\<close> The auction is won by the best offer: with at least one profile, distinct agent ids and a
  probe that does not raise, the winner is one of the profiles, its bid is that profile's clamped
  score, no profile scores higher, and among the profiles with the same score the winner has the
  least id.
\<close>

theorem auction_winner_optimal:
  assumes "profiles \<noteq> []" and "distinct (map ap_agent_id profiles)"
    and "auction_run store q task profiles owner = Inr r"
  shows "\<exists>boost winner. winner \<in> set profiles \<and> br_winner_id r = ap_agent_id winner
    \<and> br_winning_bid r = utility_score task winner boost
    \<and> (\<forall>p \<in> set profiles. utility_score task p boost < br_winning_bid r
         \<or> utility_score task p boost = br_winning_bid r \<and> br_winner_id r \<le> ap_agent_id p)"
proof -
  obtain boost where r: "br_bids r = collect_bids task boost profiles"
      "br_winner_id r = fst (hd (sort_bids (br_bids r)))"
      "br_winning_bid r = (case map_of (br_bids r) (br_winner_id r) of Some b \<Rightarrow> b | None \<Rightarrow> 0)"
    using assms(1,3) by (auto simp: auction_run_def auction_inner_def Let_def split: sum.splits)
  let ?bids = "collect_bids task boost profiles"
  have ne: "sort_bids ?bids \<noteq> []"
    using collect_bids_keys(1) [of task boost profiles] assms(1) by (metis image_is_empty set_empty set_sort_bids)
  then obtain w ws where w: "sort_bids ?bids = w # ws" by (cases "sort_bids ?bids") auto
  have "w \<in> set ?bids" using w set_sort_bids [of ?bids] by (metis list.set_intros(1))
  moreover have "fst w \<in> ap_agent_id ` set profiles"
    using calculation collect_bids_keys(1) [of task boost profiles] by blast
  ultimately obtain winner where win: "winner \<in> set profiles" "fst w = ap_agent_id winner" "w \<in> set ?bids"
    by auto
  have bid: "map_of ?bids (ap_agent_id winner) = Some (utility_score task winner boost)"
    using collect_bids_last [OF assms(2) win(1)] .
  then have sw: "snd w = utility_score task winner boost"
    using win collect_bids_keys(2) [of task boost profiles]
    by (metis dict_ok_def map_of_is_SomeI option.inject prod.collapse)
  have "utility_score task p boost < snd w \<or> utility_score task p boost = snd w \<and> fst w \<le> ap_agent_id p"
    if p: "p \<in> set profiles" for p
  proof -
    have "(ap_agent_id p, utility_score task p boost) \<in> set (w # ws)"
      using map_of_SomeD [OF collect_bids_last [OF assms(2) p]] set_sort_bids [of ?bids] w by metis
    then show ?thesis
      using sorted_sort_bids [of ?bids] by (auto simp: w bid_before_def)
  qed
  with win sw bid show ?thesis by (intro exI [of _ boost] exI [of _ winner]) (simp add: r w)
qed

lemma auction_winner_optimal_witness:
  "\<exists>r. auction_run None None \<lparr>at_id = ''t'', at_name = ''n'', at_payload = [], at_complexity = 0,
       at_required_capability = ''general''\<rparr>
     [\<lparr>ap_agent_id = ''b'', ap_capabilities = [''general''], ap_expertise_score = 1, ap_cost_per_unit = 1\<rparr>,
      \<lparr>ap_agent_id = ''a'', ap_capabilities = [''general''], ap_expertise_score = 1, ap_cost_per_unit = 1\<rparr>]
     ''o'' = Inr r \<and> br_winner_id r = ''a''"
proof -
  let ?t = "\<lparr>at_id = ''t'', at_name = ''n'', at_payload = [], at_complexity = 0, at_required_capability = ''general''\<rparr>"
  let ?p = "\<lambda>i. \<lparr>ap_agent_id = i, ap_capabilities = [''general''], ap_expertise_score = 1, ap_cost_per_unit = 1\<rparr>"
  obtain r where r: "auction_run None None ?t [?p ''b'', ?p ''a''] ''o'' = Inr r"
    by (simp add: auction_run_def auction_inner_def Let_def)
  have "utility_score ?t (?p i) b = 9 / 10" for i b
    by (simp add: utility_score_def raw_score_def)
  with auction_winner_optimal [OF _ _ r] have "br_winner_id r \<le> ''a''"
    "br_winner_id r = ''b'' \<or> br_winner_id r = ''a''" by auto
  then have "br_winner_id r = ''a''" by (auto simp: less_eq_char_def)
  with r show ?thesis by blast
qed

end
