(* ===== verification/Auth.thy ===== *)
theory Auth
  imports Redis_Client Json
begin

section \<open>OAuth: sessions, authorization server, resource server (auth/session.py, server.py, resource.py)\<close>

text \<open>
  Client registrations and authorization codes live in Redis (the client interface of
  \<open>Redis_Client\<close>), as JSON text. The random tokens, the clock, SHA-256 and the JOSE library
  (sign, verify, validate the time claims) are arguments; what the servers rely on in the latter is
  the law \<open>jwt_law\<close>. \<open>repr_str\<close> is \<open>repr\<close> of a string. FastAPI's parameter parsing and log lines are not modelled.
\<close>

datatype auth_error =
    HTTPException nat string
  | AuthRedisError redis_error
  | AuthValueError
  | AuthKeyError
  | AuthRuntimeError

subsection \<open>Session ids\<close>

definition colon :: char where
  "colon = CHR '':''"

definition generate_session_id :: "string \<Rightarrow> string \<Rightarrow> (auth_error, string) result" where
  "generate_session_id token_part user_id =
     (if user_id = [] \<or> colon \<in> set user_id then Inl AuthValueError
      else Inr (user_id @ [colon] @ token_part))"

definition parse_session_id :: "string \<Rightarrow> (auth_error, string \<times> string) result" where
  "parse_session_id session_id =
     (if colon \<notin> set session_id then Inl AuthValueError
      else let user_id = takeWhile (\<lambda>c. c \<noteq> colon) session_id;
               token_part = tl (dropWhile (\<lambda>c. c \<noteq> colon) session_id)
           in if user_id = [] \<or> token_part = [] then Inl AuthValueError else Inr (user_id, token_part))"

definition validate_session_id :: "string \<Rightarrow> bool" where
  "validate_session_id session_id = is_ok (parse_session_id session_id)"

lemma session_id_roundtrip:
  assumes "generate_session_id token_part user_id = Inr sid" and "token_part \<noteq> []"
  shows "parse_session_id sid = Inr (user_id, token_part)"
proof -
  have sid: "sid = user_id @ [colon] @ token_part" "user_id \<noteq> []" "colon \<notin> set user_id"
    using assms(1) by (auto simp: generate_session_id_def split: if_splits)
  have "\<forall>c \<in> set user_id. c \<noteq> colon" using sid(3) by auto
  then show ?thesis
    using assms(2) sid(1,2) by (simp add: parse_session_id_def takeWhile_append dropWhile_append3)
qed

subsection \<open>Scopes\<close>

definition scope_expansion :: "string \<Rightarrow> string list" where
  "scope_expansion s = (if s = ''tools:all'' then [''tools:list'', ''tools:call''] else [s])"

definition expand_scope :: "string \<Rightarrow> string list" where
  "expand_scope scope = remdups (concat (map scope_expansion (py_split scope)))"

definition sorted_scopes :: "string \<Rightarrow> string list" where
  "sorted_scopes scope = sort (expand_scope scope)"

subsection \<open>The Redis-backed store\<close>

definition client_key :: "string \<Rightarrow> string" where
  "client_key client_id = ''auth:client:'' @ client_id"

definition code_key :: "string \<Rightarrow> string" where
  "code_key acode = ''auth:code:'' @ acode"

definition store_client ::
  "'r redis_client \<Rightarrow> 'r \<Rightarrow> string \<Rightarrow> (string \<times> json) list \<Rightarrow> (auth_error, unit) result \<times> 'r" where
  "store_client c s client_id data =
     (case rc_set c s (client_key client_id) (dumps (JObj data)) of
        (Inl e, s') \<Rightarrow> (Inl (AuthRedisError e), s')
      | (Inr _, s') \<Rightarrow> (Inr (), s'))"

definition decode_stored :: "string option \<Rightarrow> (auth_error, json option) result" where
  "decode_stored raw =
     (case raw of
        None \<Rightarrow> Inr None
      | Some txt \<Rightarrow>
          (if txt = [] then Inr None
           else case loads txt of None \<Rightarrow> Inl AuthValueError | Some v \<Rightarrow> Inr (Some v)))"

definition load_client :: "'r redis_client \<Rightarrow> 'r \<Rightarrow> string \<Rightarrow> (auth_error, json option) result" where
  "load_client c s client_id =
     (case rc_get c s (client_key client_id) of
        Inl e \<Rightarrow> Inl (AuthRedisError e)
      | Inr raw \<Rightarrow> decode_stored raw)"

definition store_code ::
  "'r redis_client \<Rightarrow> 'r \<Rightarrow> string \<Rightarrow> (string \<times> json) list \<Rightarrow> (auth_error, unit) result \<times> 'r" where
  "store_code c s acode data =
     (case rc_setex c s (code_key acode) 600 (dumps (JObj data)) of
        (Inl e, s') \<Rightarrow> (Inl (AuthRedisError e), s')
      | (Inr _, s') \<Rightarrow> (Inr (), s'))"

definition load_and_delete_code ::
  "'r redis_client \<Rightarrow> 'r \<Rightarrow> string \<Rightarrow> (auth_error, json option) result \<times> 'r" where
  "load_and_delete_code c s acode =
     (case rc_getdel c s (code_key acode) of
        (Inl e, s') \<Rightarrow> (Inl (AuthRedisError e), s')
      | (Inr raw, s') \<Rightarrow> (decode_stored raw, s'))"

subsection \<open>Keys\<close>

text \<open>
  The cached key of each server: the authorization server falls back to a fresh ephemeral key,
  the resource server raises. Both take the secret of the environment if there is one.
\<close>

definition auth_jwt_key :: "(string \<Rightarrow> 'k) \<Rightarrow> 'k \<Rightarrow> string option \<Rightarrow> 'k option \<Rightarrow> 'k" where
  "auth_jwt_key import_key fresh secret cached =
     (case cached of
        Some k \<Rightarrow> k
      | None \<Rightarrow> (case secret of Some v \<Rightarrow> if v \<noteq> [] then import_key v else fresh | None \<Rightarrow> fresh))"

definition resource_jwt_key :: "(string \<Rightarrow> 'k) \<Rightarrow> string option \<Rightarrow> 'k option \<Rightarrow> (auth_error, 'k) result" where
  "resource_jwt_key import_key secret cached =
     (case cached of
        Some k \<Rightarrow> Inr k
      | None \<Rightarrow>
          (case secret of
             Some v \<Rightarrow> if v \<noteq> [] then Inr (import_key v) else Inl AuthRuntimeError
           | None \<Rightarrow> Inl AuthRuntimeError))"

lemma shared_secret_same_key:
  assumes "v \<noteq> []"
  shows "resource_jwt_key import_key (Some v) None = Inr (auth_jwt_key import_key fresh (Some v) None)"
  using assms by (simp add: resource_jwt_key_def auth_jwt_key_def)

subsection \<open>PKCE\<close>

text \<open>\<open>base64.urlsafe_b64encode\<close> without its padding, on bytes given as numbers.\<close>

definition b64_char :: "nat \<Rightarrow> char" where
  "b64_char n =
     (if n < 26 then char_of (65 + n) else if n < 52 then char_of (71 + n)
      else if n < 62 then char_of (n - 4) else if n = 62 then CHR ''-'' else CHR ''_'')"

fun b64url :: "nat list \<Rightarrow> string" where
  "b64url [] = []"
| "b64url [a] = [b64_char (a div 4), b64_char (16 * (a mod 4))]"
| "b64url [a, b] = [b64_char (a div 4), b64_char (16 * (a mod 4) + b div 16), b64_char (4 * (b mod 16))]"
| "b64url (a # b # c # bs) =
     [b64_char (a div 4), b64_char (16 * (a mod 4) + b div 16), b64_char (4 * (b mod 16) + c div 64),
      b64_char (c mod 64)] @ b64url bs"

definition compute_s256 :: "(string \<Rightarrow> nat list) \<Rightarrow> string \<Rightarrow> (auth_error, string) result" where
  "compute_s256 digest verifier =
     (if \<forall>c \<in> set verifier. code c < 128 then Inr (b64url (digest verifier)) else Inl AuthValueError)"

subsection \<open>Endpoints\<close>

record client_registration =
  cr_client_id :: string
  cr_client_secret :: string
  cr_redirect_uri :: string
  cr_scope :: string

record token_request =
  tr_client_id :: string
  tr_client_secret :: string
  tr_grant_type :: string
  tr_code :: "string option"
  tr_code_verifier :: "string option"

definition register_client ::
  "'r redis_client \<Rightarrow> 'r \<Rightarrow> client_registration \<Rightarrow> (auth_error, json) result \<times> 'r" where
  "register_client c s req =
     (case store_client c s (cr_client_id req)
             [(''client_secret'', JStr (cr_client_secret req)),
              (''redirect_uri'', JStr (cr_redirect_uri req)), (''scope'', JStr (cr_scope req))] of
        (Inl e, s') \<Rightarrow> (Inl e, s')
      | (Inr _, s') \<Rightarrow>
          (Inr (JObj [(''client_id'', JStr (cr_client_id req)), (''registered'', JBool True)]), s'))"

definition authorize ::
  "(string \<Rightarrow> string) \<Rightarrow> 'r redis_client \<Rightarrow> string \<Rightarrow> 'r \<Rightarrow> string \<Rightarrow> string \<Rightarrow> string \<Rightarrow> string \<Rightarrow> string
     \<Rightarrow> (auth_error, string) result \<times> 'r" where
  "authorize repr_str c fresh_code s client_id code_challenge code_challenge_method scope user_id =
     (if code_challenge_method \<noteq> ''S256''
      then (Inl (HTTPException 400 ''Only S256 code_challenge_method is supported (plain is not allowed)''), s)
      else case load_client c s client_id of
             Inl e \<Rightarrow> (Inl e, s)
           | Inr None \<Rightarrow> (Inl (HTTPException 400 (''Unknown client: '' @ repr_str client_id)), s)
           | Inr (Some _) \<Rightarrow>
               (case store_code c s fresh_code
                       [(''code_challenge'', JStr code_challenge), (''user_id'', JStr user_id),
                        (''scope'', JStr scope), (''client_id'', JStr client_id)] of
                  (Inl e, s') \<Rightarrow> (Inl e, s')
                | (Inr _, s') \<Rightarrow> (Inr fresh_code, s')))"

record token_response =
  tp_access_token :: string
  tp_expires_in :: int
  tp_scope :: string

definition issue_token ::
  "('k \<Rightarrow> (string \<times> json) list \<Rightarrow> string) \<Rightarrow> 'k \<Rightarrow> string \<Rightarrow> int \<Rightarrow> string \<Rightarrow> string
     \<Rightarrow> (auth_error, token_response) result" where
  "issue_token encode key fresh_part now scope sub =
     (case generate_session_id fresh_part sub of
        Inl e \<Rightarrow> Inl e
      | Inr session_id \<Rightarrow>
          (let granted = py_join '' '' (sorted_scopes scope);
               claims = [(''sub'', JStr sub), (''aud'', JStr ''mcp-server''), (''scope'', JStr granted),
                         (''session_id'', JStr session_id), (''iat'', JInt now), (''exp'', JInt (now + 3600))]
           in Inr \<lparr>tp_access_token = encode key claims, tp_expires_in = 3600, tp_scope = granted\<rparr>))"

definition json_str :: "json \<Rightarrow> string \<Rightarrow> (auth_error, string) result" where
  "json_str data k = (case jget data k of Some (JStr v) \<Rightarrow> Inr v | _ \<Rightarrow> Inl AuthKeyError)"

text \<open>The authorization-code branch after the client has been authenticated.\<close>

definition exchange_code ::
  "'r redis_client \<Rightarrow> ('k \<Rightarrow> (string \<times> json) list \<Rightarrow> string) \<Rightarrow> (string \<Rightarrow> nat list) \<Rightarrow> 'k \<Rightarrow> string \<Rightarrow> int
     \<Rightarrow> 'r \<Rightarrow> string \<Rightarrow> string \<Rightarrow> string \<Rightarrow> (auth_error, token_response) result \<times> 'r" where
  "exchange_code c encode digest key fresh_part now s client_id acode verifier =
     (case load_and_delete_code c s acode of
        (Inl e, s') \<Rightarrow> (Inl e, s')
      | (Inr None, s') \<Rightarrow> (Inl (HTTPException 400 ''Invalid or expired authorization code''), s')
      | (Inr (Some code_data), s') \<Rightarrow>
          ((case json_str code_data ''client_id'' of
              Inl e \<Rightarrow> Inl e
            | Inr cid \<Rightarrow>
                (if cid \<noteq> client_id then Inl (HTTPException 400 ''client_id mismatch'')
                 else case compute_s256 digest verifier of
                        Inl e \<Rightarrow> Inl e
                      | Inr expected_challenge \<Rightarrow>
                          (case json_str code_data ''code_challenge'' of
                             Inl e \<Rightarrow> Inl e
                           | Inr challenge \<Rightarrow>
                               (if expected_challenge \<noteq> challenge
                                then Inl (HTTPException 400 ''PKCE code_verifier verification failed'')
                                else case (json_str code_data ''scope'', json_str code_data ''user_id'') of
                                       (Inr scope, Inr user_id) \<Rightarrow>
                                         issue_token encode key fresh_part now scope user_id
                                     | _ \<Rightarrow> Inl AuthKeyError)))), s'))"

definition token_endpoint ::
  "'r redis_client \<Rightarrow> ('k \<Rightarrow> (string \<times> json) list \<Rightarrow> string) \<Rightarrow> (string \<Rightarrow> nat list) \<Rightarrow> 'k \<Rightarrow> string \<Rightarrow> int
     \<Rightarrow> 'r \<Rightarrow> token_request \<Rightarrow> (auth_error, token_response) result \<times> 'r" where
  "token_endpoint c encode digest key fresh_part now s req =
     (case load_client c s (tr_client_id req) of
        Inl e \<Rightarrow> (Inl e, s)
      | Inr None \<Rightarrow> (Inl (HTTPException 401 ''Invalid client credentials''), s)
      | Inr (Some client) \<Rightarrow>
          (case json_str client ''client_secret'' of
             Inl e \<Rightarrow> (Inl e, s)
           | Inr secret \<Rightarrow>
               if secret \<noteq> tr_client_secret req
               then (Inl (HTTPException 401 ''Invalid client credentials''), s)
               else if tr_grant_type req = ''client_credentials''
               then (let scope = (case jget client ''scope'' of Some (JStr v) \<Rightarrow> v | _ \<Rightarrow> ''tools:call'')
                     in (issue_token encode key fresh_part now scope (tr_client_id req), s))
               else if tr_grant_type req = ''authorization_code''
               then (case (tr_code req, tr_code_verifier req) of
                       (Some acode, Some verifier) \<Rightarrow>
                         if acode = [] \<or> verifier = []
                         then (Inl (HTTPException 400
                                 ''authorization_code grant requires code and code_verifier''), s)
                         else exchange_code c encode digest key fresh_part now s (tr_client_id req) acode verifier
                     | _ \<Rightarrow> (Inl (HTTPException 400
                               ''authorization_code grant requires code and code_verifier''), s))
               else (Inl (HTTPException 400 ''Unsupported grant_type''), s)))"

subsection \<open>The resource server\<close>

text \<open>
  \<open>decode\<close> verifies the signature and returns the claims, \<open>valid\<close> is \<open>claims.validate()\<close>. The
  result is the claims, or None where \<open>optional\<close> allows it.
\<close>

definition verify_token ::
  "('k \<Rightarrow> string \<Rightarrow> (string, (string \<times> json) list) result) \<Rightarrow> ((string \<times> json) list \<Rightarrow> bool)
     \<Rightarrow> (auth_error, 'k) result \<Rightarrow> string \<Rightarrow> bool \<Rightarrow> string option
     \<Rightarrow> (auth_error, (string \<times> json) list option) result" where
  "verify_token decode valid key required_scope optional authorization =
     (let reject = (\<lambda>detail. if optional then Inr None else Inl (HTTPException 401 detail))
      in case authorization of
           None \<Rightarrow> reject ''Missing or malformed Authorization header''
         | Some hdr \<Rightarrow>
             (if \<not> startswith (py_lower hdr) ''bearer ''
              then reject ''Missing or malformed Authorization header''
              else let raw_token = py_strip (tl (dropWhile (\<lambda>ch. ch \<noteq> CHR '' '') hdr))
                   in if raw_token = [] then reject ''Missing token''
                      else case key of
                             Inl _ \<Rightarrow> reject ''Invalid token''
                           | Inr k \<Rightarrow>
                               (case decode k raw_token of
                                  Inl _ \<Rightarrow> reject ''Invalid token''
                                | Inr claims \<Rightarrow>
                                    (if \<not> valid claims then reject ''Invalid token''
                                     else if map_of claims ''aud'' \<noteq> Some (JStr ''mcp-server'')
                                     then Inl (HTTPException 401 ''Invalid audience'')
                                     else if required_scope \<notin> set (py_split
                                               (case map_of claims ''scope'' of Some (JStr v) \<Rightarrow> v | _ \<Rightarrow> []))
                                     then Inl (HTTPException 403 ''Insufficient scope'')
                                     else Inr (Some claims)))))"


subsection \<open>What the servers rely on in the JOSE library\<close>

text \<open>
  A signed token decodes, with the same key, to the claims it was made from, is non-empty and
  has no white space; claims with an expiry in the future, an issue time not after \<open>now\<close> and no
  not-before claim validate.
\<close>

definition jwt_law ::
  "('k \<Rightarrow> (string \<times> json) list \<Rightarrow> string) \<Rightarrow> ('k \<Rightarrow> string \<Rightarrow> (string, (string \<times> json) list) result)
     \<Rightarrow> (int \<Rightarrow> (string \<times> json) list \<Rightarrow> bool) \<Rightarrow> bool" where
  "jwt_law encode decode valid \<longleftrightarrow>
     (\<forall>k claims. json_ok (JObj claims) \<longrightarrow> decode k (encode k claims) = Inr claims \<and>
        encode k claims \<noteq> [] \<and> (\<forall>ch \<in> set (encode k claims). \<not> is_space ch)) \<and>
     (\<forall>now claims e i. map_of claims ''exp'' = Some (JInt e) \<longrightarrow> now < e \<longrightarrow>
        map_of claims ''iat'' = Some (JInt i) \<longrightarrow> i \<le> now \<longrightarrow> map_of claims ''nbf'' = None \<longrightarrow> valid now claims)"

text \<open>A scheme that satisfies the law (an unsigned encoding), for the witnesses.\<close>

definition nibble :: "nat \<Rightarrow> char" where
  "nibble n = char_of (97 + n)"

definition hex_encode :: "string \<Rightarrow> string" where
  "hex_encode s = concat (map (\<lambda>ch. [nibble (code ch div 16), nibble (code ch mod 16)]) s)"

fun hex_decode :: "string \<Rightarrow> string" where
  "hex_decode (a # b # r) = char_of (16 * (code a - 97) + (code b - 97)) # hex_decode r"
| "hex_decode _ = []"

definition plain_encode :: "unit \<Rightarrow> (string \<times> json) list \<Rightarrow> string" where
  "plain_encode k claims = CHR ''t'' # hex_encode (dumps (JObj claims))"

definition plain_decode :: "unit \<Rightarrow> string \<Rightarrow> (string, (string \<times> json) list) result" where
  "plain_decode k t = (case loads (hex_decode (tl t)) of Some (JObj claims) \<Rightarrow> Inr claims | _ \<Rightarrow> Inl ''bad token'')"

lemma code_nibble: "n < 16 \<Longrightarrow> code (nibble n) = 97 + n"
  by (simp add: nibble_def code_def)

lemma hex_decode_encode: "hex_decode (hex_encode s) = s"
proof (induction s)
  case (Cons ch s)
  have "code ch div 16 < 16" using code_less [of ch] by linarith
  moreover have "char_of (code ch) = ch" by (simp add: code_def)
  ultimately show ?case using Cons by (simp add: hex_encode_def code_nibble)
qed (simp add: hex_encode_def)

lemma plain_jwt_law: "jwt_law plain_encode plain_decode (\<lambda>_ _. True)"
proof -
  have nib: "\<not> is_space (nibble n)" if "n < 16" for n
    using that by (simp add: is_space_def Let_def code_nibble)
  have "\<not> is_space ch" if "ch \<in> set (hex_encode s)" for ch s
  proof -
    from that obtain c where "ch = nibble (code c div 16) \<or> ch = nibble (code c mod 16)"
      by (auto simp: hex_encode_def)
    moreover have "code c div 16 < 16" using code_less [of c] by linarith
    ultimately show ?thesis using nib by auto
  qed
  moreover have "\<not> is_space (CHR ''t'')" by (simp add: is_space_def code_def)
  ultimately show ?thesis
    unfolding jwt_law_def
    by (auto simp: plain_encode_def plain_decode_def hex_decode_encode loads_dumps simp del: dumps.simps json_ok.simps)
qed

subsection \<open>Store lemmas\<close>

lemma decode_stored_dumps: "json_ok (JObj d) \<Longrightarrow> decode_stored (Some (dumps (JObj d))) = Inr (Some (JObj d))"
  using loads_dumps [of "JObj d"] by (simp add: decode_stored_def del: json_ok.simps)

lemma keys_distinct [simp]: "client_key a \<noteq> code_key b" "code_key b \<noteq> client_key a"
  "client_key a = client_key a' \<longleftrightarrow> a = a'" "code_key b = code_key b' \<longleftrightarrow> b = b'"
  by (simp_all add: client_key_def code_key_def)

context redis_store
begin

lemma load_client_up: "up s \<Longrightarrow> load_client c s cid = decode_stored (view s (client_key cid))"
  by (simp add: load_client_def get_eq)

lemma register_up:
  assumes "up s"
  obtains s' v where "register_client c s req = (Inr v, s')" "up s'"
    "view s' = (view s)(client_key (cr_client_id req) \<mapsto> dumps (JObj
       [(''client_secret'', JStr (cr_client_secret req)), (''redirect_uri'', JStr (cr_redirect_uri req)),
        (''scope'', JStr (cr_scope req))]))"
proof -
  obtain s' where "rc_set c s (client_key (cr_client_id req)) (dumps (JObj
       [(''client_secret'', JStr (cr_client_secret req)), (''redirect_uri'', JStr (cr_redirect_uri req)),
        (''scope'', JStr (cr_scope req))])) = (Inr (), s')" "up s'"
    "view s' = (view s)(client_key (cr_client_id req) \<mapsto> dumps (JObj
       [(''client_secret'', JStr (cr_client_secret req)), (''redirect_uri'', JStr (cr_redirect_uri req)),
        (''scope'', JStr (cr_scope req))]))"
    by (rule set_eq [OF assms])
  with that show thesis by (simp add: register_client_def store_client_def)
qed

lemma authorize_up:
  assumes "up s" and "decode_stored (view s (client_key cid)) = Inr (Some client)"
  obtains s' where "authorize repr_str c fresh s cid challenge ''S256'' scope user = (Inr fresh, s')" "up s'"
    "view s' = (view s)(code_key fresh \<mapsto> dumps (JObj
       [(''code_challenge'', JStr challenge), (''user_id'', JStr user), (''scope'', JStr scope),
        (''client_id'', JStr cid)]))"
proof -
  obtain s' where "rc_setex c s (code_key fresh) 600 (dumps (JObj
       [(''code_challenge'', JStr challenge), (''user_id'', JStr user), (''scope'', JStr scope),
        (''client_id'', JStr cid)])) = (Inr (), s')" "up s'"
    "view s' = (view s)(code_key fresh \<mapsto> dumps (JObj
       [(''code_challenge'', JStr challenge), (''user_id'', JStr user), (''scope'', JStr scope),
        (''client_id'', JStr cid)]))"
    by (rule setex_eq [OF assms(1)])
  with that assms show thesis by (simp add: authorize_def load_client_up store_code_def)
qed

lemma load_and_delete_up:
  assumes "up s"
  obtains s' where "load_and_delete_code c s k = (decode_stored (view s (code_key k)), s')" "up s'"
    "view s' = (view s)(code_key k := None)"
proof -
  obtain s' where "rc_getdel c s (code_key k) = (Inr (view s (code_key k)), s')" "up s'"
    "view s' = (view s)(code_key k := None)"
    by (rule getdel_eq [OF assms])
  with that show thesis by (simp add: load_and_delete_code_def)
qed

lemma token_code_gone:
  assumes "up s" and "view s (code_key k) = None" and "tr_grant_type req = ''authorization_code''"
    and "tr_code req = Some k"
  shows "\<not> is_ok (fst (token_endpoint c encode digest key part now s req))"
proof -
  obtain s' where "load_and_delete_code c s k = (decode_stored (view s (code_key k)), s')"
    by (rule load_and_delete_up [OF assms(1)])
  then show ?thesis
    using assms(2-)
    by (auto simp: token_endpoint_def exchange_code_def decode_stored_def split: sum.splits option.splits)
qed

end

subsection \<open>The authorization-code flow\<close>

lemma expand_scope_words:
  assumes "w \<in> set (expand_scope scope)"
  shows "w \<noteq> [] \<and> (\<forall>ch \<in> set w. \<not> is_space ch)"
proof -
  obtain v where v: "v \<in> set (py_split scope)" "w \<in> set (scope_expansion v)"
    using assms by (auto simp: expand_scope_def)
  show ?thesis
  proof (cases "v = ''tools:all''")
    case True
    then have "w = ''tools:list'' \<or> w = ''tools:call''" using v(2) by (simp add: scope_expansion_def)
    then show ?thesis by (auto simp: is_space_def code_def)
  next
    case False
    then show ?thesis using v py_split_words [OF v(1)] by (simp add: scope_expansion_def)
  qed
qed

lemma split_granted: "set (py_split (py_join '' '' (sorted_scopes scope))) = set (expand_scope scope)"
  using split_join_space [of "sorted_scopes scope"] expand_scope_words by (simp add: sorted_scopes_def)

lemma verify_bearer:
  assumes "t \<noteq> []" and "\<forall>ch \<in> set t. \<not> is_space ch"
  shows "verify_token decode valid key required optional (Some (''Bearer '' @ t)) =
    (case key of
       Inl _ \<Rightarrow> (if optional then Inr None else Inl (HTTPException 401 ''Invalid token''))
     | Inr k \<Rightarrow>
         (case decode k t of
            Inl _ \<Rightarrow> (if optional then Inr None else Inl (HTTPException 401 ''Invalid token''))
          | Inr claims \<Rightarrow>
              if \<not> valid claims then (if optional then Inr None else Inl (HTTPException 401 ''Invalid token''))
              else if map_of claims ''aud'' \<noteq> Some (JStr ''mcp-server'') then Inl (HTTPException 401 ''Invalid audience'')
              else if required \<notin> set (py_split (case map_of claims ''scope'' of Some (JStr v) \<Rightarrow> v | _ \<Rightarrow> []))
              then Inl (HTTPException 403 ''Insufficient scope'') else Inr (Some claims)))"
proof -
  have "startswith (py_lower (''Bearer '' @ t)) ''bearer ''"
  proof -
    have "py_lower ''Bearer '' = ''bearer ''" by code_simp
    then show ?thesis unfolding startswith_def py_lower_append by simp
  qed
  moreover have "py_strip (tl (dropWhile (\<lambda>ch. ch \<noteq> CHR '' '') (''Bearer '' @ t))) = t"
    using strip_no_space [OF assms(2)] by simp
  ultimately show ?thesis using assms(1) by (simp add: verify_token_def Let_def)
qed






definition token_claims ::
  "('k \<Rightarrow> string \<Rightarrow> (string, (string \<times> json) list) result) \<Rightarrow> ((string \<times> json) list \<Rightarrow> bool)
     \<Rightarrow> (auth_error, 'k) result \<Rightarrow> string \<Rightarrow> string option \<Rightarrow> (string \<times> json) list \<Rightarrow> bool" where
  "token_claims decode valid key required hdr claims \<longleftrightarrow>
     (\<exists>h k t. hdr = Some h \<and> key = Inr k \<and> startswith (py_lower h) ''bearer '' \<and> decode k t = Inr claims
        \<and> valid claims \<and> map_of claims ''aud'' = Some (JStr ''mcp-server'')
        \<and> required \<in> set (py_split (case map_of claims ''scope'' of Some (JStr v) \<Rightarrow> v | _ \<Rightarrow> [])))"

lemma verify_token_claims:
  "verify_token decode valid key required opt hdr = Inr (Some claims) \<Longrightarrow> token_claims decode valid key required hdr claims"
  by (auto simp: token_claims_def verify_token_def Let_def split: option.splits if_splits sum.splits)

text \<open>
  The resource server lets nothing else through: claims are returned only for a Bearer header
  whose token decodes under the configured key to claims that validate, are bound to this
  audience and carry the required scope. With a non-optional dependency every other request is
  answered 401, or 403 exactly when only the scope is missing; optional dependencies return no
  claims instead of a 401 for unauthenticated requests, but still reject wrong audiences.
\<close>

theorem verify_token_sound:
  shows "(verify_token decode valid key required opt hdr = Inr (Some claims) \<longrightarrow>
      token_claims decode valid key required hdr claims)
    \<and> (verify_token decode valid key required opt hdr = Inr None \<longrightarrow> opt)
    \<and> (\<forall>e. verify_token decode valid key required opt hdr = Inl e \<longrightarrow>
         (\<exists>detail. e = HTTPException 401 detail) \<or> e = HTTPException 403 ''Insufficient scope''
           \<and> (\<exists>t k cl. key = Inr k \<and> decode k t = Inr cl \<and> valid cl))"
  by (auto simp: token_claims_def verify_token_def Let_def split: option.splits if_splits sum.splits)

lemma verify_token_sound_witness:
  "verify_token plain_decode (\<lambda>_. True) (Inr ()) ''tools:call'' False (Some ''Bearer tok'') \<noteq> Inr None"
  using verify_token_sound [of plain_decode "\<lambda>_. True" "Inr ()" "''tools:call''" False "Some ''Bearer tok''"]
  by blast

text \<open>
  A user id with a colon passes \<open>/authorize\<close> and makes the exchange raise after the code has been
  consumed.
\<close>

lemma issue_token_bad_user: "colon \<in> set user \<Longrightarrow> issue_token encode key part now scope user = Inl AuthValueError"
  by (simp add: issue_token_def generate_session_id_def)

end
