(* ===== verification/KV_Store.thy ===== *)
theory KV_Store
  imports Redis_Client Json
begin

section \<open>Key-value and session stores (kv/store.py, session/manager.py)\<close>

text \<open>
  \<open>RedisKVStore\<close> namespaces keys as \<open>kv:<topic>:<key>\<close> and keeps the phrases of a topic in a
  Redis set under the key \<open>__phrases__\<close>; \<open>RedisSessionManager\<close> stores JSON objects. The set
  operations and \<open>KEYS\<close> are a second record of client functions; values of the wrong Redis type
  raise, as the server answers WRONGTYPE.
\<close>

datatype kv_error = KvValueError string | KvRedisError redis_error

record 'r set_client =
  st_keys :: "'r \<Rightarrow> string \<Rightarrow> (redis_error, string list) result"
  st_sadd :: "'r \<Rightarrow> string \<Rightarrow> string \<Rightarrow> (redis_error, unit) result \<times> 'r"
  st_sismember :: "'r \<Rightarrow> string \<Rightarrow> string \<Rightarrow> (redis_error, bool) result"
  st_smembers :: "'r \<Rightarrow> string \<Rightarrow> (redis_error, string list) result"

definition kv_prefix :: "string \<Rightarrow> string" where
  "kv_prefix topic = ''kv:'' @ topic @ '':''"

definition kv_key :: "string list \<Rightarrow> string \<Rightarrow> string \<Rightarrow> (kv_error, string) result" where
  "kv_key topics topic key =
     (if topic \<notin> set topics then Inl (KvValueError topic) else Inr (kv_prefix topic @ key))"

definition kv_set ::
  "'r redis_client \<Rightarrow> string list \<Rightarrow> 'r \<Rightarrow> string \<Rightarrow> string \<Rightarrow> json \<Rightarrow> (kv_error, unit) result \<times> 'r" where
  "kv_set c topics s topic key value =
     (case kv_key topics topic key of
        Inl e \<Rightarrow> (Inl e, s)
      | Inr k \<Rightarrow>
          (case rc_set c s k (dumps value) of
             (Inl e, s') \<Rightarrow> (Inl (KvRedisError e), s')
           | (Inr _, s') \<Rightarrow> (Inr (), s')))"

text \<open>\<open>get\<close> returns None for a missing key; JSON text that does not parse raises.\<close>

definition parse_raw :: "string option \<Rightarrow> (kv_error, json option) result" where
  "parse_raw raw =
     (case raw of
        None \<Rightarrow> Inr None
      | Some t \<Rightarrow> (case loads t of None \<Rightarrow> Inl (KvValueError ''json'') | Some v \<Rightarrow> Inr (Some v)))"

definition kv_get ::
  "'r redis_client \<Rightarrow> string list \<Rightarrow> 'r \<Rightarrow> string \<Rightarrow> string \<Rightarrow> (kv_error, json option) result" where
  "kv_get c topics s topic key =
     (case kv_key topics topic key of
        Inl e \<Rightarrow> Inl e
      | Inr k \<Rightarrow>
          (case rc_get c s k of Inl e \<Rightarrow> Inl (KvRedisError e) | Inr raw \<Rightarrow> parse_raw raw))"

definition kv_delete ::
  "'r redis_client \<Rightarrow> string list \<Rightarrow> 'r \<Rightarrow> string \<Rightarrow> string \<Rightarrow> (kv_error, unit) result \<times> 'r" where
  "kv_delete c topics s topic key =
     (case kv_key topics topic key of
        Inl e \<Rightarrow> (Inl e, s)
      | Inr k \<Rightarrow>
          (case rc_delete c s k of
             (Inl e, s') \<Rightarrow> (Inl (KvRedisError e), s')
           | (Inr _, s') \<Rightarrow> (Inr (), s')))"

definition kv_keys ::
  "'r set_client \<Rightarrow> string list \<Rightarrow> 'r \<Rightarrow> string \<Rightarrow> (kv_error, string list) result" where
  "kv_keys c topics s topic =
     (if topic \<notin> set topics then Inl (KvValueError topic)
      else case st_keys c s (kv_prefix topic @ ''*'') of
             Inl e \<Rightarrow> Inl (KvRedisError e)
           | Inr raw_keys \<Rightarrow>
               Inr (map (\<lambda>k. if prefix (kv_prefix topic) k then drop (length (kv_prefix topic)) k else k)
                 (filter (\<lambda>k. k \<noteq> kv_prefix topic @ ''__phrases__'') raw_keys)))"

definition kv_phrase_key :: "string list \<Rightarrow> string \<Rightarrow> (kv_error, string) result" where
  "kv_phrase_key topics topic = kv_key topics topic ''__phrases__''"

definition kv_add_phrase ::
  "'r set_client \<Rightarrow> string list \<Rightarrow> 'r \<Rightarrow> string \<Rightarrow> string \<Rightarrow> (kv_error, unit) result \<times> 'r" where
  "kv_add_phrase c topics s topic phrase =
     (case kv_phrase_key topics topic of
        Inl e \<Rightarrow> (Inl e, s)
      | Inr k \<Rightarrow>
          (case st_sadd c s k phrase of
             (Inl e, s') \<Rightarrow> (Inl (KvRedisError e), s')
           | (Inr _, s') \<Rightarrow> (Inr (), s')))"

definition kv_has_affinity ::
  "'r set_client \<Rightarrow> string list \<Rightarrow> 'r \<Rightarrow> string \<Rightarrow> string \<Rightarrow> (kv_error, bool) result" where
  "kv_has_affinity c topics s topic phrase =
     (case kv_phrase_key topics topic of
        Inl e \<Rightarrow> Inl e
      | Inr k \<Rightarrow> (case st_sismember c s k phrase of Inl e \<Rightarrow> Inl (KvRedisError e) | Inr b \<Rightarrow> Inr b))"

definition kv_phrases ::
  "'r set_client \<Rightarrow> string list \<Rightarrow> 'r \<Rightarrow> string \<Rightarrow> (kv_error, string list) result" where
  "kv_phrases c topics s topic =
     (case kv_phrase_key topics topic of
        Inl e \<Rightarrow> Inl e
      | Inr k \<Rightarrow> (case st_smembers c s k of Inl e \<Rightarrow> Inl (KvRedisError e) | Inr ms \<Rightarrow> Inr (sort ms)))"

subsection \<open>RedisSessionManager\<close>

definition sm_set ::
  "'r redis_client \<Rightarrow> 'r \<Rightarrow> string \<Rightarrow> (string \<times> json) list \<Rightarrow> (kv_error, unit) result \<times> 'r" where
  "sm_set c s key value =
     (case rc_set c s key (dumps (JObj value)) of
        (Inl e, s') \<Rightarrow> (Inl (KvRedisError e), s')
      | (Inr _, s') \<Rightarrow> (Inr (), s'))"

definition sm_get :: "'r redis_client \<Rightarrow> 'r \<Rightarrow> string \<Rightarrow> (kv_error, json option) result" where
  "sm_get c s key = (case rc_get c s key of Inl e \<Rightarrow> Inl (KvRedisError e) | Inr raw \<Rightarrow> parse_raw raw)"

definition sm_delete :: "'r redis_client \<Rightarrow> 'r \<Rightarrow> string \<Rightarrow> (kv_error, unit) result \<times> 'r" where
  "sm_delete c s key =
     (case rc_delete c s key of
        (Inl e, s') \<Rightarrow> (Inl (KvRedisError e), s')
      | (Inr _, s') \<Rightarrow> (Inr (), s'))"

subsection \<open>Round trip and isolation\<close>

lemma kv_key_inject:
  assumes "CHR '':'' \<notin> set topic" and "CHR '':'' \<notin> set topic'"
  shows "kv_prefix topic @ key = kv_prefix topic' @ key' \<longleftrightarrow> topic = topic' \<and> key = key'"
proof
  assume "kv_prefix topic @ key = kv_prefix topic' @ key'"
  then have eq: "topic @ CHR '':'' # key = topic' @ CHR '':'' # key'" by (simp add: kv_prefix_def)
  have "(topic, Some key) = (topic', Some key')"
    using partition_at_hit [OF assms(1), of key] partition_at_hit [OF assms(2), of key'] unfolding eq
    by (rule trans [OF sym])
  then show "topic = topic' \<and> key = key'" by simp
qed simp

context redis_store
begin

lemma kv_set_up:
  assumes "up s" and "topic \<in> set topics"
  obtains s' where "kv_set c topics s topic key v = (Inr (), s')" "up s'"
    "view s' = (view s)(kv_prefix topic @ key \<mapsto> dumps v)"
proof -
  obtain s' where "rc_set c s (kv_prefix topic @ key) (dumps v) = (Inr (), s')" "up s'"
    "view s' = (view s)(kv_prefix topic @ key \<mapsto> dumps v)" by (rule set_eq [OF assms(1)])
  with that assms(2) show thesis by (simp add: kv_set_def kv_key_def)
qed

lemma kv_get_up: "up s \<Longrightarrow> topic \<in> set topics \<Longrightarrow> kv_get c topics s topic key = parse_raw (view s (kv_prefix topic @ key))"
  by (simp add: kv_get_def kv_key_def get_eq)

lemma kv_roundtrip:
  assumes "up s" and "topic \<in> set topics" and "json_ok v" and "kv_set c topics s topic key v = (r, s')"
  shows "kv_get c topics s' topic key = Inr (Some v)"
    and "topic' \<in> set topics \<Longrightarrow> CHR '':'' \<notin> set topic \<Longrightarrow> CHR '':'' \<notin> set topic' \<Longrightarrow>
      (topic', key') \<noteq> (topic, key) \<Longrightarrow> kv_get c topics s' topic' key' = kv_get c topics s topic' key'"
proof -
  obtain s1 where s1: "kv_set c topics s topic key v = (Inr (), s1)" "up s1"
    "view s1 = (view s)(kv_prefix topic @ key \<mapsto> dumps v)" by (rule kv_set_up [OF assms(1,2)])
  have s': "s' = s1" using s1(1) assms(4) by simp
  show "kv_get c topics s' topic key = Inr (Some v)"
    using s1(2,3) assms(2,3) by (simp add: s' kv_get_up parse_raw_def loads_dumps)
  show "kv_get c topics s' topic' key' = kv_get c topics s topic' key'"
    if "topic' \<in> set topics" "CHR '':'' \<notin> set topic" "CHR '':'' \<notin> set topic'" "(topic', key') \<noteq> (topic, key)"
  proof -
    have "kv_prefix topic' @ key' \<noteq> kv_prefix topic @ key"
      using kv_key_inject [OF that(3,2)] that(4) by simp
    then show ?thesis using that(1) assms(1) s1(2,3) by (simp add: s' kv_get_up)
  qed
qed

lemma sm_roundtrip:
  assumes "up s" and "json_ok (JObj v)" and "sm_set c s key v = (r, s')"
  shows "sm_get c s' key = Inr (Some (JObj v)) \<and>
    (\<forall>key'. key' \<noteq> key \<longrightarrow> sm_get c s' key' = sm_get c s key')"
proof -
  obtain s1 where s1: "rc_set c s key (dumps (JObj v)) = (Inr (), s1)" "up s1"
    "view s1 = (view s)(key \<mapsto> dumps (JObj v))" by (rule set_eq [OF assms(1)])
  then have s': "s' = s1" using assms(3) by (simp add: sm_set_def)
  have "parse_raw (Some (dumps (JObj v))) = Inr (Some (JObj v))"
    using loads_dumps [OF assms(2)] by (simp add: parse_raw_def)
  then show ?thesis using s1(2,3) assms(1) by (simp add: s' sm_get_def get_eq del: dumps.simps)
qed

end

text \<open>
  The key-value store returns what was stored: for a registered topic, \<open>get\<close> after \<open>set\<close>
  gives back the JSON value, and if no topic contains a colon every other entry of every topic
  reads as before. (With a colon the namespaces overlap: topic \<open>a\<close> with key \<open>b:c\<close> and topic \<open>a:b\<close>
  with key \<open>c\<close> are one Redis key.)
\<close>

theorem kv_set_get:
  assumes "redis_store c view up" and "up s" and "topic \<in> set topics" and "json_ok v"
    and "kv_set c topics s topic key v = (r, s')"
  shows "kv_get c topics s' topic key = Inr (Some v)
    \<and> ((\<forall>t \<in> set topics. CHR '':'' \<notin> set t) \<longrightarrow>
        (\<forall>topic' key'. topic' \<in> set topics \<and> (topic', key') \<noteq> (topic, key) \<longrightarrow>
           kv_get c topics s' topic' key' = kv_get c topics s topic' key'))
    \<and> kv_key [''a'', ''a:b''] ''a'' ''b:c'' = kv_key [''a'', ''a:b''] ''a:b'' ''c''"
proof -
  have "kv_key [''a'', ''a:b''] ''a'' ''b:c'' = kv_key [''a'', ''a:b''] ''a:b'' ''c''"
    by (simp add: kv_key_def kv_prefix_def)
  with redis_store.kv_roundtrip [OF assms] assms(3) show ?thesis by blast
qed

lemma kv_set_get_witness:
  "kv_get mem_redis [''notes'', ''jobs''] (snd (kv_set mem_redis [''notes'', ''jobs''] (\<lambda>_. None) ''notes'' ''k''
     (JArr [JInt 1, JNull]))) ''notes'' ''k'' = Inr (Some (JArr [JInt 1, JNull]))"
proof -
  obtain r s' where k: "kv_set mem_redis [''notes'', ''jobs''] (\<lambda>_. None) ''notes'' ''k'' (JArr [JInt 1, JNull]) = (r, s')"
    by (metis prod.exhaust)
  from kv_set_get [OF mem.redis_store_axioms TrueI _ _ k] k show ?thesis by simp
qed

end
