(* ===== verification/Stream_Worker.thy ===== *)
theory Stream_Worker
  imports Agent_Models
begin

section \<open>Stream workers (streams/worker.py, streams/fleet\_worker.py)\<close>

text \<open>
  Consumer-group workers over one Redis stream. The stream server is a record of functions on its
  state \<open>'s\<close> (of one stream and group); an exception carries its message. What the workers rely
  on is the locale \<open>stream_group\<close>: a message is undelivered, pending, or acknowledged. The
  in-memory group is the instance the laws are checked on.
\<close>

type_synonym fields = "(string \<times> string) list"

record 's stream_client =
  sx_group_create :: "'s \<Rightarrow> (string, unit) result \<times> 's"
  sx_add :: "'s \<Rightarrow> fields \<Rightarrow> (string, string) result \<times> 's"
  sx_readgroup :: "'s \<Rightarrow> string \<Rightarrow> (string, (string \<times> fields) list) result \<times> 's"
  sx_ack :: "'s \<Rightarrow> string \<Rightarrow> (string, unit) result \<times> 's"
  sx_pending :: "'s \<Rightarrow> nat \<Rightarrow> string list"
  sx_claim :: "'s \<Rightarrow> string \<Rightarrow> int \<Rightarrow> string \<Rightarrow> (string \<times> fields) list \<times> 's"

subsection \<open>StreamWorker\<close>

definition sw_ensure_group :: "'s stream_client \<Rightarrow> 's \<Rightarrow> (string, unit) result \<times> 's" where
  "sw_ensure_group x s =
     (case sx_group_create x s of
        (Inl exc, s') \<Rightarrow> if str_in ''BUSYGROUP'' exc then (Inr (), s') else (Inl exc, s')
      | (Inr _, s') \<Rightarrow> (Inr (), s'))"

definition task_fields :: "agent_task \<Rightarrow> fields" where
  "task_fields task =
     [(''task_id'', at_id task), (''task_name'', at_name task),
      (''task_payload'', dumps (JObj (at_payload task))),
      (''task_capability'', at_required_capability task)]"

definition sw_publish :: "'s stream_client \<Rightarrow> 's \<Rightarrow> agent_task \<Rightarrow> (string, string) result \<times> 's" where
  "sw_publish x s task = sx_add x s (task_fields task)"

definition sw_claim_one ::
  "'s stream_client \<Rightarrow> string \<Rightarrow> 's \<Rightarrow> (string, (string \<times> fields) option) result \<times> 's" where
  "sw_claim_one x consumer s =
     (case sx_readgroup x s consumer of
        (Inl exc, s') \<Rightarrow> (Inl exc, s')
      | (Inr [], s') \<Rightarrow> (Inr None, s')
      | (Inr (m # _), s') \<Rightarrow> (Inr (Some m), s'))"

definition sw_ack :: "'s stream_client \<Rightarrow> 's \<Rightarrow> string \<Rightarrow> (string, unit) result \<times> 's" where
  "sw_ack x s msg_id = sx_ack x s msg_id"

fun sw_reclaim ::
  "'s stream_client \<Rightarrow> string \<Rightarrow> int \<Rightarrow> string list \<Rightarrow> 's \<Rightarrow> (string \<times> fields) list \<times> 's" where
  "sw_reclaim x new_consumer min_idle_ms [] s = ([], s)"
| "sw_reclaim x new_consumer min_idle_ms (msg_id # ids) s =
     (case sx_claim x s new_consumer min_idle_ms msg_id of
        (claimed, s1) \<Rightarrow>
          (case sw_reclaim x new_consumer min_idle_ms ids s1 of (rest, s2) \<Rightarrow> (claimed @ rest, s2)))"

definition sw_recover ::
  "'s stream_client \<Rightarrow> int \<Rightarrow> string \<Rightarrow> 's \<Rightarrow> (string \<times> fields) list \<times> 's" where
  "sw_recover x min_idle_ms new_consumer s =
     sw_reclaim x new_consumer min_idle_ms (sx_pending x s 10) s"

subsection \<open>FleetWorker\<close>

definition job_fields :: "string \<Rightarrow> string \<Rightarrow> (string \<times> json) list \<Rightarrow> fields" where
  "job_fields job_id meth params =
     [(''job_id'', job_id), (''method'', meth), (''params'', dumps (JObj params))]"

definition fw_publish_job ::
  "'s stream_client \<Rightarrow> 's \<Rightarrow> string \<Rightarrow> string \<Rightarrow> (string \<times> json) list \<Rightarrow> (string, string) result \<times> 's" where
  "fw_publish_job x s job_id meth params = sx_add x s (job_fields job_id meth params)"

definition fw_claim_job ::
  "'s stream_client \<Rightarrow> string \<Rightarrow> 's \<Rightarrow> (string, (string \<times> string) option) result \<times> 's" where
  "fw_claim_job x consumer s =
     (case sx_readgroup x s consumer of
        (Inl exc, s') \<Rightarrow> (Inl exc, s')
      | (Inr [], s') \<Rightarrow> (Inr None, s')
      | (Inr ((msg_id, flds) # _), s') \<Rightarrow>
          (Inr (Some (msg_id, case map_of flds ''job_id'' of Some v \<Rightarrow> v | None \<Rightarrow> [])), s'))"

definition fw_ack :: "'s stream_client \<Rightarrow> 's \<Rightarrow> string \<Rightarrow> (string, unit) result \<times> 's" where
  "fw_ack x s msg_id = sx_ack x s msg_id"

subsection \<open>The stream as an interface\<close>

locale stream_group =
  fixes x :: "'s stream_client"
    and queue :: "'s \<Rightarrow> (string \<times> fields) list"
    and pel :: "'s \<Rightarrow> (string \<times> fields) list"
    and acked :: "'s \<Rightarrow> string set"
  assumes create: "sx_group_create x s = (r, s') \<Longrightarrow> queue s' = queue s \<and> pel s' = pel s \<and> acked s' = acked s"
    and add: "sx_add x s f = (Inr i, s') \<Longrightarrow> queue s' = queue s @ [(i, f)] \<and> pel s' = pel s \<and> acked s' = acked s \<and>
      i \<notin> fst ` set (queue s) \<union> fst ` set (pel s) \<union> acked s"
    and add_raised: "sx_add x s f = (Inl e, s') \<Longrightarrow> queue s' = queue s \<and> pel s' = pel s \<and> acked s' = acked s"
    and readgroup: "sx_readgroup x s k = (Inr ms, s') \<Longrightarrow> acked s' = acked s \<and>
      (case queue s of [] \<Rightarrow> ms = [] \<and> queue s' = [] \<and> pel s' = pel s
       | m # q \<Rightarrow> ms = [m] \<and> queue s' = q \<and> pel s' = pel s @ [m])"
    and readgroup_raised: "sx_readgroup x s k = (Inl e, s') \<Longrightarrow> acked s' = acked s \<and>
      set (queue s') \<union> set (pel s') = set (queue s) \<union> set (pel s)"
    and ack: "sx_ack x s i = (Inr (), s') \<Longrightarrow> queue s' = queue s \<and> pel s' = filter (\<lambda>m. fst m \<noteq> i) (pel s) \<and>
      acked s' = (if i \<in> fst ` set (pel s) then insert i (acked s) else acked s)"
    and ack_raised: "sx_ack x s i = (Inl e, s') \<Longrightarrow> queue s' = queue s \<and> pel s' = pel s \<and> acked s' = acked s"
    and pending: "sx_pending x s n = take n (map fst (pel s))"
    and claim: "sx_claim x s k t i = (ms, s') \<Longrightarrow> queue s' = queue s \<and> pel s' = pel s \<and> acked s' = acked s \<and>
      set ms \<subseteq> {m \<in> set (pel s). fst m = i}"

text \<open>Steps of several workers; the ids \<open>Publish\<close> returned are collected.\<close>

datatype stream_op = SPublish agent_task | SClaim string | SAck string | SRecover int string

fun stream_run :: "'s stream_client \<Rightarrow> stream_op list \<Rightarrow> 's \<Rightarrow> string list \<times> 's" where
  "stream_run x [] s = ([], s)"
| "stream_run x (SPublish t # ops) s =
     (case sw_publish x s t of
        (Inl e, s1) \<Rightarrow> stream_run x ops s1
      | (Inr i, s1) \<Rightarrow> (case stream_run x ops s1 of (is, s2) \<Rightarrow> (i # is, s2)))"
| "stream_run x (SClaim k # ops) s = stream_run x ops (snd (sw_claim_one x k s))"
| "stream_run x (SAck i # ops) s = stream_run x ops (snd (sw_ack x s i))"
| "stream_run x (SRecover t k # ops) s = stream_run x ops (snd (sw_recover x t k s))"

definition unsettled :: "('s \<Rightarrow> (string \<times> fields) list) \<Rightarrow> ('s \<Rightarrow> (string \<times> fields) list) \<Rightarrow> 's \<Rightarrow> (string \<times> fields) set" where
  "unsettled queue pel s = set (queue s) \<union> set (pel s)"

context stream_group
begin

lemma reclaim_view:
  assumes "sw_reclaim x k t ids s = (ms, s')"
  shows "queue s' = queue s \<and> pel s' = pel s \<and> acked s' = acked s \<and> set ms \<subseteq> {m \<in> set (pel s). fst m \<in> set ids}"
  using assms
proof (induction ids arbitrary: s ms)
  case (Cons i ids)
  obtain cl s1 where c: "sx_claim x s k t i = (cl, s1)" by (metis prod.exhaust)
  obtain rest where r: "sw_reclaim x k t ids s1 = (rest, s')" "ms = cl @ rest"
    using Cons.prems c by (auto split: prod.splits)
  show ?case using Cons.IH [OF r(1)] claim [OF c] r(2) by auto
qed simp

lemma recover_view:
  assumes "sw_recover x t k s = (ms, s')"
  shows "queue s' = queue s \<and> pel s' = pel s \<and> acked s' = acked s \<and>
    set ms \<subseteq> {m \<in> set (pel s). fst m \<in> set (take 10 (map fst (pel s)))}"
  using reclaim_view assms unfolding sw_recover_def pending by blast

lemma claim_view:
  assumes "sw_claim_one x k s = (r, s')"
  shows "unsettled queue pel s' = unsettled queue pel s \<and> acked s' = acked s"
proof (cases "sx_readgroup x s k")
  case (Pair q s1)
  have s1: "s' = s1"
    using assms Pair by (auto simp: sw_claim_one_def split: sum.splits list.splits)
  show ?thesis
  proof (cases q)
    case (Inl e)
    with readgroup_raised [of s k e s1] Pair s1 show ?thesis by (simp add: unsettled_def)
  next
    case (Inr ms)
    with readgroup [of s k ms s1] Pair s1 show ?thesis by (auto simp: unsettled_def split: list.splits)
  qed
qed

lemma publish_view:
  assumes "sw_publish x s t = (r, s')"
  shows "unsettled queue pel s' = (case r of Inl _ \<Rightarrow> unsettled queue pel s
      | Inr i \<Rightarrow> insert (i, task_fields t) (unsettled queue pel s))"
    and "r = Inr i \<Longrightarrow> i \<notin> fst ` unsettled queue pel s"
proof -
  have a: "sx_add x s (task_fields t) = (r, s')" using assms by (simp add: sw_publish_def)
  show "unsettled queue pel s' = (case r of Inl _ \<Rightarrow> unsettled queue pel s
      | Inr i \<Rightarrow> insert (i, task_fields t) (unsettled queue pel s))"
    using add [of s "task_fields t" _ s'] add_raised [of s "task_fields t" _ s'] a
    by (cases r) (auto simp: unsettled_def)
  show "i \<notin> fst ` unsettled queue pel s" if "r = Inr i"
    using add [of s "task_fields t" i s'] a that by (auto simp: unsettled_def)
qed

lemma ack_view:
  assumes "sx_ack x s i = (r, s')" and "m \<in> unsettled queue pel s" and "fst m \<noteq> i"
  shows "m \<in> unsettled queue pel s'"
  using ack [of s i s'] ack_raised [of s i _ s'] assms by (cases r) (auto simp: unsettled_def)

lemma run_keeps:
  assumes "stream_run x ops s = (ids, s')" and "m \<in> unsettled queue pel s" and "SAck (fst m) \<notin> set ops"
  shows "m \<in> unsettled queue pel s'"
  using assms
proof (induction ops arbitrary: s ids)
  case (Cons op ops)
  show ?case
  proof (cases op)
    case (SPublish t)
    obtain r s1 where p: "sw_publish x s t = (r, s1)" by (metis prod.exhaust)
    have "m \<in> unsettled queue pel s1" using publish_view(1) [OF p] Cons.prems(2) by (auto split: sum.splits)
    moreover obtain ids' where "stream_run x ops s1 = (ids', s')"
      using Cons.prems(1) by (auto simp: SPublish p split: sum.splits prod.splits)
    ultimately show ?thesis using Cons.IH Cons.prems(3) by simp
  next
    case (SClaim k)
    obtain r s1 where p: "sw_claim_one x k s = (r, s1)" by (metis prod.exhaust)
    then show ?thesis using claim_view [OF p] Cons.IH [of s1 ids] Cons.prems by (simp add: SClaim)
  next
    case (SAck i)
    obtain r s1 where p: "sx_ack x s i = (r, s1)" by (metis prod.exhaust)
    have "fst m \<noteq> i" using Cons.prems(3) by (auto simp: SAck)
    then show ?thesis
      using ack_view [OF p] Cons.IH [of s1 ids] Cons.prems by (simp add: SAck sw_ack_def p)
  next
    case (SRecover t k)
    obtain ms s1 where p: "sw_recover x t k s = (ms, s1)" by (metis prod.exhaust)
    then show ?thesis
      using recover_view [OF p] Cons.IH [of s1 ids] Cons.prems by (simp add: SRecover unsettled_def)
  qed
qed simp

lemma published_kept:
  assumes "sw_publish x s t = (Inr i, s1)" and "stream_run x ops s1 = (ids, s')" and "SAck i \<notin> set ops"
  shows "(i, task_fields t) \<in> unsettled queue pel s'"
  using run_keeps [OF assms(2), of "(i, task_fields t)"] publish_view(1) [OF assms(1)] assms(3) by simp

end

subsection \<open>An in-memory group\<close>

record mem_stream =
  ms_next :: nat
  ms_queue :: "(string \<times> fields) list"
  ms_pel :: "(string \<times> fields) list"
  ms_acked :: "string set"

definition ms_init :: mem_stream where
  "ms_init = \<lparr>ms_next = 0, ms_queue = [], ms_pel = [], ms_acked = {}\<rparr>"

definition mem_stream_client :: "mem_stream stream_client" where
  "mem_stream_client =
     \<lparr>sx_group_create = (\<lambda>s. (Inl ''BUSYGROUP Consumer Group name already exists'', s)),
      sx_add = (\<lambda>s f. let i = show_nat (ms_next s)
         in if i \<in> fst ` set (ms_queue s) \<union> fst ` set (ms_pel s) \<union> ms_acked s then (Inl ''id'', s)
            else (Inr i, s\<lparr>ms_next := Suc (ms_next s), ms_queue := ms_queue s @ [(i, f)]\<rparr>)),
      sx_readgroup = (\<lambda>s k. case ms_queue s of [] \<Rightarrow> (Inr [], s)
         | m # q \<Rightarrow> (Inr [m], s\<lparr>ms_queue := q, ms_pel := ms_pel s @ [m]\<rparr>)),
      sx_ack = (\<lambda>s i. (Inr (), s\<lparr>ms_pel := filter (\<lambda>m. fst m \<noteq> i) (ms_pel s),
         ms_acked := (if i \<in> fst ` set (ms_pel s) then insert i (ms_acked s) else ms_acked s)\<rparr>)),
      sx_pending = (\<lambda>s n. take n (map fst (ms_pel s))),
      sx_claim = (\<lambda>s k t i. (filter (\<lambda>m. fst m = i) (ms_pel s), s))\<rparr>"

interpretation mem_group: stream_group mem_stream_client ms_queue ms_pel ms_acked
  by unfold_locales (auto simp: mem_stream_client_def Let_def split: list.splits if_splits)



text \<open>
  \<open>recover\<close> looks at the first ten pending entries only: with more than ten, the eleventh is not
  returned, however long it has been idle.
\<close>

lemma recover_first_ten:
  assumes "distinct (map fst (ms_pel s))" and "10 < length (ms_pel s)"
  shows "ms_pel s ! 10 \<notin> set (fst (sw_recover mem_stream_client t k s))"
proof -
  have "fst (ms_pel s ! 10) \<notin> set (take 10 (map fst (ms_pel s)))"
  proof
    assume "fst (ms_pel s ! 10) \<in> set (take 10 (map fst (ms_pel s)))"
    then obtain i where "i < 10" "map fst (ms_pel s) ! i = map fst (ms_pel s) ! 10"
      using assms(2) by (auto simp: in_set_conv_nth)
    then show False using assms nth_eq_iff_index_eq [OF assms(1), of i 10] by simp
  qed
  moreover obtain ms s' where "sw_recover mem_stream_client t k s = (ms, s')" by (metis prod.exhaust)
  ultimately show ?thesis using mem_group.recover_view [of t k s ms s'] by auto
qed

end
