(* ===== verification/Fleet.thy ===== *)
theory Fleet
  imports Stream_Worker Redis_Client
begin

section \<open>The fleet runtime (gateway/fleet.py)\<close>

text \<open>
  Jobs are JSON records in Redis under \<open>mcp:job:<id>\<close>; the fleet stream carries their ids to the
  workers. The state is the Redis server and the stream. A job is executed by a function on the
  world that answers, raises or times out (\<open>dispatch\<close> together with \<open>wait_for\<close>); job ids and the
  creation time are arguments. Here each claimed job is processed by one \<open>process_job\<close>; the
  tasks and the semaphore that let several run at once are in \<open>Fleet_Pool\<close>. The debug endpoint is not
  modelled.
\<close>

datatype fleet_error = FleetHTTP nat string | FleetRedis redis_error | FleetValueError | FleetRuntime string

record ('r, 's) fleet =
  fl_redis :: 'r
  fl_stream :: 's

record job_status =
  js_job_id :: string
  js_status :: json
  js_result :: "json option"
  js_error :: "json option"

record batch_status =
  bs_batch_id :: string
  bs_total :: nat
  bs_done :: nat
  bs_failed :: nat
  bs_results :: "job_status list"

type_synonym job = "(string \<times> json) list"

definition job_key :: "string \<Rightarrow> string" where
  "job_key job_id = ''mcp:job:'' @ job_id"

definition batch_key :: "string \<Rightarrow> string" where
  "batch_key batch_id = ''mcp:batch:'' @ batch_id"

definition write_job ::
  "'r redis_client \<Rightarrow> ('r, 's) fleet \<Rightarrow> string \<Rightarrow> job \<Rightarrow> (fleet_error, unit) result \<times> ('r, 's) fleet" where
  "write_job c w job_id data =
     (case rc_set c (fl_redis w) (job_key job_id) (dumps (JObj data)) of
        (Inl e, s') \<Rightarrow> (Inl (FleetRedis e), w\<lparr>fl_redis := s'\<rparr>)
      | (Inr _, s') \<Rightarrow> (Inr (), w\<lparr>fl_redis := s'\<rparr>))"

definition read_job ::
  "'r redis_client \<Rightarrow> ('r, 's) fleet \<Rightarrow> string \<Rightarrow> (fleet_error, job option) result" where
  "read_job c w job_id =
     (case rc_get c (fl_redis w) (job_key job_id) of
        Inl e \<Rightarrow> Inl (FleetRedis e)
      | Inr None \<Rightarrow> Inr None
      | Inr (Some raw) \<Rightarrow> (case loads raw of Some (JObj job) \<Rightarrow> Inr (Some job) | _ \<Rightarrow> Inl FleetValueError))"

definition new_job :: "string \<Rightarrow> string \<Rightarrow> job \<Rightarrow> string \<Rightarrow> int \<Rightarrow> job" where
  "new_job job_id meth params now timeout_secs =
     [(''job_id'', JStr job_id), (''method'', JStr meth), (''params'', JObj params),
      (''status'', JStr ''pending''), (''created_at'', JFloat now), (''timeout_secs'', JInt timeout_secs),
      (''result'', JNull), (''error'', JNull)]"

text \<open>Whatever fails while publishing to the stream is logged and swallowed.\<close>

definition submit_one ::
  "'r redis_client \<Rightarrow> 's stream_client \<Rightarrow> int \<Rightarrow> ('r, 's) fleet \<Rightarrow> string \<Rightarrow> string \<Rightarrow> string \<Rightarrow> job
     \<Rightarrow> (fleet_error, string) result \<times> ('r, 's) fleet" where
  "submit_one c x timeout_secs w job_id now meth params =
     (case write_job c w job_id (new_job job_id meth params now timeout_secs) of
        (Inl e, w1) \<Rightarrow> (Inl e, w1)
      | (Inr _, w1) \<Rightarrow>
          (case sw_ensure_group x (fl_stream w1) of
             (Inl _, s1) \<Rightarrow> (Inr job_id, w1\<lparr>fl_stream := s1\<rparr>)
           | (Inr _, s1) \<Rightarrow>
               (case fw_publish_job x s1 job_id meth params of
                  (_, s2) \<Rightarrow> (Inr job_id, w1\<lparr>fl_stream := s2\<rparr>))))"

subsection \<open>Processing\<close>

text \<open>
  \<open>_execute_job\<close>: an error response of the dispatcher becomes an exception. \<open>Inr None\<close> is a
  timeout of \<open>wait_for\<close>.
\<close>

definition execute_job ::
  "(job \<Rightarrow> 'w \<Rightarrow> (string, json option) result \<times> 'w) \<Rightarrow> job \<Rightarrow> 'w \<Rightarrow> (string, json option) result \<times> 'w" where
  "execute_job dispatch job w =
     (case dispatch job w of
        (Inl exc, w') \<Rightarrow> (Inl exc, w')
      | (Inr None, w') \<Rightarrow> (Inr None, w')
      | (Inr (Some resp), w') \<Rightarrow>
          (case jget resp ''error'' of
             Some err \<Rightarrow>
               (Inl (case jget err ''message'' of Some (JStr m) \<Rightarrow> m | _ \<Rightarrow> ''dispatch error''), w')
           | None \<Rightarrow>
               (Inr (Some (case jget resp ''result'' of Some r \<Rightarrow> r | None \<Rightarrow> JObj [])), w')))"

definition timeout_text :: "job \<Rightarrow> string" where
  "timeout_text job =
     ''Job timed out after '' @ (case map_of job ''timeout_secs'' of Some (JInt n) \<Rightarrow> show_int n | _ \<Rightarrow> ''None'')
       @ '' seconds''"

definition finish_job :: "(string, json option) result \<Rightarrow> job \<Rightarrow> job" where
  "finish_job outcome job =
     (case outcome of
        Inr (Some res) \<Rightarrow> AList.update ''result'' res (AList.update ''status'' (JStr ''done'') job)
      | Inr None \<Rightarrow> AList.update ''error'' (JStr (timeout_text job)) (AList.update ''status'' (JStr ''failed'') job)
      | Inl exc \<Rightarrow> AList.update ''error'' (JStr exc) (AList.update ''status'' (JStr ''failed'') job))"

definition process_job ::
  "'r redis_client \<Rightarrow> 's stream_client \<Rightarrow> (job \<Rightarrow> ('r, 's) fleet \<Rightarrow> (string, json option) result \<times> ('r, 's) fleet)
     \<Rightarrow> ('r, 's) fleet \<Rightarrow> string \<Rightarrow> string \<Rightarrow> (fleet_error, unit) result \<times> ('r, 's) fleet" where
  "process_job c x dispatch w msg_id job_id =
     (let ack = (\<lambda>w. case fw_ack x (fl_stream w) msg_id of
                       (Inl exc, s') \<Rightarrow> (Inl (FleetRuntime exc), w\<lparr>fl_stream := s'\<rparr>)
                     | (Inr _, s') \<Rightarrow> (Inr (), w\<lparr>fl_stream := s'\<rparr>))
      in case read_job c w job_id of
           Inl e \<Rightarrow> (Inl e, w)
         | Inr None \<Rightarrow> ack w
         | Inr (Some job) \<Rightarrow>
             (let running = AList.update ''status'' (JStr ''running'') job
              in case write_job c w job_id running of
                   (Inl e, w1) \<Rightarrow> (Inl e, w1)
                 | (Inr _, w1) \<Rightarrow>
                     (case execute_job dispatch running w1 of
                        (outcome, w2) \<Rightarrow>
                          (case write_job c w2 job_id (finish_job outcome running) of
                             (Inl e, w3) \<Rightarrow> (Inl e, w3)
                           | (Inr _, w3) \<Rightarrow> ack w3))))"

text \<open>One turn of the worker loop: claim, then process; exceptions of the claim are logged.\<close>

definition worker_turn ::
  "'r redis_client \<Rightarrow> 's stream_client \<Rightarrow> (job \<Rightarrow> ('r, 's) fleet \<Rightarrow> (string, json option) result \<times> ('r, 's) fleet)
     \<Rightarrow> ('r, 's) fleet \<Rightarrow> ('r, 's) fleet" where
  "worker_turn c x dispatch w =
     (case fw_claim_job x ''worker-0'' (fl_stream w) of
        (Inl _, s1) \<Rightarrow> w\<lparr>fl_stream := s1\<rparr>
      | (Inr None, s1) \<Rightarrow> w\<lparr>fl_stream := s1\<rparr>
      | (Inr (Some (msg_id, job_id)), s1) \<Rightarrow> snd (process_job c x dispatch (w\<lparr>fl_stream := s1\<rparr>) msg_id job_id))"

subsection \<open>Endpoints\<close>

definition submit_job ::
  "'r redis_client \<Rightarrow> 's stream_client \<Rightarrow> int \<Rightarrow> ('r, 's) fleet \<Rightarrow> string \<Rightarrow> string \<Rightarrow> string \<Rightarrow> job
     \<Rightarrow> (fleet_error, job_status) result \<times> ('r, 's) fleet" where
  "submit_job c x timeout_secs w job_id now meth params =
     (case submit_one c x timeout_secs w job_id now meth params of
        (Inl e, w') \<Rightarrow> (Inl e, w')
      | (Inr jid, w') \<Rightarrow>
          (Inr \<lparr>js_job_id = jid, js_status = JStr ''pending'', js_result = None, js_error = None\<rparr>, w'))"

definition status_of_job :: "string \<Rightarrow> job \<Rightarrow> (fleet_error, job_status) result" where
  "status_of_job jid job =
     (case map_of job ''status'' of
        None \<Rightarrow> Inl FleetValueError
      | Some st \<Rightarrow> Inr \<lparr>js_job_id = jid, js_status = st, js_result = map_of job ''result'',
                         js_error = map_of job ''error''\<rparr>)"

definition get_job :: "'r redis_client \<Rightarrow> ('r, 's) fleet \<Rightarrow> string \<Rightarrow> (fleet_error, job_status) result" where
  "get_job c w job_id =
     (case read_job c w job_id of
        Inl e \<Rightarrow> Inl e
      | Inr None \<Rightarrow> Inl (FleetHTTP 404 ''Job not found'')
      | Inr (Some job) \<Rightarrow> status_of_job job_id job)"

text \<open>\<open>submit_batch\<close>: the tasks come with their fresh ids.\<close>

fun submit_all ::
  "'r redis_client \<Rightarrow> 's stream_client \<Rightarrow> int \<Rightarrow> string \<Rightarrow> ('r, 's) fleet \<Rightarrow> (string \<times> string \<times> job) list
     \<Rightarrow> (fleet_error, string list) result \<times> ('r, 's) fleet" where
  "submit_all c x timeout_secs now w [] = (Inr [], w)"
| "submit_all c x timeout_secs now w ((job_id, meth, params) # tasks) =
     (case submit_one c x timeout_secs w job_id now meth params of
        (Inl e, w1) \<Rightarrow> (Inl e, w1)
      | (Inr jid, w1) \<Rightarrow>
          (case submit_all c x timeout_secs now w1 tasks of
             (Inl e, w2) \<Rightarrow> (Inl e, w2)
           | (Inr jids, w2) \<Rightarrow> (Inr (jid # jids), w2)))"

definition submit_batch ::
  "'r redis_client \<Rightarrow> 's stream_client \<Rightarrow> int \<Rightarrow> ('r, 's) fleet \<Rightarrow> string \<Rightarrow> string \<Rightarrow> (string \<times> string \<times> job) list
     \<Rightarrow> (fleet_error, string \<times> string list) result \<times> ('r, 's) fleet" where
  "submit_batch c x timeout_secs w batch_id now tasks =
     (case submit_all c x timeout_secs now w tasks of
        (Inl e, w1) \<Rightarrow> (Inl e, w1)
      | (Inr jids, w1) \<Rightarrow>
          (case rc_set c (fl_redis w1) (batch_key batch_id) (dumps (JArr (map JStr jids))) of
             (Inl e, s') \<Rightarrow> (Inl (FleetRedis e), w1\<lparr>fl_redis := s'\<rparr>)
           | (Inr _, s') \<Rightarrow> (Inr (batch_id, jids), w1\<lparr>fl_redis := s'\<rparr>)))"

definition batch_entry :: "'r redis_client \<Rightarrow> ('r, 's) fleet \<Rightarrow> string \<Rightarrow> (fleet_error, job_status) result" where
  "batch_entry c w jid =
     (case read_job c w jid of
        Inl e \<Rightarrow> Inl e
      | Inr None \<Rightarrow> Inr \<lparr>js_job_id = jid, js_status = JStr ''failed'', js_result = None,
                         js_error = Some (JStr ''job record missing'')\<rparr>
      | Inr (Some job) \<Rightarrow> status_of_job jid job)"

text \<open>The loop over the job ids with its two counters.\<close>

fun batch_loop ::
  "'r redis_client \<Rightarrow> ('r, 's) fleet \<Rightarrow> string list \<Rightarrow> nat \<Rightarrow> nat \<Rightarrow> job_status list
     \<Rightarrow> (fleet_error, nat \<times> nat \<times> job_status list) result" where
  "batch_loop c w [] done_count failed_count results = Inr (done_count, failed_count, results)"
| "batch_loop c w (jid # jids) done_count failed_count results =
     (case batch_entry c w jid of
        Inl e \<Rightarrow> Inl e
      | Inr status \<Rightarrow>
          batch_loop c w jids
            (if js_status status = JStr ''done'' then done_count + 1 else done_count)
            (if js_status status = JStr ''done'' then failed_count
             else if js_status status = JStr ''failed'' then failed_count + 1 else failed_count)
            (results @ [status]))"

definition get_batch :: "'r redis_client \<Rightarrow> ('r, 's) fleet \<Rightarrow> string \<Rightarrow> (fleet_error, batch_status) result" where
  "get_batch c w batch_id =
     (case rc_get c (fl_redis w) (batch_key batch_id) of
        Inl e \<Rightarrow> Inl (FleetRedis e)
      | Inr None \<Rightarrow> Inl (FleetHTTP 404 ''Batch not found'')
      | Inr (Some raw) \<Rightarrow>
          (case loads raw of
             Some (JArr ids) \<Rightarrow>
               (let job_ids = map (\<lambda>v. case v of JStr j \<Rightarrow> j | _ \<Rightarrow> []) ids
                in case batch_loop c w job_ids 0 0 [] of
                     Inl e \<Rightarrow> Inl e
                   | Inr (d, f, results) \<Rightarrow>
                       Inr \<lparr>bs_batch_id = batch_id, bs_total = length job_ids, bs_done = d,
                            bs_failed = f, bs_results = results\<rparr>)
           | _ \<Rightarrow> Inl FleetValueError))"


subsection \<open>The life of a job\<close>

lemma job_batch_keys [simp]: "job_key a \<noteq> batch_key b" "job_key a = job_key a' \<longleftrightarrow> a = a'"
  by (simp_all add: job_key_def batch_key_def)

definition job_ok :: "job \<Rightarrow> bool" where
  "job_ok job \<longleftrightarrow> json_ok (JObj job)"

lemma job_ok_update [intro]:
  assumes "job_ok job" and "json_ok v"
  shows "job_ok (AList.update k v job)"
proof -
  have "\<forall>kv \<in> set d. json_ok (snd kv) \<Longrightarrow> \<forall>kv \<in> set (AList.update k v d). json_ok (snd kv)" for d
    using assms(2) by (induction d) auto
  then show ?thesis using assms(1) by (auto simp: job_ok_def distinct_update)
qed

lemma new_job_ok: "json_ok (JObj params) \<Longrightarrow> json_ok (JFloat now) \<Longrightarrow> job_ok (new_job j m params now t)"
  by (simp add: job_ok_def new_job_def)

definition outcome_ok :: "(string, json option) result \<Rightarrow> bool" where
  "outcome_ok r = (case r of Inr (Some v) \<Rightarrow> json_ok v | _ \<Rightarrow> True)"

lemma finish_job_ok: "job_ok job \<Longrightarrow> outcome_ok r \<Longrightarrow> job_ok (finish_job r job)"
  by (auto simp: finish_job_def outcome_ok_def intro!: job_ok_update split: sum.splits option.splits)

lemma finish_job_status:
  "map_of (finish_job r job) ''status'' = Some (JStr (case r of Inr (Some _) \<Rightarrow> ''done'' | _ \<Rightarrow> ''failed''))"
  "r = Inr (Some v) \<Longrightarrow> map_of (finish_job r job) ''result'' = Some v"
  "r = Inl exc \<Longrightarrow> map_of (finish_job r job) ''error'' = Some (JStr exc)"
  "r = Inr None \<Longrightarrow> map_of (finish_job r job) ''error'' = Some (JStr (timeout_text job))"
  by (simp_all add: finish_job_def split: sum.splits option.splits)

context redis_store
begin

lemma write_job_up:
  assumes "up (fl_redis w)"
  obtains w' where "write_job c w jid job = (Inr (), w')" "up (fl_redis w')" "fl_stream w' = fl_stream w"
    "view (fl_redis w') = (view (fl_redis w))(job_key jid \<mapsto> dumps (JObj job))"
proof -
  obtain s' where "rc_set c (fl_redis w) (job_key jid) (dumps (JObj job)) = (Inr (), s')" "up s'"
    "view s' = (view (fl_redis w))(job_key jid \<mapsto> dumps (JObj job))" by (rule set_eq [OF assms])
  with that [of "w\<lparr>fl_redis := s'\<rparr>"] show thesis by (simp add: write_job_def del: dumps.simps)
qed

lemma read_job_up:
  assumes "up (fl_redis w)" and "view (fl_redis w) (job_key jid) = Some (dumps (JObj job))" and "job_ok job"
  shows "read_job c w jid = Inr (Some job)"
  using assms loads_dumps [of "JObj job"] by (simp add: read_job_def get_eq job_ok_def del: dumps.simps)

lemma process_job_up:
  assumes "up (fl_redis w)" and "view (fl_redis w) (job_key jid) = Some (dumps (JObj job))" and "job_ok job"
    and "\<And>w'. up (fl_redis w') \<Longrightarrow> up (fl_redis (snd (execute_job dispatch (AList.update ''status'' (JStr ''running'') job) w')))"
    and "\<And>w'. outcome_ok (fst (execute_job dispatch (AList.update ''status'' (JStr ''running'') job) w'))"
    and "process_job c x dispatch w i jid = (r, w')"
  shows "\<exists>w1 outcome w2 q s3. execute_job dispatch (AList.update ''status'' (JStr ''running'') job) w1 = (outcome, w2)
    \<and> view (fl_redis w1) (job_key jid) = Some (dumps (JObj (AList.update ''status'' (JStr ''running'') job)))
    \<and> fl_stream w1 = fl_stream w
    \<and> get_job c w' jid = status_of_job jid (finish_job outcome (AList.update ''status'' (JStr ''running'') job))
    \<and> fw_ack x (fl_stream w2) i = (q, s3) \<and> fl_stream w' = s3"
proof -
  let ?run = "AList.update ''status'' (JStr ''running'') job"
  obtain w1 where w1: "write_job c w jid ?run = (Inr (), w1)" "up (fl_redis w1)" "fl_stream w1 = fl_stream w"
    "view (fl_redis w1) = (view (fl_redis w))(job_key jid \<mapsto> dumps (JObj ?run))"
    by (rule write_job_up [OF assms(1)])
  obtain outcome w2 where e: "execute_job dispatch ?run w1 = (outcome, w2)" by (metis prod.exhaust)
  have up2: "up (fl_redis w2)" "outcome_ok outcome" using assms(4) [OF w1(2)] assms(5) [of w1] e by auto
  let ?fin = "finish_job outcome ?run"
  obtain w3 where w3: "write_job c w2 jid ?fin = (Inr (), w3)" "up (fl_redis w3)" "fl_stream w3 = fl_stream w2"
    "view (fl_redis w3) = (view (fl_redis w2))(job_key jid \<mapsto> dumps (JObj ?fin))"
    by (rule write_job_up [OF up2(1)])
  obtain q s3 where a: "fw_ack x (fl_stream w2) i = (q, s3)" by (metis prod.exhaust)
  have w': "w' = w3\<lparr>fl_stream := s3\<rparr>"
    using assms(6) read_job_up [OF assms(1-3)] w1(1) e w3(1,3) a
    by (auto simp: process_job_def Let_def split: sum.splits)
  have "job_ok ?fin" using assms(3) up2(2) by (intro finish_job_ok job_ok_update) simp_all
  then have "read_job c w' jid = Inr (Some ?fin)" using w3(2,4) by (intro read_job_up) (simp_all add: w')
  then have "get_job c w' jid = status_of_job jid ?fin" by (simp add: get_job_def)
  with w1 e a w' show ?thesis by (intro exI [of _ w1] exI [of _ outcome] exI [of _ w2] exI [of _ q] exI [of _ s3]) simp
qed

lemma submit_one_up:
  assumes "up (fl_redis w)"
  obtains w' where "submit_one c x t w jid now m params = (Inr jid, w')" "up (fl_redis w')"
    "view (fl_redis w') = (view (fl_redis w))(job_key jid \<mapsto> dumps (JObj (new_job jid m params now t)))"
proof -
  obtain w1 where w1: "write_job c w jid (new_job jid m params now t) = (Inr (), w1)" "up (fl_redis w1)"
    "fl_stream w1 = fl_stream w"
    "view (fl_redis w1) = (view (fl_redis w))(job_key jid \<mapsto> dumps (JObj (new_job jid m params now t)))"
    by (rule write_job_up [OF assms])
  obtain r s1 where e: "sw_ensure_group x (fl_stream w1) = (r, s1)" by (metis prod.exhaust)
  obtain q s2 where p: "fw_publish_job x s1 jid m params = (q, s2)" by (metis prod.exhaust)
  show thesis
  proof (cases r)
    case (Inl exc)
    then show thesis using that [of "w1\<lparr>fl_stream := s1\<rparr>"] w1 e by (simp add: submit_one_def)
  next
    case (Inr u)
    then show thesis using that [of "w1\<lparr>fl_stream := s2\<rparr>"] w1 e p by (simp add: submit_one_def)
  qed
qed

end

lemma job_life:
  assumes "redis_store c view up" and "up (fl_redis w)"
    and "json_ok (JObj params)" and "json_ok (JFloat now)"
    and "\<And>w'. up (fl_redis w') \<Longrightarrow>
           up (fl_redis (snd (execute_job dispatch (AList.update ''status'' (JStr ''running'') (new_job jid meth params now limit)) w')))"
    and "\<And>w'. outcome_ok (fst (execute_job dispatch (AList.update ''status'' (JStr ''running'') (new_job jid meth params now limit)) w'))"
    and "submit_job c x limit w jid now meth params = (answer, w0)"
    and "process_job c x dispatch w0 i jid = (r, w')"
  shows "get_job c w0 jid = Inr \<lparr>js_job_id = jid, js_status = JStr ''pending'', js_result = Some JNull, js_error = Some JNull\<rparr>
    \<and> (\<exists>w1 outcome w2 status. map_of (obj_items (the (loads (the (view (fl_redis w1) (job_key jid)))))) ''status'' = Some (JStr ''running'')
        \<and> execute_job dispatch (AList.update ''status'' (JStr ''running'') (new_job jid meth params now limit)) w1 = (outcome, w2)
        \<and> fl_stream w1 = fl_stream w0 \<and> get_job c w' jid = Inr status \<and> snd (fw_ack x (fl_stream w2) i) = fl_stream w'
        \<and> (case outcome of
             Inr (Some v) \<Rightarrow> js_status status = JStr ''done'' \<and> js_result status = Some v
           | Inr None \<Rightarrow> js_status status = JStr ''failed''
               \<and> js_error status = Some (JStr (''Job timed out after '' @ show_int limit @ '' seconds''))
           | Inl exc \<Rightarrow> js_status status = JStr ''failed'' \<and> js_error status = Some (JStr exc)))"
proof -
  let ?job = "new_job jid meth params now limit"
  let ?run = "AList.update ''status'' (JStr ''running'') ?job"
  have ok: "job_ok ?job" by (rule new_job_ok [OF assms(3,4)])
  have okr: "job_ok ?run" using ok by (rule job_ok_update) simp
  obtain w0' where w0': "submit_one c x limit w jid now meth params = (Inr jid, w0')" "up (fl_redis w0')"
    "view (fl_redis w0') = (view (fl_redis w))(job_key jid \<mapsto> dumps (JObj ?job))"
    by (rule redis_store.submit_one_up [OF assms(1,2)])
  have w0: "w0' = w0" using w0'(1) assms(7) by (simp add: submit_job_def)
  have stored: "view (fl_redis w0) (job_key jid) = Some (dumps (JObj ?job))" using w0'(3) by (simp add: w0 del: dumps.simps)
  have up0: "up (fl_redis w0)" using w0'(2) by (simp add: w0)
  have "read_job c w0 jid = Inr (Some ?job)" by (rule redis_store.read_job_up [OF assms(1) up0 stored ok])
  then have pend: "get_job c w0 jid = Inr \<lparr>js_job_id = jid, js_status = JStr ''pending'', js_result = Some JNull, js_error = Some JNull\<rparr>"
    by (simp add: get_job_def status_of_job_def new_job_def)
  obtain w1 outcome w2 q s3 where p: "execute_job dispatch ?run w1 = (outcome, w2)"
      "view (fl_redis w1) (job_key jid) = Some (dumps (JObj ?run))"
      "fl_stream w1 = fl_stream w0" "get_job c w' jid = status_of_job jid (finish_job outcome ?run)"
      "fw_ack x (fl_stream w2) i = (q, s3)" "fl_stream w' = s3"
    using redis_store.process_job_up [OF assms(1) up0 stored ok assms(5,6,8)] by blast
  have running: "map_of (obj_items (the (loads (the (view (fl_redis w1) (job_key jid)))))) ''status'' = Some (JStr ''running'')"
    using loads_dumps [of "JObj ?run"] okr by (simp add: p(2) job_ok_def del: dumps.simps)
  have limit: "timeout_text ?run = ''Job timed out after '' @ show_int limit @ '' seconds''"
    by (simp add: timeout_text_def) (simp add: new_job_def)
  let ?st = "\<lparr>js_job_id = jid, js_status = JStr (case outcome of Inr (Some _) \<Rightarrow> ''done'' | _ \<Rightarrow> ''failed''),
      js_result = map_of (finish_job outcome ?run) ''result'', js_error = map_of (finish_job outcome ?run) ''error''\<rparr>"
  have st: "get_job c w' jid = Inr ?st" by (simp add: p(4) status_of_job_def finish_job_status(1))
  have "case outcome of
      Inr (Some v) \<Rightarrow> js_status ?st = JStr ''done'' \<and> js_result ?st = Some v
    | Inr None \<Rightarrow> js_status ?st = JStr ''failed'' \<and> js_error ?st = Some (JStr (''Job timed out after '' @ show_int limit @ '' seconds''))
    | Inl exc \<Rightarrow> js_status ?st = JStr ''failed'' \<and> js_error ?st = Some (JStr exc)"
    using limit finish_job_status(2) [of outcome _ ?run] finish_job_status(3) [of outcome _ ?run]
      finish_job_status(4) [of outcome ?run]
    by (auto split: sum.splits option.splits)
  with pend running p(1,3,5,6) st show ?thesis
    by (intro conjI exI [of _ w1] exI [of _ outcome] exI [of _ w2] exI [of _ ?st]) simp_all
qed



text \<open>
  A job can be lost without a trace: whatever the stream raises while the group is ensured or
  the message is added, the submission is answered \<open>pending\<close>; nothing is queued, no worker
  turn on the empty stream changes the record, and polling answers \<open>pending\<close> for ever.
\<close>

theorem fleet_publish_failure_loses_job:
  assumes "redis_store c view up" and "up (fl_redis w)" and "json_ok (JObj params)" and "json_ok (JFloat now)"
    and "\<And>s. sx_group_create x s = (Inr (), s)" and "\<And>s f. sx_add x s f = (Inl ''OOM'', s)"
    and "\<And>s k. sx_readgroup x s k = (Inr [], s)"
    and "submit_job c x limit w jid now meth params = (answer, w0)"
  shows "\<exists>st. answer = Inr st \<and> js_status st = JStr ''pending''
    \<and> (\<exists>st'. get_job c ((worker_turn c x dispatch ^^ n) w0) jid = Inr st' \<and> js_status st' = JStr ''pending'')"
proof -
  let ?job = "new_job jid meth params now limit"
  obtain w0' where w0': "submit_one c x limit w jid now meth params = (Inr jid, w0')" "up (fl_redis w0')"
    "view (fl_redis w0') = (view (fl_redis w))(job_key jid \<mapsto> dumps (JObj ?job))"
    by (rule redis_store.submit_one_up [OF assms(1,2)])
  have w0: "w0' = w0" and ans: "\<exists>st. answer = Inr st \<and> js_status st = JStr ''pending''"
    using w0'(1) assms(8) by (auto simp: submit_job_def)
  have idle: "(worker_turn c x dispatch ^^ n) w0 = w0"
    by (induction n) (simp_all add: worker_turn_def fw_claim_job_def assms(7))
  have "read_job c w0 jid = Inr (Some ?job)"
    using w0'(2,3) new_job_ok [OF assms(3,4)]
    by (intro redis_store.read_job_up [OF assms(1)]) (simp_all add: w0 del: dumps.simps)
  then have "get_job c w0 jid = Inr \<lparr>js_job_id = jid, js_status = JStr ''pending'', js_result = Some JNull, js_error = Some JNull\<rparr>"
    by (simp add: get_job_def status_of_job_def new_job_def)
  with ans idle show ?thesis by auto
qed

definition full_stream_client :: "unit stream_client" where
  "full_stream_client =
     \<lparr>sx_group_create = (\<lambda>s. (Inr (), s)), sx_add = (\<lambda>s f. (Inl ''OOM'', s)), sx_readgroup = (\<lambda>s k. (Inr [], s)),
      sx_ack = (\<lambda>s i. (Inr (), s)), sx_pending = (\<lambda>s n. []), sx_claim = (\<lambda>s k t i. ([], s))\<rparr>"

lemma fleet_publish_failure_loses_job_witness:
  "\<exists>st. fst (submit_job mem_redis full_stream_client 300 \<lparr>fl_redis = (\<lambda>_. None), fl_stream = ()\<rparr> ''j1'' ''1.5'' ''tools/call'' [])
     = Inr st \<and> js_status st = JStr ''pending''"
proof -
  obtain answer w0 where s: "submit_job mem_redis full_stream_client 300 \<lparr>fl_redis = (\<lambda>_. None), fl_stream = ()\<rparr>
      ''j1'' ''1.5'' ''tools/call'' [] = (answer, w0)" by (metis prod.exhaust)
  have ok: "json_ok (JObj [])" "json_ok (JFloat ''1.5'')" by (simp, code_simp)
  have x: "sx_group_create full_stream_client t = (Inr (), t)" "sx_add full_stream_client t f = (Inl ''OOM'', t)"
    "sx_readgroup full_stream_client t k = (Inr [], t)" for t f k by (simp_all add: full_stream_client_def)
  obtain st where "answer = Inr st" "js_status st = JStr ''pending''"
    using fleet_publish_failure_loses_job [OF mem.redis_store_axioms TrueI ok x s] by blast
  then show ?thesis using s by simp
qed

subsection \<open>Batches\<close>

lemma batch_loop_counts:
  assumes "batch_loop c w jids d f res = Inr (d', f', res')"
  shows "\<exists>sts. res' = res @ sts \<and> length sts = length jids
    \<and> (\<forall>i < length jids. batch_entry c w (jids ! i) = Inr (sts ! i))
    \<and> d' = d + length (filter (\<lambda>s. js_status s = JStr ''done'') sts)
    \<and> f' = f + length (filter (\<lambda>s. js_status s = JStr ''failed'') sts)"
  using assms
proof (induction jids arbitrary: d f res)
  case (Cons j js)
  obtain st where st: "batch_entry c w j = Inr st" using Cons.prems by (auto split: sum.splits)
  have rec: "batch_loop c w js (if js_status st = JStr ''done'' then d + 1 else d)
      (if js_status st = JStr ''done'' then f else if js_status st = JStr ''failed'' then f + 1 else f) (res @ [st])
      = Inr (d', f', res')"
    using Cons.prems st by simp
  obtain sts where sts: "res' = (res @ [st]) @ sts" "length sts = length js"
      "\<forall>i < length js. batch_entry c w (js ! i) = Inr (sts ! i)"
      "d' = (if js_status st = JStr ''done'' then d + 1 else d) + length (filter (\<lambda>s. js_status s = JStr ''done'') sts)"
      "f' = (if js_status st = JStr ''done'' then f else if js_status st = JStr ''failed'' then f + 1 else f) +
        length (filter (\<lambda>s. js_status s = JStr ''failed'') sts)"
    using Cons.IH [of "if js_status st = JStr ''done'' then d + 1 else d"
        "if js_status st = JStr ''done'' then f else if js_status st = JStr ''failed'' then f + 1 else f" "res @ [st]"] rec
    by blast
  have "\<forall>i < length (j # js). batch_entry c w ((j # js) ! i) = Inr ((st # sts) ! i)"
    using sts(3) st by (auto simp: nth_Cons split: nat.splits)
  with sts show ?case by (intro exI [of _ "st # sts"]) auto
qed simp

end
