(* ===== verification/Pattern.thy ===== *)
theory Pattern
  imports Py_String
begin

section \<open>The regular expressions of the sources (module \<open>re\<close>)\<close>

text \<open>
  The fragment of Python's \<open>re\<close> the sources use: classes of characters, bounded and unbounded
  greedy or lazy repetition of a class, sequence, alternation and the word boundary. A position
  is the character before it (if any) and the rest of the text; \<open>ms r p\<close> lists the positions at
  which a match of \<open>r\<close> that starts at \<open>p\<close> can end, in the order in which the backtracking
  engine tries them, so that its head is the match \<open>re\<close> reports.
\<close>

datatype regex =
    Cls "char \<Rightarrow> bool"
  | Rep nat "nat option" bool "char \<Rightarrow> bool"
  | Seq regex regex
  | Alt regex regex
  | WordB
  | Eps

type_synonym pos = "char option \<times> string"

definition at_word :: "char option \<Rightarrow> bool" where
  "at_word c = (case c of None \<Rightarrow> False | Some c \<Rightarrow> is_word c)"

definition next_char :: "string \<Rightarrow> char option" where
  "next_char s = (case s of [] \<Rightarrow> None | c # _ \<Rightarrow> Some c)"

text \<open>\<open>lo\<close> and \<open>hi\<close> count what is still required and allowed.\<close>

fun rep_ms :: "bool \<Rightarrow> (char \<Rightarrow> bool) \<Rightarrow> nat \<Rightarrow> nat option \<Rightarrow> char option \<Rightarrow> string \<Rightarrow> pos list" where
  "rep_ms greedy p lo hi prev [] = (if lo = 0 then [(prev, [])] else [])"
| "rep_ms greedy p lo hi prev (c # cs) =
     (let here = (if lo = 0 then [(prev, c # cs)] else []);
          further = (if hi \<noteq> Some 0 \<and> p c
                     then rep_ms greedy p (lo - 1) (map_option (\<lambda>h. h - 1) hi) (Some c) cs else [])
      in if greedy then further @ here else here @ further)"

fun ms :: "regex \<Rightarrow> pos \<Rightarrow> pos list" where
  "ms (Cls p) (prev, s) = (case s of [] \<Rightarrow> [] | c # cs \<Rightarrow> if p c then [(Some c, cs)] else [])"
| "ms (Rep lo hi greedy p) (prev, s) = rep_ms greedy p lo hi prev s"
| "ms (Seq a b) pos = concat (map (ms b) (ms a pos))"
| "ms (Alt a b) pos = ms a pos @ ms b pos"
| "ms WordB (prev, s) = (if at_word prev \<noteq> at_word (next_char s) then [(prev, s)] else [])"
| "ms Eps pos = [pos]"

text \<open>\<open>re.search\<close> as a test, and \<open>re.match\<close> (anchored at the start).\<close>

fun found_from :: "regex \<Rightarrow> char option \<Rightarrow> string \<Rightarrow> bool" where
  "found_from r prev [] = (ms r (prev, []) \<noteq> [])"
| "found_from r prev (c # cs) = (ms r (prev, c # cs) \<noteq> [] \<or> found_from r (Some c) cs)"

definition re_found :: "regex \<Rightarrow> string \<Rightarrow> bool" where
  "re_found r s = found_from r None s"

definition re_match :: "regex \<Rightarrow> string \<Rightarrow> bool" where
  "re_match r s = (ms r (None, s) \<noteq> [])"

text \<open>
  \<open>re.findall\<close> and \<open>re.sub\<close> scan for the leftmost match, take its preferred end and go on
  behind it. No pattern used with them matches the empty text; an empty match is skipped.
\<close>

function scan :: "regex \<Rightarrow> char option \<Rightarrow> string \<Rightarrow> (string + char) list" where
  "scan r prev [] = []"
| "scan r prev (c # cs) =
     (case ms r (prev, c # cs) of
        (prev', rest) # _ \<Rightarrow>
          (if length rest < length (c # cs)
           then Inl (take (length (c # cs) - length rest) (c # cs)) # scan r prev' rest
           else Inr c # scan r (Some c) cs)
      | [] \<Rightarrow> Inr c # scan r (Some c) cs)"
  by pat_completeness auto
termination by (relation "measure (\<lambda>(r, prev, s). length s)") auto

definition re_findall :: "regex \<Rightarrow> string \<Rightarrow> string list" where
  "re_findall r s = concat (map (\<lambda>x. case x of Inl m \<Rightarrow> [m] | Inr _ \<Rightarrow> []) (scan r None s))"

definition re_sub :: "regex \<Rightarrow> string \<Rightarrow> string \<Rightarrow> string" where
  "re_sub r new s = concat (map (\<lambda>x. case x of Inl _ \<Rightarrow> new | Inr c \<Rightarrow> [c]) (scan r None s))"

text \<open>The text of the leftmost match.\<close>

definition re_search :: "regex \<Rightarrow> string \<Rightarrow> string option" where
  "re_search r s = (case re_findall r s of [] \<Rightarrow> None | m # _ \<Rightarrow> Some m)"

text \<open>A literal text as a pattern.\<close>

fun Lit :: "string \<Rightarrow> regex" where
  "Lit [] = Eps"
| "Lit [c] = Cls (\<lambda>x. x = c)"
| "Lit (c # d # cs) = Seq (Cls (\<lambda>x. x = c)) (Lit (d # cs))"

abbreviation Star :: "(char \<Rightarrow> bool) \<Rightarrow> regex" where "Star \<equiv> Rep 0 None True"
abbreviation Plus :: "(char \<Rightarrow> bool) \<Rightarrow> regex" where "Plus \<equiv> Rep 1 None True"

fun seqs :: "regex list \<Rightarrow> regex" where
  "seqs [] = Eps"
| "seqs [r] = r"
| "seqs (r # s # rs) = Seq r (seqs (s # rs))"

subsection \<open>Matches and texts\<close>

definition last_char :: "char option \<Rightarrow> string \<Rightarrow> char option" where
  "last_char prev m = (if m = [] then prev else Some (last m))"

lemma last_char_simps [simp]: "last_char prev [] = prev" "last_char prev (c # m) = last_char (Some c) m"
  "last_char prev (m @ n) = last_char (last_char prev m) n"
  by (simp_all add: last_char_def)

text \<open>What a pattern matches, by the text consumed.\<close>

lemma rep_ms_iff:
  "q \<in> set (rep_ms g p lo hi prev s) \<longleftrightarrow>
     (\<exists>m rest. s = m @ rest \<and> q = (last_char prev m, rest) \<and> (\<forall>c \<in> set m. p c)
        \<and> lo \<le> length m \<and> (case hi of None \<Rightarrow> True | Some h \<Rightarrow> length m \<le> h))"
proof (induction g p lo hi prev s rule: rep_ms.induct)
  case (1 greedy p lo hi prev)
  then show ?case by (auto split: option.splits)
next
  case (2 greedy p lo hi prev c cs)
  let ?rhs = "\<exists>m rest. c # cs = m @ rest \<and> q = (last_char prev m, rest) \<and> (\<forall>c \<in> set m. p c)
        \<and> lo \<le> length m \<and> (case hi of None \<Rightarrow> True | Some h \<Rightarrow> length m \<le> h)"
  have "?rhs \<longleftrightarrow> (lo = 0 \<and> q = (prev, c # cs)) \<or>
      (hi \<noteq> Some 0 \<and> p c \<and> (\<exists>m rest. cs = m @ rest \<and> q = (last_char (Some c) m, rest) \<and> (\<forall>c \<in> set m. p c)
        \<and> lo - 1 \<le> length m \<and> (case map_option (\<lambda>h. h - 1) hi of None \<Rightarrow> True | Some h \<Rightarrow> length m \<le> h)))"
    (is "_ \<longleftrightarrow> ?now \<or> ?more")
  proof
    assume ?rhs
    then obtain m rest where m: "c # cs = m @ rest" "q = (last_char prev m, rest)" "\<forall>c \<in> set m. p c"
      "lo \<le> length m" "case hi of None \<Rightarrow> True | Some h \<Rightarrow> length m \<le> h" by blast
    show "?now \<or> ?more"
    proof (cases m)
      case Nil
      with m show ?thesis by auto
    next
      case (Cons d m')
      with m have ?more by (intro conjI exI [of _ m'] exI [of _ rest]) (auto split: option.splits)
      then show ?thesis ..
    qed
  next
    assume "?now \<or> ?more"
    then show ?rhs
    proof
      assume ?now
      then show ?rhs by (intro exI [of _ "[]"] exI [of _ "c # cs"]) (auto split: option.splits)
    next
      assume ?more
      then obtain m rest where m: "hi \<noteq> Some 0" "p c" "cs = m @ rest" "q = (last_char (Some c) m, rest)"
        "\<forall>c \<in> set m. p c" "lo - 1 \<le> length m"
        "case map_option (\<lambda>h. h - 1) hi of None \<Rightarrow> True | Some h \<Rightarrow> length m \<le> h" by blast
      then show ?rhs by (intro exI [of _ "c # m"] exI [of _ rest]) (auto split: option.splits)
    qed
  qed
  moreover have "q \<in> set (rep_ms greedy p lo hi prev (c # cs)) \<longleftrightarrow> ?now \<or> ?more"
    using 2 by (auto simp: Let_def)
  ultimately show ?case by simp
qed

lemma ms_Rep_iff:
  "q \<in> set (ms (Rep lo hi g p) (prev, s)) \<longleftrightarrow>
     (\<exists>m rest. s = m @ rest \<and> q = (last_char prev m, rest) \<and> (\<forall>c \<in> set m. p c)
        \<and> lo \<le> length m \<and> (case hi of None \<Rightarrow> True | Some h \<Rightarrow> length m \<le> h))"
  by (simp add: rep_ms_iff)

lemma ms_Rep_I:
  assumes "\<forall>c \<in> set m. p c" and "lo \<le> length m" and "case hi of None \<Rightarrow> True | Some h \<Rightarrow> length m \<le> h"
  shows "(last_char prev m, rest) \<in> set (ms (Rep lo hi g p) (prev, m @ rest))"
  unfolding ms_Rep_iff using assms by blast

lemma ms_Seq_I: "q \<in> set (ms a pos) \<Longrightarrow> q' \<in> set (ms b q) \<Longrightarrow> q' \<in> set (ms (Seq a b) pos)"
  by auto

text \<open>Every match consumes a prefix.\<close>

lemma ms_prefix: "(prev', rest) \<in> set (ms r (prev, s)) \<Longrightarrow> \<exists>m. s = m @ rest \<and> prev' = last_char prev m"
proof (induction r arbitrary: prev s prev' rest)
  case (Cls p)
  then show ?case by (intro exI [of _ "take 1 s"]) (auto split: list.splits if_splits)
next
  case (Rep lo hi g p)
  then show ?case by (auto simp: rep_ms_iff)
next
  case (Seq a b)
  then obtain q where "q \<in> set (ms a (prev, s))" "(prev', rest) \<in> set (ms b q)" by auto
  moreover obtain x t where "q = (x, t)" by (cases q)
  ultimately obtain m n where "s = m @ t" "x = last_char prev m" "t = n @ rest" "prev' = last_char x n"
    using Seq.IH(1) [of x t prev s] Seq.IH(2) [of prev' rest x t] by blast
  then show ?case by (intro exI [of _ "m @ n"]) simp
next
  case (Alt a b)
  then show ?case by auto
qed (auto split: if_splits)

lemma found_from_iff:
  "found_from r prev s \<longleftrightarrow> (\<exists>pre rest. s = pre @ rest \<and> ms r (last_char prev pre, rest) \<noteq> [])"
proof (induction r prev s rule: found_from.induct)
  case (2 r prev c cs)
  have "(\<exists>pre rest. c # cs = pre @ rest \<and> ms r (last_char prev pre, rest) \<noteq> []) \<longleftrightarrow>
      ms r (prev, c # cs) \<noteq> [] \<or> (\<exists>pre rest. cs = pre @ rest \<and> ms r (last_char (Some c) pre, rest) \<noteq> [])"
    (is "?l = ?r")
  proof
    assume ?l
    then obtain pre rest where pre: "c # cs = pre @ rest" "ms r (last_char prev pre, rest) \<noteq> []" by blast
    then show ?r by (cases pre) auto
  next
    assume ?r
    then show ?l
    proof
      assume "ms r (prev, c # cs) \<noteq> []"
      then show ?l by (intro exI [of _ "[]"] exI [of _ "c # cs"]) simp
    next
      assume "\<exists>pre rest. cs = pre @ rest \<and> ms r (last_char (Some c) pre, rest) \<noteq> []"
      then obtain pre rest where "cs = pre @ rest" "ms r (last_char (Some c) pre, rest) \<noteq> []" by blast
      then show ?l by (intro exI [of _ "c # pre"] exI [of _ rest]) simp
    qed
  qed
  with 2 show ?case by simp
qed simp

lemma re_found_I: "q \<in> set (ms r (last_char None pre, rest)) \<Longrightarrow> re_found r (pre @ rest)"
  unfolding re_found_def found_from_iff by (metis list.set_intros(1) in_set_conv_nth length_0_conv not_less_zero)

text \<open>The scan splits the text: nothing is lost or reordered.\<close>

lemma scan_text: "concat (map (\<lambda>x. case x of Inl m \<Rightarrow> m | Inr c \<Rightarrow> [c]) (scan r prev s)) = s"
proof (induction r prev s rule: scan.induct)
  case (2 r prev c cs)
  show ?case
  proof (cases "ms r (prev, c # cs)")
    case Nil
    with 2 show ?thesis by simp
  next
    case (Cons q qs)
    obtain prev' rest where q: "q = (prev', rest)" by (cases q)
    have "(prev', rest) \<in> set (ms r (prev, c # cs))" using Cons q by simp
    then obtain m where "c # cs = m @ rest" using ms_prefix by blast
    then show ?thesis using 2 Cons q by (cases m) auto
  qed
qed simp

lemma re_sub_id: "re_findall r s = [] \<Longrightarrow> re_sub r new s = s"
proof -
  assume a: "re_findall r s = []"
  have "concat (map (\<lambda>x. case x of Inl _ \<Rightarrow> new | Inr c \<Rightarrow> [c]) xs) =
      concat (map (\<lambda>x. case x of Inl m \<Rightarrow> m | Inr c \<Rightarrow> [c]) xs)"
    if "concat (map (\<lambda>x. case x of Inl m \<Rightarrow> [m] | Inr _ \<Rightarrow> []) xs) = ([] :: string list)" for xs :: "(string + char) list"
    using that by (induction xs) (auto split: sum.splits)
  with a show ?thesis using scan_text [of r None s] by (simp add: re_sub_def re_findall_def)
qed

end
