(* ===== verification/PII_Gate.thy ===== *)
theory PII_Gate
  imports Pattern Json
begin

section \<open>The PII gate and argument validation (gateway/validation.py)\<close>

text \<open>
  \<open>PIIGate.scrub\<close> with its four patterns, \<open>MCP_ALLOWED_FIELDS\<close> and \<open>ValidationGate\<close>. A pydantic
  model class is an argument: a function from keyword arguments to an error or an instance.
\<close>

subsection \<open>The patterns\<close>

definition key_char :: "char \<Rightarrow> bool" where
  "key_char c = (is_letter c \<or> is_digit c \<or> c \<in> set ''_-'')"

definition bearer_char :: "char \<Rightarrow> bool" where
  "bearer_char c = (is_letter c \<or> is_digit c \<or> c \<in> set ''-._~+/'')"

definition local_char :: "char \<Rightarrow> bool" where
  "local_char c = (is_letter c \<or> is_digit c \<or> c \<in> set ''._%+-'')"

definition host_char :: "char \<Rightarrow> bool" where
  "host_char c = (is_letter c \<or> is_digit c \<or> c \<in> set ''.-'')"

definition api_key_pattern :: regex where
  "api_key_pattern = seqs [WordB,
     Alt (seqs [Lit ''sk-'', Rep 20 None True key_char])
         (seqs [Lit ''Bearer'', Plus is_space, Plus bearer_char, Star (\<lambda>c. c = CHR ''='')]), WordB]"

definition jwt_pattern :: regex where
  "jwt_pattern = seqs [WordB, Rep 10 None True key_char, Lit ''.'', Rep 10 None True key_char, Lit ''.'',
     Rep 10 None True key_char, WordB]"

definition email_pattern :: regex where
  "email_pattern = seqs [WordB, Plus local_char, Lit ''@'', Plus host_char, Lit ''.'', Rep 2 None True is_letter, WordB]"

definition octet :: regex where
  "octet = Rep 1 (Some 3) True is_digit"

definition net_10 :: regex where
  "net_10 = seqs [Lit ''10'', Lit ''.'', octet, Lit ''.'', octet, Lit ''.'', octet]"

definition net_172 :: regex where
  "net_172 = seqs [Lit ''172'', Lit ''.'',
     Alt (Seq (Lit ''1'') (Cls (\<lambda>c. c \<in> set ''6789'')))
       (Alt (Seq (Lit ''2'') (Cls is_digit)) (Seq (Lit ''3'') (Cls (\<lambda>c. c \<in> set ''01'')))),
     Lit ''.'', octet, Lit ''.'', octet]"

definition net_192 :: regex where
  "net_192 = seqs [Lit ''192'', Lit ''.'', Lit ''168'', Lit ''.'', octet, Lit ''.'', octet]"

definition private_ip_pattern :: regex where
  "private_ip_pattern = seqs [WordB, Alt net_10 (Alt net_172 net_192), WordB]"

definition pii_patterns :: "(string \<times> regex) list" where
  "pii_patterns = [(''api_key'', api_key_pattern), (''jwt'', jwt_pattern), (''email'', email_pattern),
     (''private_ip'', private_ip_pattern)]"

definition contains_pii :: "string \<Rightarrow> bool" where
  "contains_pii value = list_ex (\<lambda>(_, pat). re_found pat value) pii_patterns"

subsection \<open>The gate\<close>

text \<open>\<open>raw\<close> is the value of \<open>MCP_ALLOWED_FIELDS\<close>, empty when it is unset.\<close>

definition default_allow_list :: "string \<Rightarrow> string set" where
  "default_allow_list raw = set (filter (\<lambda>f. f \<noteq> []) (map py_strip (split_on (CHR '','') raw)))"

definition violation :: "string \<Rightarrow> string" where
  "violation key = ''Field '' @ [CHR 0x27] @ key @ [CHR 0x27] @ '' contains sensitive data and is not allow-listed. ''
     @ ''Add it to MCP_ALLOWED_FIELDS if this is intentional.''"

definition offends :: "string set \<Rightarrow> string \<times> json \<Rightarrow> bool" where
  "offends allow kv = (case kv of (key, value) \<Rightarrow>
     key \<notin> allow \<and> (case value of JStr s \<Rightarrow> contains_pii s | _ \<Rightarrow> False))"

fun scrub_loop :: "string set \<Rightarrow> (string \<times> json) list \<Rightarrow> (string, unit) result" where
  "scrub_loop allow [] = Inr ()"
| "scrub_loop allow ((key, value) # rest) =
     (if key \<in> allow then scrub_loop allow rest
      else if (case value of JStr s \<Rightarrow> contains_pii s | _ \<Rightarrow> False) then Inl (violation key)
      else scrub_loop allow rest)"

definition scrub :: "string \<Rightarrow> (string \<times> json) list \<Rightarrow> string set option \<Rightarrow> (string, (string \<times> json) list) result" where
  "scrub raw args allow_list =
     (let effective_allow = (case allow_list of Some a \<Rightarrow> a | None \<Rightarrow> {}) \<union> default_allow_list raw
      in case scrub_loop effective_allow args of Inl e \<Rightarrow> Inl e | Inr _ \<Rightarrow> Inr args)"

definition validate :: "((string \<times> json) list \<Rightarrow> ('e, 'm) result) \<Rightarrow> (string \<times> json) list \<Rightarrow> ('e, 'm) result" where
  "validate model_cls data = model_cls data"

subsection \<open>What the patterns find\<close>

text \<open>
  The texts the gate promises to stop, stated without the matcher: a personal datum stands
  between \<open>pre\<close> and \<open>post\<close>, neither of which touches it with a word character.
\<close>

definition bounded :: "string \<Rightarrow> string \<Rightarrow> string \<Rightarrow> bool" where
  "bounded pre m post \<longleftrightarrow> m \<noteq> [] \<and> is_word (hd m) \<and> is_word (last m)
     \<and> (pre = [] \<or> \<not> is_word (last pre)) \<and> (post = [] \<or> \<not> is_word (hd post))"

definition email_text :: "string \<Rightarrow> bool" where
  "email_text m \<longleftrightarrow> (\<exists>user host top. m = user @ ''@'' @ host @ ''.'' @ top \<and> user \<noteq> [] \<and> host \<noteq> []
     \<and> is_word (hd user) \<and> list_all local_char user \<and> list_all host_char host \<and> list_all is_letter top \<and> 2 \<le> length top)"

definition octet_text :: "string \<Rightarrow> bool" where
  "octet_text o1 \<longleftrightarrow> 1 \<le> length o1 \<and> length o1 \<le> 3 \<and> list_all is_digit o1"

definition private_ip_text :: "string \<Rightarrow> bool" where
  "private_ip_text m \<longleftrightarrow> (\<exists>a b c d. m = a @ ''.'' @ b @ ''.'' @ c @ ''.'' @ d
     \<and> octet_text b \<and> octet_text c \<and> octet_text d \<and> (a = ''10'' \<or> a = ''192'' \<and> b = ''168''))"

definition key_text :: "string \<Rightarrow> bool" where
  "key_text m \<longleftrightarrow> (\<exists>k. m = ''sk-'' @ k \<and> list_all key_char k \<and> 20 \<le> length k \<and> is_word (last k))"

definition consumes :: "regex \<Rightarrow> string \<Rightarrow> bool" where
  "consumes r m \<longleftrightarrow> (\<forall>prev rest. (last_char prev m, rest) \<in> set (ms r (prev, m @ rest)))"

lemma consumes_Seq: "consumes a m \<Longrightarrow> consumes b n \<Longrightarrow> consumes (Seq a b) (m @ n)"
  unfolding consumes_def by (metis append.assoc last_char_simps(3) ms_Seq_I)

lemma consumes_Alt: "consumes a m \<or> consumes b m \<Longrightarrow> consumes (Alt a b) m"
  by (auto simp: consumes_def)

lemma consumes_Rep:
  "list_all p m \<Longrightarrow> lo \<le> length m \<Longrightarrow> (case hi of None \<Rightarrow> True | Some h \<Rightarrow> length m \<le> h) \<Longrightarrow> consumes (Rep lo hi g p) m"
  unfolding consumes_def list_all_iff using ms_Rep_I by blast

lemma consumes_Lit: "consumes (Lit s) s"
proof (induction s rule: Lit.induct)
  case (3 c d cs)
  have "consumes (Cls (\<lambda>x. x = c)) [c]" by (simp add: consumes_def)
  from consumes_Seq [OF this 3] show ?case by simp
qed (simp_all add: consumes_def)

lemma found_bounded:
  assumes "consumes r m" and "bounded pre m post"
  shows "re_found (Seq WordB (Seq r WordB)) (pre @ m @ post)"
proof (rule re_found_I)
  have s: "ms WordB (last_char None pre, m @ post) = [(last_char None pre, m @ post)]"
    using assms(2) by (cases m) (auto simp: bounded_def at_word_def last_char_def next_char_def)
  have e: "ms WordB (last_char (last_char None pre) m, post) = [(last_char (last_char None pre) m, post)]"
    using assms(2) by (cases post) (auto simp: bounded_def at_word_def last_char_def next_char_def)
  have "(last_char (last_char None pre) m, post) \<in> set (ms r (last_char None pre, m @ post))"
    using assms(1) by (auto simp: consumes_def)
  then show "(last_char (last_char None pre) m, post) \<in> set (ms (Seq WordB (Seq r WordB)) (last_char None pre, m @ post))"
    using s e by (auto intro!: bexI [of _ "(last_char (last_char None pre) m, post)"])
qed

text \<open>Sequences are associative, so the surrounding boundaries can be peeled off.\<close>

lemma concat_map_concat: "concat (map f (concat (map g xs))) = concat (map (\<lambda>x. concat (map f (g x))) xs)"
  by (induction xs) auto

lemma ms_Seq_assoc: "ms (Seq (Seq a b) c) = ms (Seq a (Seq b c))"
  proof (rule ext)
  fix pos
  have seq: "ms (Seq b c) = (\<lambda>x. concat (map (ms c) (ms b x)))" by (rule ext) simp
  show "ms (Seq (Seq a b) c) pos = ms (Seq a (Seq b c)) pos"
    unfolding ms.simps(3) [of a "Seq b c"] seq by (simp add: concat_map_concat)
qed

lemma ms_Seq_cong: "ms b = ms b' \<Longrightarrow> ms (Seq a b) = ms (Seq a b')"
  by (rule ext) simp

lemma found_from_cong: "ms r = ms r' \<Longrightarrow> found_from r prev s = found_from r' prev s"
  by (induction s arbitrary: prev) auto

lemma re_found_cong: "ms r = ms r' \<Longrightarrow> re_found r s = re_found r' s"
  unfolding re_found_def by (rule found_from_cong)

lemma email_found:
  assumes "email_text m" and "bounded pre m post" shows "re_found email_pattern (pre @ m @ post)"
proof -
  let ?body = "seqs [Plus local_char, Lit ''@'', Plus host_char, Lit ''.'', Rep 2 None True is_letter]"
  obtain user host top where m: "m = user @ ''@'' @ host @ ''.'' @ top" "user \<noteq> []" "host \<noteq> []"
    "list_all local_char user" "list_all host_char host" "list_all is_letter top" "2 \<le> length top"
    using assms(1) by (auto simp: email_text_def)
  have "consumes (Plus local_char) user" "consumes (Plus host_char) host" "consumes (Rep 2 None True is_letter) top"
    using m by (auto intro!: consumes_Rep simp: Suc_le_eq)
  then have "consumes ?body m"
    unfolding m(1) seqs.simps by (intro consumes_Seq consumes_Lit)
  then have "re_found (Seq WordB (Seq ?body WordB)) (pre @ m @ post)"
    using assms(2) by (rule found_bounded)
  moreover have "ms (Seq WordB (Seq ?body WordB)) = ms email_pattern"
    unfolding email_pattern_def seqs.simps by (simp only: ms_Seq_assoc cong: ms_Seq_cong)
  ultimately show ?thesis by (simp only: re_found_cong [of "Seq WordB (Seq ?body WordB)" email_pattern])
qed

lemma octet_consumes: "octet_text m \<Longrightarrow> consumes octet m"
  unfolding octet_def octet_text_def by (rule consumes_Rep) auto

lemma private_ip_found:
  assumes "private_ip_text m" and "bounded pre m post" shows "re_found private_ip_pattern (pre @ m @ post)"
proof -
  obtain a b c d where m': "m = a @ ''.'' @ b @ ''.'' @ c @ ''.'' @ d" "octet_text b" "octet_text c"
    "octet_text d" "a = ''10'' \<or> a = ''192'' \<and> b = ''168''"
    using assms(1) unfolding private_ip_text_def by blast
  note m = m'(1) m'(2-4) [THEN octet_consumes] m'(5)
  show ?thesis
    unfolding private_ip_pattern_def seqs.simps
  proof (rule found_bounded [OF _ assms(2)], rule consumes_Alt)
    show "consumes net_10 m \<or> consumes (Alt net_172 net_192) m"
      using m(5)
    proof
      assume "a = ''10''"
      then have "consumes net_10 m"
        unfolding m(1) net_10_def seqs.simps by (simp only:) (intro consumes_Seq consumes_Lit m(2-4))
      then show ?thesis ..
    next
      assume "a = ''192'' \<and> b = ''168''"
      then have "consumes net_192 m"
        unfolding m(1) net_192_def seqs.simps by (simp only:) (intro consumes_Seq consumes_Lit m(3,4))
      then show ?thesis by (simp add: consumes_Alt)
    qed
  qed
qed

lemma key_found:
  assumes "key_text m" and "bounded pre m post" shows "re_found api_key_pattern (pre @ m @ post)"
proof -
  obtain k where k: "m = ''sk-'' @ k" "list_all key_char k" "20 \<le> length k" using assms(1) by (auto simp: key_text_def)
  have "consumes (Rep 20 None True key_char) k" using k by (auto intro: consumes_Rep)
  then have "consumes (Seq (Lit ''sk-'') (Rep 20 None True key_char)) m" unfolding k(1) by (rule consumes_Seq [OF consumes_Lit])
  then show ?thesis
    unfolding api_key_pattern_def seqs.simps by (intro found_bounded [OF _ assms(2)] consumes_Alt) simp
qed

lemma pii_found:
  "email_text m \<or> private_ip_text m \<or> key_text m \<Longrightarrow> bounded pre m post \<Longrightarrow> contains_pii (pre @ m @ post)"
  using email_found private_ip_found key_found by (auto simp: contains_pii_def pii_patterns_def)

subsection \<open>The gate is a decision on the top-level fields\<close>

lemma scrub_loop_Inr: "scrub_loop allow args = Inr () \<longleftrightarrow> (\<forall>kv \<in> set args. \<not> offends allow kv)"
  by (induction allow args rule: scrub_loop.induct) (auto simp: offends_def)

lemma scrub_loop_Inl:
  "scrub_loop allow args = Inl e \<Longrightarrow> \<exists>as k v bs. args = as @ (k, v) # bs \<and> offends allow (k, v)
     \<and> (\<forall>kv \<in> set as. \<not> offends allow kv) \<and> e = violation k"
proof (induction allow args rule: scrub_loop.induct)
  case (2 allow key v rest)
  show ?case
  proof (cases "offends allow (key, v)")
    case True
    then have "e = violation key" using "2.prems" by (auto simp: offends_def split: if_splits)
    with True show ?thesis by (intro exI [of _ "[]"] exI [of _ key] exI [of _ v] exI [of _ rest]) auto
  next
    case False
    then have "scrub_loop allow rest = Inl e" using "2.prems" by (auto simp: offends_def split: if_splits)
    with 2(1,2) False obtain as k u bs where "rest = as @ (k, u) # bs" "offends allow (k, u)"
      "\<forall>kv \<in> set as. \<not> offends allow kv" "e = violation k" by (fastforce simp: offends_def)
    with False show ?thesis by (intro exI [of _ "(key, v) # as"]) auto
  qed
qed simp



text \<open>Only strings at the top level are looked at: the same address inside a nested object passes.\<close>

lemma pii_nested_passes: "scrub raw [(k, JObj kvs), (k', JArr xs)] allow = Inr [(k, JObj kvs), (k', JArr xs)]"
  by (simp add: scrub_def Let_def)

end
