(* ===== verification/LLM_Router.thy ===== *)
theory LLM_Router
  imports Pattern Json
begin

section \<open>The LLM router (gateway/router.py)\<close>

text \<open>
  The five provider handlers, the cost table, \<open>provider_factory\<close> and \<open>UnifiedRouter.route\<close>. The HTTP
  client and boto3 are arguments: a function from a request to one of the outcomes the handlers
  tell apart, with its own state \<open>'h\<close>; so are the environment variables. A handler raises
  \<open>ProviderError\<close>, which makes the router try the next one, or any other exception, which
  leaves the router. Costs are exact rationals; the token counts of a response are read as
  integers (another number type is outside the model and counted as a type error).
\<close>

subsection \<open>Requests, results, errors\<close>

record llm_request =
  lq_tool_name :: string
  lq_args :: "(string \<times> json) list"
  lq_claims :: "(string \<times> json) list option"
  lq_prompt :: json

record llm_result =
  lr_content :: json
  lr_model :: json
  lr_input_tokens :: json
  lr_output_tokens :: json
  lr_cost_usd :: "rat option"

datatype llm_error =
    ProviderError string "nat option" string
  | OtherError string

definition is_provider_error :: "llm_error \<Rightarrow> bool" where
  "is_provider_error e = (case e of ProviderError _ _ _ \<Rightarrow> True | OtherError _ \<Rightarrow> False)"

subsection \<open>Costs\<close>

definition cost_per_m :: "string \<Rightarrow> (rat \<times> rat) option" where
  "cost_per_m = map_of [
     (''gpt-4o'', (5, 15)), (''gpt-4o-mini'', (15 / 100, 60 / 100)),
     (''claude-3-5-sonnet-20241022'', (3, 15)), (''claude-3-haiku-20240307'', (25 / 100, 125 / 100)),
     (''gemini-2.5-flash'', (15 / 100, 60 / 100)), (''gemini-2.5-pro'', (125 / 100, 10)),
     (''gemini-1.5-flash'', (75 / 1000, 30 / 100)), (''gemini-1.5-pro'', (125 / 100, 5)),
     (''claude-haiku-4-5'', (80 / 100, 4)), (''claude-sonnet-3-5'', (3, 15)), (''claude-opus-4-1'', (15, 75))]"

text \<open>\<open>s.split(sep)[0]\<close> and \<open>s.replace(old, '')\<close> for a non-empty \<open>sep\<close> or \<open>old\<close>.\<close>

fun before_first :: "string \<Rightarrow> string \<Rightarrow> string" where
  "before_first sep [] = []"
| "before_first sep (c # cs) = (if prefix sep (c # cs) then [] else c # before_first sep cs)"

function remove_all :: "string \<Rightarrow> string \<Rightarrow> string" where
  "remove_all old [] = []"
| "remove_all old (c # cs) =
     (if old \<noteq> [] \<and> prefix old (c # cs) then remove_all old (drop (length old) (c # cs)) else c # remove_all old cs)"
  by pat_completeness auto
termination
  by (relation "measure (\<lambda>(old, s). length s)") (auto simp: neq_Nil_conv)

definition normalize_bedrock_model :: "string \<Rightarrow> string" where
  "normalize_bedrock_model model =
     (if \<not> startswith model ''us.anthropic.'' then model
      else before_first ''-20'' (remove_all ''us.anthropic.'' model))"

fun token_count :: "json \<Rightarrow> (llm_error, int) result" where
  "token_count (JInt n) = Inr n"
| "token_count (JBool b) = Inr (if b then 1 else 0)"
| "token_count _ = Inl (OtherError ''TypeError'')"

definition cost_usd :: "json \<Rightarrow> json \<Rightarrow> json \<Rightarrow> (llm_error, rat) result" where
  "cost_usd model input_tokens output_tokens =
     (case model of
        JStr m \<Rightarrow>
          (let (in_rate, out_rate) =
             (case cost_per_m (normalize_bedrock_model m) of Some r \<Rightarrow> r | None \<Rightarrow> (0, 0))
           in case token_count input_tokens of
                Inl e \<Rightarrow> Inl e
              | Inr i \<Rightarrow>
                  (case token_count output_tokens of
                     Inl e \<Rightarrow> Inl e
                   | Inr n \<Rightarrow> Inr ((of_int i * in_rate + of_int n * out_rate) / 1000000)))
      | _ \<Rightarrow> Inl (OtherError ''AttributeError''))"

subsection \<open>Prompts and answers\<close>

text \<open>\<open>str(args)\<close> is not modelled: it is the argument \<open>py_str\<close>.\<close>

definition prompt_from :: "((string \<times> json) list \<Rightarrow> string) \<Rightarrow> llm_request \<Rightarrow> json" where
  "prompt_from py_str r =
     (if truthy (lq_prompt r) then lq_prompt r
      else (case map_of (lq_args r) ''text'' of Some v \<Rightarrow> v | None \<Rightarrow> JStr (py_str (lq_args r))))"

definition think_re :: regex where
  "think_re = seqs [Lit ''<think>'', Rep 0 None False (\<lambda>_. True), Lit ''</think>'']"

definition strip_think :: "string \<Rightarrow> string" where
  "strip_think t = py_strip (re_sub think_re [] t)"

text \<open>
  What \<open>client.post\<close> does: a connection or time-out error (its text and the name of its class),
  any other exception, or a response with its status, its text and its body when that is JSON.
\<close>

datatype http_answer =
    HConnect string string
  | HOther string
  | HResponse nat string "json option"

type_synonym 'h http = "string \<Rightarrow> (string \<times> string) list \<Rightarrow> json \<Rightarrow> 'h \<Rightarrow> http_answer \<times> 'h"

text \<open>The part the four HTTP handlers share: the errors, then the JSON body.\<close>

definition http_body :: "string \<Rightarrow> http_answer \<Rightarrow> (llm_error, json) result" where
  "http_body provider answer =
     (case answer of
        HConnect text cls \<Rightarrow> Inl (ProviderError provider None (if text \<noteq> [] then text else cls))
      | HOther text \<Rightarrow> Inl (OtherError text)
      | HResponse status text body \<Rightarrow>
          if status = 429 then Inl (ProviderError provider (Some 429) ''rate limited'')
          else if 400 \<le> status then Inl (ProviderError provider (Some status) (take 200 text))
          else (case body of None \<Rightarrow> Inl (OtherError ''JSONDecodeError'') | Some data \<Rightarrow> Inr data))"

text \<open>\<open>d.get(k, default)\<close> and \<open>d[k]\<close> on a decoded value that may not be a dict.\<close>

definition obj_get :: "json \<Rightarrow> string \<Rightarrow> json \<Rightarrow> (llm_error, json) result" where
  "obj_get d k dflt = (case d of JObj _ \<Rightarrow> Inr (jget_def d k dflt) | _ \<Rightarrow> Inl (OtherError ''AttributeError''))"

definition obj_item :: "json \<Rightarrow> string \<Rightarrow> (llm_error, json) result" where
  "obj_item d k = (case d of
     JObj _ \<Rightarrow> (case jget d k of Some v \<Rightarrow> Inr v | None \<Rightarrow> Inl (OtherError ''KeyError''))
   | _ \<Rightarrow> Inl (OtherError ''TypeError''))"

definition list_head :: "json \<Rightarrow> (llm_error, json) result" where
  "list_head d = (case d of
     JArr (x # _) \<Rightarrow> Inr x | JArr [] \<Rightarrow> Inl (OtherError ''IndexError'')
   | JStr (c # _) \<Rightarrow> Inr (JStr [c]) | JStr [] \<Rightarrow> Inl (OtherError ''IndexError'')
   | JObj _ \<Rightarrow> Inl (OtherError ''KeyError'') | _ \<Rightarrow> Inl (OtherError ''TypeError''))"

definition bind_ok :: "(llm_error, 'a) result \<Rightarrow> ('a \<Rightarrow> (llm_error, 'b) result) \<Rightarrow> (llm_error, 'b) result" where
  "bind_ok r f = (case r of Inl e \<Rightarrow> Inl e | Inr v \<Rightarrow> f v)"

lemma bind_ok_simps [simp]: "bind_ok (Inl e) f = Inl e" "bind_ok (Inr v) f = f v"
  by (simp_all add: bind_ok_def)

lemma bind_ok_Inr: "bind_ok r f = Inr v \<longleftrightarrow> (\<exists>u. r = Inr u \<and> f u = Inr v)"
  by (cases r) auto

definition iterate :: "json \<Rightarrow> (llm_error, json list) result" where
  "iterate d = (case d of
     JArr xs \<Rightarrow> Inr xs | JObj kvs \<Rightarrow> Inr (map (JStr \<circ> fst) kvs) | JStr s \<Rightarrow> Inr (map (\<lambda>c. JStr [c]) s)
   | _ \<Rightarrow> Inl (OtherError ''TypeError''))"

text \<open>The generator of the text blocks; \<open>typed\<close> says whether blocks are filtered by their type.\<close>

fun block_texts :: "bool \<Rightarrow> json list \<Rightarrow> (llm_error, json list) result" where
  "block_texts typed [] = Inr []"
| "block_texts typed (b # bs) =
     bind_ok (obj_get b ''type'' JNull) (\<lambda>t.
       if typed \<and> t \<noteq> JStr ''text'' then block_texts typed bs
       else bind_ok (obj_get b ''text'' (JStr [])) (\<lambda>x.
              bind_ok (block_texts typed bs) (\<lambda>xs. Inr (x # xs))))"

fun str_parts :: "json list \<Rightarrow> (llm_error, string list) result" where
  "str_parts [] = Inr []"
| "str_parts (x # xs) = (case x of
     JStr s \<Rightarrow> bind_ok (str_parts xs) (\<lambda>ss. Inr (s # ss))
   | _ \<Rightarrow> Inl (OtherError ''TypeError''))"

definition join_blocks :: "bool \<Rightarrow> json \<Rightarrow> (llm_error, json) result" where
  "join_blocks typed blocks =
     bind_ok (iterate blocks) (\<lambda>bs. bind_ok (block_texts typed bs) (\<lambda>xs.
       bind_ok (str_parts xs) (\<lambda>ss. Inr (JStr (py_join '' '' ss)))))"

subsection \<open>The handlers\<close>

record 'h llm_handler =
  lh_name :: string
  lh_call :: "llm_request \<Rightarrow> 'h \<Rightarrow> (llm_error, llm_result) result \<times> 'h"

definition getenv :: "(string \<Rightarrow> string option) \<Rightarrow> string \<Rightarrow> string \<Rightarrow> string" where
  "getenv env k d = (case env k of Some v \<Rightarrow> v | None \<Rightarrow> d)"

definition user_message :: "json \<Rightarrow> json" where
  "user_message prompt = JArr [JObj [(''role'', JStr ''user''), (''content'', prompt)]]"

definition usage_result :: "json \<Rightarrow> json \<Rightarrow> json \<Rightarrow> string \<Rightarrow> string \<Rightarrow> (llm_error, llm_result) result" where
  "usage_result content model usage kin kout =
     bind_ok (obj_get usage kin (JInt 0)) (\<lambda>i. bind_ok (obj_get usage kout (JInt 0)) (\<lambda>n.
       Inr \<lparr>lr_content = content, lr_model = model, lr_input_tokens = i, lr_output_tokens = n, lr_cost_usd = None\<rparr>))"

definition openai_answer :: "string \<Rightarrow> json \<Rightarrow> (llm_error, llm_result) result" where
  "openai_answer model data =
     bind_ok (obj_get data ''usage'' (JObj [])) (\<lambda>usage.
       bind_ok (obj_item data ''choices'') (\<lambda>cs. bind_ok (list_head cs) (\<lambda>c.
         bind_ok (obj_item c ''message'') (\<lambda>m. bind_ok (obj_item m ''content'') (\<lambda>content.
           usage_result content (jget_def data ''model'' (JStr model)) usage ''prompt_tokens'' ''completion_tokens'')))))"

definition openai_handler ::
  "(string \<Rightarrow> string option) \<Rightarrow> ((string \<times> json) list \<Rightarrow> string) \<Rightarrow> 'h http \<Rightarrow> 'h llm_handler" where
  "openai_handler env py_str http =
     (let model = getenv env ''OPENAI_MODEL'' ''gpt-4o-mini'';
          base_url = getenv env ''OPENAI_BASE_URL'' ''https://api.openai.com/v1''
      in \<lparr>lh_name = ''openai'', lh_call = (\<lambda>r h.
        case http (base_url @ ''/chat/completions'')
               [(''Authorization'', ''Bearer '' @ getenv env ''OPENAI_API_KEY'' ''''), (''Content-Type'', ''application/json'')]
               (JObj [(''model'', JStr model), (''messages'', user_message (prompt_from py_str r)), (''max_tokens'', JInt 256)]) h of
          (answer, h') \<Rightarrow> (bind_ok (http_body ''openai'' answer) (openai_answer model), h'))\<rparr>)"

definition anthropic_answer :: "string \<Rightarrow> json \<Rightarrow> (llm_error, llm_result) result" where
  "anthropic_answer model data =
     bind_ok (obj_get data ''usage'' (JObj [])) (\<lambda>usage.
       bind_ok (join_blocks True (jget_def data ''content'' (JArr []))) (\<lambda>content.
         usage_result content (jget_def data ''model'' (JStr model)) usage ''input_tokens'' ''output_tokens''))"

definition anthropic_handler ::
  "(string \<Rightarrow> string option) \<Rightarrow> ((string \<times> json) list \<Rightarrow> string) \<Rightarrow> 'h http \<Rightarrow> 'h llm_handler" where
  "anthropic_handler env py_str http =
     (let model = getenv env ''ANTHROPIC_MODEL'' ''claude-3-haiku-20240307'';
          base_url = getenv env ''ANTHROPIC_BASE_URL'' ''https://api.anthropic.com/v1''
      in \<lparr>lh_name = ''anthropic'', lh_call = (\<lambda>r h.
        case http (base_url @ ''/messages'')
               [(''x-api-key'', getenv env ''ANTHROPIC_API_KEY'' ''''), (''anthropic-version'', ''2023-06-01''),
                (''Content-Type'', ''application/json'')]
               (JObj [(''model'', JStr model), (''messages'', user_message (prompt_from py_str r)), (''max_tokens'', JInt 256)]) h of
          (answer, h') \<Rightarrow> (bind_ok (http_body ''anthropic'' answer) (anthropic_answer model), h'))\<rparr>)"

definition ollama_answer :: "string \<Rightarrow> json \<Rightarrow> (llm_error, llm_result) result" where
  "ollama_answer model data =
     bind_ok (obj_get data ''message'' (JObj [])) (\<lambda>message.
       bind_ok (obj_get message ''content'' (JStr [])) (\<lambda>content.
         (case content of
            JStr t \<Rightarrow> usage_result (JStr (strip_think t)) (jget_def data ''model'' (JStr model)) data
                        ''prompt_eval_count'' ''eval_count''
          | _ \<Rightarrow> Inl (OtherError ''TypeError''))))"

definition ollama_handler ::
  "(string \<Rightarrow> string option) \<Rightarrow> ((string \<times> json) list \<Rightarrow> string) \<Rightarrow> 'h http \<Rightarrow> 'h llm_handler" where
  "ollama_handler env py_str http =
     (let model = getenv env ''OLLAMA_MODEL'' ''qwen3:0.6b-q4_K_M'';
          base_url = getenv env ''OLLAMA_BASE_URL'' ''http://localhost:11434''
      in \<lparr>lh_name = ''ollama'', lh_call = (\<lambda>r h.
        case parse_int (getenv env ''OLLAMA_NUM_PREDICT'' ''1024'') of
          None \<Rightarrow> (Inl (OtherError ''ValueError''), h)
        | Some num_predict \<Rightarrow>
            (case http (base_url @ ''/api/chat'') []
               (JObj [(''model'', JStr model), (''messages'', user_message (prompt_from py_str r)), (''stream'', JBool False),
                      (''options'', JObj [(''num_predict'', JInt num_predict)])]) h of
               (answer, h') \<Rightarrow> (bind_ok (http_body ''ollama'' answer) (ollama_answer model), h')))\<rparr>)"

definition gemini_answer :: "string \<Rightarrow> json \<Rightarrow> (llm_error, llm_result) result" where
  "gemini_answer model data =
     bind_ok (obj_get data ''candidates'' (JArr [])) (\<lambda>candidates.
       bind_ok (if truthy candidates
                then bind_ok (list_head candidates) (\<lambda>c. bind_ok (obj_get c ''content'' (JObj [])) (\<lambda>content.
                       bind_ok (obj_get content ''parts'' (JArr [])) (join_blocks False)))
                else Inr (JStr []))
         (\<lambda>content. usage_result content (JStr model) (jget_def data ''usageMetadata'' (JObj []))
            ''promptTokenCount'' ''candidatesTokenCount''))"

definition gemini_handler ::
  "(string \<Rightarrow> string option) \<Rightarrow> ((string \<times> json) list \<Rightarrow> string) \<Rightarrow> 'h http \<Rightarrow> 'h llm_handler" where
  "gemini_handler env py_str http =
     (let model = getenv env ''GEMINI_MODEL'' ''gemini-2.5-flash''; api_key = getenv env ''GEMINI_API_KEY'' ''''
      in \<lparr>lh_name = ''gemini'', lh_call = (\<lambda>r h.
        if api_key = [] then
          (if env ''MCP_DEV_MODE'' = Some ''1''
           then (case lh_call (ollama_handler env py_str http) r h of
                   (res, h') \<Rightarrow> (bind_ok res (\<lambda>x. Inr (x\<lparr>lr_model := JStr model\<rparr>)), h'))
           else (Inl (ProviderError ''gemini'' None ''GEMINI_API_KEY not set''), h))
        else
          (case http (''https://generativelanguage.googleapis.com/v1beta/models/'' @ model @ '':generateContent?key='' @ api_key) []
                 (JObj [(''contents'', JArr [JObj [(''parts'', JArr [JObj [(''text'', prompt_from py_str r)]])]])]) h of
             (answer, h') \<Rightarrow> (bind_ok (http_body ''gemini'' answer) (gemini_answer model), h')))\<rparr>)"

text \<open>Bedrock: boto3 takes region, model and body; \<open>None\<close> when it is not installed.\<close>

type_synonym 'h bedrock = "(string \<Rightarrow> string \<Rightarrow> string \<Rightarrow> 'h \<Rightarrow> (string, string) result \<times> 'h) option"

definition profile_required :: regex where
  "profile_required = Seq (Lit ''anthropic.claude-'')
     (Alt (Lit ''3-5'') (Alt (Lit ''3-7'') (Alt (Lit ''4'') (Alt (Lit ''haiku-4'') (Alt (Lit ''sonnet-4'') (Lit ''opus-4''))))))"

definition normalize_model_id :: "string \<Rightarrow> string" where
  "normalize_model_id model_id = (if re_match profile_required model_id then ''us.'' @ model_id else model_id)"

definition bedrock_answer :: "string \<Rightarrow> string \<Rightarrow> (llm_error, llm_result) result" where
  "bedrock_answer model raw =
     (case loads raw of
        None \<Rightarrow> Inl (OtherError ''JSONDecodeError'')
      | Some data \<Rightarrow>
          bind_ok (obj_get data ''content'' (JArr [])) (\<lambda>blocks. bind_ok (join_blocks True blocks) (\<lambda>content.
            usage_result content (JStr model) (jget_def data ''usage'' (JObj [])) ''input_tokens'' ''output_tokens'')))"

definition bedrock_handler ::
  "(string \<Rightarrow> string option) \<Rightarrow> ((string \<times> json) list \<Rightarrow> string) \<Rightarrow> 'h bedrock \<Rightarrow> string option \<Rightarrow> 'h llm_handler" where
  "bedrock_handler env py_str boto region =
     (let reg = (case region of Some x \<Rightarrow> if x = [] then getenv env ''AWS_REGION'' ''us-east-1'' else x
                  | None \<Rightarrow> getenv env ''AWS_REGION'' ''us-east-1'');
          model_id = normalize_model_id (getenv env ''BEDROCK_MODEL_ID'' ''us.anthropic.claude-haiku-4-5-20251001-v1:0'')
      in \<lparr>lh_name = ''bedrock'', lh_call = (\<lambda>r h.
        case boto of
          None \<Rightarrow> (Inl (ProviderError ''bedrock'' None ''boto3 not installed''), h)
        | Some invoke \<Rightarrow>
            (let body = dumps (JObj [(''anthropic_version'', JStr ''bedrock-2023-05-31''),
                          (''messages'', user_message (prompt_from py_str r)),
                          (''max_tokens'', case map_of (lq_args r) ''max_tokens'' of Some v \<Rightarrow> v | None \<Rightarrow> JInt 1000)])
             in case invoke reg model_id body h of
                  (Inl exc, h') \<Rightarrow> (Inl (ProviderError ''bedrock'' None exc), h')
                | (Inr raw, h') \<Rightarrow> (bedrock_answer model_id raw, h')))\<rparr>)"

definition provider_handlers ::
  "(string \<Rightarrow> string option) \<Rightarrow> ((string \<times> json) list \<Rightarrow> string) \<Rightarrow> 'h http \<Rightarrow> 'h bedrock \<Rightarrow> string option \<Rightarrow> 'h llm_handler list" where
  "provider_handlers env py_str http boto provider =
     (let p = py_lower (case provider of
                Some x \<Rightarrow> if x = [] then getenv env ''LLM_PROVIDER'' ''anthropic'' else x
              | None \<Rightarrow> getenv env ''LLM_PROVIDER'' ''anthropic'');
          ollama = ollama_handler env py_str http
      in if p = ''gemini'' then [gemini_handler env py_str http, ollama]
         else if p = ''openai'' then [openai_handler env py_str http, ollama]
         else if p = ''bedrock'' then [bedrock_handler env py_str boto None]
         else if p = ''ollama'' then [ollama]
         else [anthropic_handler env py_str http, ollama])"

subsection \<open>UnifiedRouter\<close>

record token_usage =
  tu_model :: json
  tu_input_tokens :: json
  tu_output_tokens :: json
  tu_cost_usd :: "rat option"
  tu_sub :: json
  tu_ts :: int

text \<open>
  The world of a router: the state behind the HTTP client, the event log (its \<open>append\<close> is an
  argument, \<open>None\<close> when the router has no log) and the three Prometheus counters.
\<close>

record ('h, 'e) router_world =
  rw_http :: 'h
  rw_log :: 'e
  rw_cost :: "string \<times> json \<Rightarrow> rat"
  rw_input :: "string \<Rightarrow> int"
  rw_output :: "string \<Rightarrow> int"

definition unified_router :: "'h llm_handler list \<Rightarrow> (llm_error, 'h llm_handler list) result" where
  "unified_router handlers =
     (if handlers = [] then Inl (OtherError ''UnifiedRouter requires at least one handler'') else Inr handlers)"

definition provider_factory ::
  "(string \<Rightarrow> string option) \<Rightarrow> ((string \<times> json) list \<Rightarrow> string) \<Rightarrow> 'h http \<Rightarrow> 'h bedrock \<Rightarrow> string option
     \<Rightarrow> (llm_error, 'h llm_handler list) result" where
  "provider_factory env py_str http boto provider = unified_router (provider_handlers env py_str http boto provider)"

definition emit_token_usage ::
  "('e \<Rightarrow> token_usage \<Rightarrow> (string, unit) result \<times> 'e) option \<Rightarrow> int \<Rightarrow> llm_request \<Rightarrow> llm_result
     \<Rightarrow> ('h, 'e) router_world \<Rightarrow> ('h, 'e) router_world" where
  "emit_token_usage log_append now r res w =
     (case log_append of
        None \<Rightarrow> w
      | Some f \<Rightarrow>
          w\<lparr>rw_log := snd (f (rw_log w)
             \<lparr>tu_model = lr_model res, tu_input_tokens = lr_input_tokens res, tu_output_tokens = lr_output_tokens res,
              tu_cost_usd = lr_cost_usd res,
              tu_sub = (case lq_claims r of None \<Rightarrow> JStr ''anonymous''
                        | Some c \<Rightarrow> (case map_of c ''sub'' of Some s \<Rightarrow> s | None \<Rightarrow> JStr ''anonymous'')),
              tu_ts = now\<rparr>)\<rparr>)"

text \<open>
  The accounting after a successful call. A Prometheus counter refuses a negative amount with
  \<open>ValueError\<close>; a count that is no number already failed in \<open>cost_usd\<close>.
\<close>

definition account ::
  "string \<Rightarrow> llm_result \<Rightarrow> ('h, 'e) router_world \<Rightarrow> (llm_error, llm_result) result \<times> ('h, 'e) router_world" where
  "account provider res w =
     (case cost_usd (lr_model res) (lr_input_tokens res) (lr_output_tokens res) of
        Inl e \<Rightarrow> (Inl e, w)
      | Inr cost \<Rightarrow>
          (let res' = res\<lparr>lr_cost_usd := Some cost\<rparr>
           in if cost < 0 then (Inl (OtherError ''ValueError''), w)
              else let w1 = w\<lparr>rw_cost := (rw_cost w)((provider, lr_model res) := rw_cost w (provider, lr_model res) + cost)\<rparr>
              in case token_count (lr_input_tokens res) of
                   Inl e \<Rightarrow> (Inl e, w1)
                 | Inr i \<Rightarrow>
                     if i < 0 then (Inl (OtherError ''ValueError''), w1)
                     else let w2 = w1\<lparr>rw_input := (rw_input w1)(provider := rw_input w1 provider + i)\<rparr>
                     in case token_count (lr_output_tokens res) of
                          Inl e \<Rightarrow> (Inl e, w2)
                        | Inr n \<Rightarrow>
                            if n < 0 then (Inl (OtherError ''ValueError''), w2)
                            else (Inr res', w2\<lparr>rw_output := (rw_output w2)(provider := rw_output w2 provider + n)\<rparr>)))"

text \<open>The loop over the handlers; \<open>last_error\<close> is \<open>None\<close> at first.\<close>

fun route_loop ::
  "('e \<Rightarrow> token_usage \<Rightarrow> (string, unit) result \<times> 'e) option \<Rightarrow> int \<Rightarrow> llm_request \<Rightarrow> llm_error option
     \<Rightarrow> 'h llm_handler list \<Rightarrow> ('h, 'e) router_world \<Rightarrow> (llm_error, llm_result) result \<times> ('h, 'e) router_world" where
  "route_loop log_append now r last_error [] w =
     (Inl (case last_error of Some e \<Rightarrow> e | None \<Rightarrow> OtherError ''TypeError''), w)"
| "route_loop log_append now r last_error (h # hs) w =
     (case lh_call h r (rw_http w) of
        (Inl e, s') \<Rightarrow>
          (if is_provider_error e then route_loop log_append now r (Some e) hs (w\<lparr>rw_http := s'\<rparr>)
           else (Inl e, w\<lparr>rw_http := s'\<rparr>))
      | (Inr res, s') \<Rightarrow>
          (case account (lh_name h) res (w\<lparr>rw_http := s'\<rparr>) of
             (Inl e, w1) \<Rightarrow>
               (if is_provider_error e then route_loop log_append now r (Some e) hs w1 else (Inl e, w1))
           | (Inr res', w1) \<Rightarrow> (Inr res', emit_token_usage log_append now r res' w1)))"

definition route ::
  "('e \<Rightarrow> token_usage \<Rightarrow> (string, unit) result \<times> 'e) option \<Rightarrow> int \<Rightarrow> 'h llm_handler list \<Rightarrow> llm_request
     \<Rightarrow> ('h, 'e) router_world \<Rightarrow> (llm_error, llm_result) result \<times> ('h, 'e) router_world" where
  "route log_append now handlers r w = route_loop log_append now r None handlers w"

subsection \<open>Fallback\<close>

text \<open>All handlers of a list raise \<open>ProviderError\<close>, the last of them \<open>e\<close>, and leave \<open>s'\<close>.\<close>

inductive all_fail :: "llm_request \<Rightarrow> 'h llm_handler list \<Rightarrow> 'h \<Rightarrow> llm_error option \<Rightarrow> llm_error option \<Rightarrow> 'h \<Rightarrow> bool"
  for r :: llm_request where
  all_fail_Nil: "all_fail r [] s e e s"
| all_fail_Cons: "lh_call h r s = (Inl e', s1) \<Longrightarrow> is_provider_error e' \<Longrightarrow> all_fail r hs s1 (Some e') e'' s'
     \<Longrightarrow> all_fail r (h # hs) s e e'' s'"

lemma cost_usd_errors: "cost_usd m i n = Inl e \<Longrightarrow> \<not> is_provider_error e"
proof -
  have tc: "token_count j = Inl e' \<Longrightarrow> \<not> is_provider_error e'" for j e'
    by (cases j) (auto simp: is_provider_error_def)
  show "cost_usd m i n = Inl e \<Longrightarrow> \<not> is_provider_error e"
    by (auto simp: cost_usd_def is_provider_error_def split: json.splits sum.splits prod.splits dest: tc)
qed

lemma account_errors: "account p res w = (Inl e, w') \<Longrightarrow> \<not> is_provider_error e \<and> rw_http w' = rw_http w \<and> rw_log w' = rw_log w"
  by (auto simp: account_def cost_usd_def Let_def is_provider_error_def split: sum.splits if_splits json.splits prod.splits
      elim: token_count.elims)

lemma account_ok:
  assumes "account p res w = (Inr res', w')"
  obtains cost i n where "cost_usd (lr_model res) (lr_input_tokens res) (lr_output_tokens res) = Inr cost"
    and "token_count (lr_input_tokens res) = Inr i" and "token_count (lr_output_tokens res) = Inr n"
    and "0 \<le> cost" and "0 \<le> i" and "0 \<le> n" and "res' = res\<lparr>lr_cost_usd := Some cost\<rparr>"
    and "w' = w\<lparr>rw_cost := (rw_cost w)((p, lr_model res) := rw_cost w (p, lr_model res) + cost),
               rw_input := (rw_input w)(p := rw_input w p + i), rw_output := (rw_output w)(p := rw_output w p + n)\<rparr>"
  using assms by (auto simp: account_def Let_def split: sum.splits if_splits)

lemma route_loop_cases:
  "(\<exists>e' s'. all_fail r hs (rw_http w) e e' s'
      \<and> route_loop log_append now r e hs w = (Inl (case e' of Some x \<Rightarrow> x | None \<Rightarrow> OtherError ''TypeError''), w\<lparr>rw_http := s'\<rparr>))
   \<or> (\<exists>pre h post e' s s' x w'. hs = pre @ h # post \<and> all_fail r pre (rw_http w) e e' s \<and> \<not> is_provider_error x
      \<and> route_loop log_append now r e hs w = (Inl x, w') \<and> rw_log w' = rw_log w \<and> rw_http w' = s'
      \<and> (lh_call h r s = (Inl x, s')
         \<or> (\<exists>res. lh_call h r s = (Inr res, s') \<and> account (lh_name h) res (w\<lparr>rw_http := s'\<rparr>) = (Inl x, w'))))
   \<or> (\<exists>pre h post e' s s' res res' w'. hs = pre @ h # post \<and> all_fail r pre (rw_http w) e e' s
      \<and> lh_call h r s = (Inr res, s') \<and> account (lh_name h) res (w\<lparr>rw_http := s'\<rparr>) = (Inr res', w')
      \<and> route_loop log_append now r e hs w = (Inr res', emit_token_usage log_append now r res' w'))"
    (is "?fail e hs w \<or> ?raise e hs w \<or> ?ok e hs w")
proof (induction hs arbitrary: w e)
  case Nil
  show ?case by (intro disjI1 exI [of _ e] exI [of _ "rw_http w"]) (simp add: all_fail_Nil)
next
  case (Cons h hs)
  obtain a s1 where c: "lh_call h r (rw_http w) = (a, s1)" by (cases "lh_call h r (rw_http w)")
  let ?w1 = "w\<lparr>rw_http := s1\<rparr>"
  show ?case
  proof (cases a)
    case (Inl x)
    show ?thesis
    proof (cases "is_provider_error x")
      case True
      have step: "all_fail r pre s1 (Some x) e' s' \<Longrightarrow> all_fail r (h # pre) (rw_http w) e e' s'" for pre e' s'
        using all_fail_Cons c Inl True by metis
      have eq: "route_loop log_append now r e (h # hs) w = route_loop log_append now r (Some x) hs ?w1" using c Inl True by simp
      from Cons.IH [of ?w1 "Some x"] consider "?fail (Some x) hs ?w1" | "?raise (Some x) hs ?w1" | "?ok (Some x) hs ?w1" by blast
      then show ?thesis
      proof cases
        case 1
        then have "?fail e (h # hs) w" unfolding eq using step by fastforce
        then show ?thesis by blast
      next
        case 2
        then obtain pre g post e' s s' y w' where "hs = pre @ g # post" "all_fail r pre s1 (Some x) e' s" "\<not> is_provider_error y"
          "route_loop log_append now r (Some x) hs ?w1 = (Inl y, w')" "rw_log w' = rw_log w" "rw_http w' = s'"
          "lh_call g r s = (Inl y, s') \<or> (\<exists>res. lh_call g r s = (Inr res, s') \<and> account (lh_name g) res (w\<lparr>rw_http := s'\<rparr>) = (Inl y, w'))"
          by auto
        with step [of pre e' s] have "?raise e (h # hs) w" unfolding eq
          by (intro exI [of _ "h # pre"] exI [of _ g] exI [of _ post] exI [of _ e'] exI [of _ s] exI [of _ s'] exI [of _ y] exI [of _ w']) auto
        then show ?thesis by blast
      next
        case 3
        then obtain pre g post e' s s' res res' w' where "hs = pre @ g # post" "all_fail r pre s1 (Some x) e' s"
          "lh_call g r s = (Inr res, s')" "account (lh_name g) res (w\<lparr>rw_http := s'\<rparr>) = (Inr res', w')"
          "route_loop log_append now r (Some x) hs ?w1 = (Inr res', emit_token_usage log_append now r res' w')"
          by auto
        with step [of pre e' s] have "?ok e (h # hs) w" unfolding eq
          by (intro exI [of _ "h # pre"] exI [of _ g] exI [of _ post] exI [of _ e'] exI [of _ s] exI [of _ s'] exI [of _ res] exI [of _ res'] exI [of _ w']) auto
        then show ?thesis by blast
      qed
    next
      case False
      have "?raise e (h # hs) w"
        by (intro exI [of _ "[]"] exI [of _ h] exI [of _ hs] exI [of _ e] exI [of _ "rw_http w"] exI [of _ s1] exI [of _ x] exI [of _ ?w1])
          (use c Inl False in \<open>auto intro: all_fail_Nil\<close>)
      then show ?thesis by blast
    qed
  next
    case (Inr res)
    obtain b w' where acc: "account (lh_name h) res ?w1 = (b, w')" by (cases "account (lh_name h) res ?w1")
    show ?thesis
    proof (cases b)
      case (Inl x)
      have "\<not> is_provider_error x" "rw_http w' = s1" "rw_log w' = rw_log w" using account_errors acc Inl by fastforce+
      then have "?raise e (h # hs) w"
        by (intro exI [of _ "[]"] exI [of _ h] exI [of _ hs] exI [of _ e] exI [of _ "rw_http w"] exI [of _ s1] exI [of _ x] exI [of _ w'])
          (use c Inl \<open>a = Inr res\<close> acc in \<open>auto intro: all_fail_Nil\<close>)
      then show ?thesis by blast
    next
      case (Inr res')
      have "?ok e (h # hs) w"
        by (intro exI [of _ "[]"] exI [of _ h] exI [of _ hs] exI [of _ e] exI [of _ "rw_http w"] exI [of _ s1] exI [of _ res] exI [of _ res'] exI [of _ w'])
          (use c Inr \<open>a = Inr res\<close> acc in \<open>auto intro: all_fail_Nil\<close>)
      then show ?thesis by blast
    qed
  qed
qed

lemma all_fail_last: "all_fail r hs s e e' s' \<Longrightarrow> hs \<noteq> [] \<Longrightarrow> \<exists>x. e' = Some x \<and> is_provider_error x"
proof (induction rule: all_fail.induct)
  case (all_fail_Cons h s e' s1 hs e'' s' e)
  then show ?case by (cases hs) (auto elim: all_fail.cases)
qed simp

text \<open>
  \<^bold>\<open>C16.\<close> Fallback: a routed request is answered by the first handler in order that does not raise
  \<open>ProviderError\<close>, after all handlers before it raised one; its cost is that of the cost table,
  it is charged to that provider's counter and no other, and exactly one usage record goes to the
  log. If the router raises, no usage is recorded, and either all handlers failed and the
  last \<open>ProviderError\<close> comes out, or a handler broke in another way, which stops the fallback.
\<close>

theorem route_first_success:
  assumes "handlers \<noteq> []" and "route log_append now handlers r w = (a, w')"
  shows "case a of
      Inr res' \<Rightarrow> \<exists>pre h post e s s' res cost. handlers = pre @ h # post \<and> all_fail r pre (rw_http w) None e s
        \<and> lh_call h r s = (Inr res, s')
        \<and> cost_usd (lr_model res) (lr_input_tokens res) (lr_output_tokens res) = Inr cost \<and> 0 \<le> cost
        \<and> res' = res\<lparr>lr_cost_usd := Some cost\<rparr>
        \<and> rw_cost w' = (rw_cost w)((lh_name h, lr_model res) := rw_cost w (lh_name h, lr_model res) + cost)
        \<and> (\<forall>f. log_append = Some f \<longrightarrow> (\<exists>tu. rw_log w' = snd (f (rw_log w) tu)
              \<and> tu_model tu = lr_model res \<and> tu_cost_usd tu = Some cost \<and> tu_ts tu = now))
    | Inl x \<Rightarrow> rw_log w' = rw_log w \<and>
        (if is_provider_error x then \<exists>s'. all_fail r handlers (rw_http w) None (Some x) s'
         else \<exists>pre h post e s. handlers = pre @ h # post \<and> all_fail r pre (rw_http w) None e s
           \<and> (\<forall>pe s'. lh_call h r s = (Inl pe, s') \<longrightarrow> pe = x))"
proof -
  have eq: "route_loop log_append now r None handlers w = (a, w')" using assms(2) by (simp add: route_def)
  from route_loop_cases [of r handlers w None log_append now] show ?thesis
  proof (elim disjE exE conjE)
    fix e' s' assume f: "all_fail r handlers (rw_http w) None e' s'" and
      l: "route_loop log_append now r None handlers w = (Inl (case e' of Some x \<Rightarrow> x | None \<Rightarrow> OtherError ''TypeError''), w\<lparr>rw_http := s'\<rparr>)"
    obtain x where x: "e' = Some x" "is_provider_error x" using all_fail_last [OF f assms(1)] by blast
    with f l eq show ?thesis by auto
  next
    fix pre h post e' s s' x w1
    assume "handlers = pre @ h # post" "all_fail r pre (rw_http w) None e' s" "\<not> is_provider_error x"
      "route_loop log_append now r None handlers w = (Inl x, w1)" "rw_log w1 = rw_log w" "rw_http w1 = s'" "lh_call h r s = (Inl x, s')"
    with eq show ?thesis by fastforce
  next
    fix pre h post e' s s' x w1 res
    assume "handlers = pre @ h # post" "all_fail r pre (rw_http w) None e' s" "\<not> is_provider_error x"
      "route_loop log_append now r None handlers w = (Inl x, w1)" "rw_log w1 = rw_log w" "rw_http w1 = s'" "lh_call h r s = (Inr res, s')"
    with eq show ?thesis by fastforce
  next
    fix pre h post e' s s' res res' w1
    assume h: "handlers = pre @ h # post" "all_fail r pre (rw_http w) None e' s" "lh_call h r s = (Inr res, s')"
      and acc: "account (lh_name h) res (w\<lparr>rw_http := s'\<rparr>) = (Inr res', w1)"
      and l: "route_loop log_append now r None handlers w = (Inr res', emit_token_usage log_append now r res' w1)"
    from acc obtain cost i n where c: "cost_usd (lr_model res) (lr_input_tokens res) (lr_output_tokens res) = Inr cost"
      "0 \<le> cost" "res' = res\<lparr>lr_cost_usd := Some cost\<rparr>" "rw_log w1 = rw_log w"
      "rw_cost w1 = (rw_cost w)((lh_name h, lr_model res) := rw_cost w (lh_name h, lr_model res) + cost)"
      by (rule account_ok) auto
    have "rw_cost (emit_token_usage log_append now r res' w1) = rw_cost w1" by (simp add: emit_token_usage_def split: option.splits)
    moreover have "\<exists>tu. rw_log (emit_token_usage log_append now r res' w1) = snd (f (rw_log w) tu)
        \<and> tu_model tu = lr_model res \<and> tu_cost_usd tu = Some cost \<and> tu_ts tu = now" if "log_append = Some f" for f
      using c that by (force simp: emit_token_usage_def)
    moreover have "a = Inr res'" "w' = emit_token_usage log_append now r res' w1" using l eq by simp_all
    ultimately show ?thesis
      by (simp del: fun_upd_apply) (intro exI [of _ pre] exI [of _ h] exI [of _ "post"] exI [of _ e'] exI [of _ s] exI [of _ s'] exI [of _ res] exI [of _ cost] conjI h c; simp add: c)
  qed
qed

text \<open>A run where the first provider is unreachable and the second answers.\<close>

definition down_then_up :: "nat http" where
  "down_then_up url headers payload n =
     (if n = 0 then (HConnect ''refused'' ''ConnectError'', 1)
      else (HResponse 200 [] (Some (JObj [(''choices'', JArr [JObj [(''message'', JObj [(''content'', JStr ''ok'')])]])])), n + 1))"

lemma route_first_success_witness:
  "\<exists>h res'. h \<in> set [anthropic_handler (\<lambda>_. None) (\<lambda>_. ''{}'') down_then_up, openai_handler (\<lambda>_. None) (\<lambda>_. ''{}'') down_then_up]
    \<and> fst (route (Some (\<lambda>(l :: token_usage list) tu. (Inr (), l @ [tu]))) 5
        [anthropic_handler (\<lambda>_. None) (\<lambda>_. ''{}'') down_then_up, openai_handler (\<lambda>_. None) (\<lambda>_. ''{}'') down_then_up]
        \<lparr>lq_tool_name = ''chat'', lq_args = [], lq_claims = None, lq_prompt = JStr ''hi''\<rparr>
        \<lparr>rw_http = 0, rw_log = [], rw_cost = (\<lambda>_. 0), rw_input = (\<lambda>_. 0), rw_output = (\<lambda>_. 0)\<rparr>) = Inr res'
    \<and> lr_cost_usd res' \<noteq> None"
proof -
  let ?hs = "[anthropic_handler (\<lambda>_. None) (\<lambda>_. ''{}'') down_then_up, openai_handler (\<lambda>_. None) (\<lambda>_. ''{}'') down_then_up]"
  let ?r = "\<lparr>lq_tool_name = ''chat'', lq_args = [], lq_claims = None, lq_prompt = JStr ''hi''\<rparr>"
  let ?w = "\<lparr>rw_http = 0, rw_log = [], rw_cost = (\<lambda>_. 0), rw_input = (\<lambda>_. 0), rw_output = (\<lambda>_. 0)\<rparr> :: (nat, token_usage list) router_world"
  let ?f = "Some (\<lambda>(l :: token_usage list) tu. (Inr () :: (string, unit) result, l @ [tu]))"
  obtain a w' where e: "route ?f 5 ?hs ?r ?w = (a, w')" by (metis prod.exhaust)
  have m: "normalize_bedrock_model ''gpt-4o-mini'' = ''gpt-4o-mini''" by code_simp
  have c: "cost_usd (JStr ''gpt-4o-mini'') (JInt 0) (JInt 0) = Inr 0" by (simp add: cost_usd_def m cost_per_m_def)
  have "is_ok (fst (route ?f 5 ?hs ?r ?w))"
    by (simp add: route_def anthropic_handler_def openai_handler_def down_then_up_def http_body_def is_provider_error_def
        openai_answer_def obj_get_def obj_item_def list_head_def usage_result_def jget_def_def jget_def getenv_def
        account_def c emit_token_usage_def)
  then obtain res' where a: "a = Inr res'" using e by (auto simp: is_ok_iff)
  have "?hs \<noteq> []" by simp
  from route_first_success [OF this e] have "\<exists>pre h post. ?hs = pre @ h # post \<and> lr_cost_usd res' \<noteq> None"
    unfolding a sum.case by (elim exE conjE) auto
  then obtain pre h post where p: "?hs = pre @ h # post" "lr_cost_usd res' \<noteq> None" by blast
  then have "h \<in> set ?hs" by (metis in_set_conv_decomp)
  with p(2) e a show ?thesis by auto
qed

text \<open>
  The Bedrock identifier of Claude 3.5 Sonnet is normalised to a name the cost table does not
  have, so every call to it is priced at zero, whatever its token counts; the Anthropic
  identifier of the same model is priced at 3 and 15 dollars per million tokens.
\<close>

theorem bedrock_sonnet_unpriced:
  "cost_usd (JStr ''us.anthropic.claude-3-5-sonnet-20241022-v2:0'') (JInt i) (JInt n) = Inr 0
   \<and> cost_usd (JStr ''claude-3-5-sonnet-20241022'') (JInt i) (JInt n) = Inr ((of_int i * 3 + of_int n * 15) / 1000000)"
proof -
  have a: "cost_per_m (normalize_bedrock_model ''us.anthropic.claude-3-5-sonnet-20241022-v2:0'') = None" by code_simp
  have b: "normalize_bedrock_model ''claude-3-5-sonnet-20241022'' = ''claude-3-5-sonnet-20241022''" by code_simp
  have c: "cost_per_m ''claude-3-5-sonnet-20241022'' = Some (3, 15)" by (simp add: cost_per_m_def)
  show ?thesis by (simp add: cost_usd_def a b c)
qed

text \<open>Every identifier the factory can hand to Bedrock by default has a price.\<close>

lemma bedrock_default_priced:
  "normalize_bedrock_model (normalize_model_id ''us.anthropic.claude-haiku-4-5-20251001-v1:0'') = ''claude-haiku-4-5''"
  "normalize_bedrock_model (normalize_model_id ''anthropic.claude-haiku-4-5-20251001-v1:0'') = ''claude-haiku-4-5''"
  by code_simp+

end
