(* ===== verification/Json_Pretty.thy ===== *)
theory Json_Pretty
  imports Json
begin

section \<open>Indented JSON (\<open>json.dumps(v, indent=2)\<close>)\<close>

text \<open>
  \<open>pretty n j\<close> prints \<open>j\<close> at nesting depth \<open>n\<close>, one element or member a line. What is printed is read
  back as the same value (\<open>loads_pretty\<close>).
\<close>

abbreviation nl :: string where "nl \<equiv> [CHR 0x0A]"

fun pretty :: "nat \<Rightarrow> json \<Rightarrow> string"
  and pretty_list :: "nat \<Rightarrow> json list \<Rightarrow> string"
  and pretty_items :: "nat \<Rightarrow> (string \<times> json) list \<Rightarrow> string" where
  "pretty n (JArr []) = ''[]''"
| "pretty n (JArr (x # xs)) = ''['' @ pretty_list (n + 1) (x # xs) @ nl @ replicate (2 * n) (CHR '' '') @ '']''"
| "pretty n (JObj []) = ''{}''"
| "pretty n (JObj (kv # kvs)) = ''{'' @ pretty_items (n + 1) (kv # kvs) @ nl @ replicate (2 * n) (CHR '' '') @ ''}''"
| "pretty n j = dumps j"
| "pretty_list n [] = []"
| "pretty_list n (x # xs) =
     nl @ replicate (2 * n) (CHR '' '') @ pretty n x @ (if xs = [] then [] else '','') @ pretty_list n xs"
| "pretty_items n [] = []"
| "pretty_items n ((k, v) # kvs) =
     nl @ replicate (2 * n) (CHR '' '') @ dump_str k @ '': '' @ pretty n v @ (if kvs = [] then [] else '','') @ pretty_items n kvs"

subsection \<open>White space\<close>

definition blank :: "string \<Rightarrow> bool" where
  "blank ws \<longleftrightarrow> list_all json_space ws"

lemma blank_indent [simp]: "blank (nl @ replicate k (CHR '' ''))" "blank (CHR 0x0A # replicate k (CHR '' ''))"
  by (induction k) (simp_all add: blank_def json_space_def)

lemma skip_ws_blank: "blank ws \<Longrightarrow> skip_ws (ws @ s) = skip_ws s"
  by (induction ws) (simp_all add: blank_def skip_ws_def)

lemma parse_value_blank: "blank ws \<Longrightarrow> parse_value n (ws @ s) = parse_value n s"
  by (cases n) (simp_all add: skip_ws_blank)

lemma parse_object_blank: "blank ws \<Longrightarrow> parse_object n (ws @ s) = parse_object n s"
  by (cases n) (simp_all add: skip_ws_blank)

lemma parse_array_blank: "blank ws \<Longrightarrow> parse_array n (ws @ s) = parse_array n s"
  by (cases n) (simp_all add: parse_value_blank)

lemma ends_value_newline [simp]: "ends_value (CHR 0x0A # r)"
  by (simp add: ends_value_def num_char_def is_digit_def code_def)

lemma pretty_scalar: "(\<forall>xs. v \<noteq> JArr xs) \<Longrightarrow> (\<forall>kvs. v \<noteq> JObj kvs) \<Longrightarrow> pretty n v = dumps v"
  by (cases v) auto

subsection \<open>The round trip\<close>

lemma array_step:
  assumes "parse_value m (s @ t) = Some (v, t)" and "blank ws"
  shows "t = ws @ CHR '']'' # r \<Longrightarrow> parse_array (Suc m) (s @ t) = Some ([v], r)"
    and "t = CHR '','' # r \<Longrightarrow> parse_array (Suc m) (s @ t) = map_option (\<lambda>(vs, z). (v # vs, z)) (parse_array m r)"
  using assms by (simp_all add: skip_ws_blank)

lemma object_step:
  assumes "parse_value m (s @ t) = Some (v, t)" and "blank ws"
  shows "t = ws @ CHR ''}'' # r \<Longrightarrow> parse_object (Suc m) (dump_str k @ '': '' @ s @ t) = Some ([(k, v)], r)"
    and "t = CHR '','' # r \<Longrightarrow> parse_object (Suc m) (dump_str k @ '': '' @ s @ t)
      = map_option (\<lambda>(kvs, z). ((k, v) # kvs, z)) (parse_object m r)"
  using parse_object_key [of m k "s @ t"] assms by (simp_all add: skip_ws_blank del: parse_object.simps)

lemma pretty_list_start: "xs \<noteq> [] \<Longrightarrow> \<exists>cs. pretty_list n xs = nl @ replicate (2 * n) (CHR '' '') @ pretty n (hd xs) @ cs"
  by (cases xs) auto

lemma pretty_items_start: "kvs \<noteq> [] \<Longrightarrow> \<exists>cs. pretty_items n kvs = nl @ replicate (2 * n) (CHR '' '') @ quote # cs"
  by (cases kvs) (auto simp: dump_str_def)

lemma pretty_start: "json_ok v \<Longrightarrow> \<exists>c cs. pretty n v = c # cs \<and> \<not> json_space c \<and> c \<noteq> CHR '']''"
  using dumps_start [of v] by (cases "(n, v)" rule: pretty.cases) (auto simp: json_space_def)

lemma skip_ws_Cons: "\<not> json_space c \<Longrightarrow> skip_ws (c # cs) = c # cs"
  by (simp add: skip_ws_def)

lemma parse_pretty_scalar:
  "pretty n v = dumps v \<Longrightarrow> json_ok v \<Longrightarrow> jfuel v \<le> m \<Longrightarrow> ends_value r \<Longrightarrow> parse_value m (pretty n v @ r) = Some (v, r)"
  using parse_dumps(1) [of v m r] by simp

lemma parse_pretty:
  "json_ok v \<Longrightarrow> jfuel v \<le> m \<Longrightarrow> ends_value r \<Longrightarrow> parse_value m (pretty n v @ r) = Some (v, r)"
  "xs \<noteq> [] \<Longrightarrow> \<forall>x \<in> set xs. json_ok x \<Longrightarrow> jfuel_list xs \<le> m \<Longrightarrow> blank ws \<Longrightarrow> ends_value (ws @ CHR '']'' # r)
     \<Longrightarrow> parse_array m (pretty_list n xs @ ws @ CHR '']'' # r) = Some (xs, r)"
  "kvs \<noteq> [] \<Longrightarrow> \<forall>kv \<in> set kvs. json_ok (snd kv) \<Longrightarrow> jfuel_items kvs \<le> m \<Longrightarrow> blank ws \<Longrightarrow> ends_value (ws @ CHR ''}'' # r)
     \<Longrightarrow> parse_object m (pretty_items n kvs @ ws @ CHR ''}'' # r) = Some (kvs, r)"
proof (induction n v and n xs and n kvs arbitrary: m r and m ws r and m ws r rule: pretty_pretty_list_pretty_items.induct)
  case (1 n)
  then show ?case by (cases m) (simp_all add: skip_ws_def json_space_def)
next
  case (2 n x xs)
  then obtain k where m: "m = Suc k" "jfuel_list (x # xs) \<le> k" by (cases m) auto
  let ?body = "pretty_list (n + 1) (x # xs)" and ?ws = "nl @ replicate (2 * n) (CHR '' '')"
  have parsed: "parse_array k (?body @ ?ws @ CHR '']'' # r) = Some (x # xs, r)"
    using "2.prems" m by (intro "2.IH") simp_all
  obtain c cs where c: "pretty (n + 1) x = c # cs" "\<not> json_space c" "c \<noteq> CHR '']''"
    using pretty_start [of x "n + 1"] "2.prems" by auto
  obtain t where t: "?body = nl @ replicate (2 * (n + 1)) (CHR '' '') @ pretty (n + 1) x @ t"
    using pretty_list_start [of "x # xs" "n + 1"] by auto
  have "skip_ws (?body @ ?ws @ CHR '']'' # r) = c # cs @ t @ ?ws @ CHR '']'' # r"
    unfolding t c(1) append_assoc
    using skip_ws_blank [OF blank_indent(1) [of "2 * (n + 1)"]] skip_ws_Cons [OF c(2)] by simp
  with parsed m c show ?case by (simp add: skip_ws_Cons json_space_def del: pretty_list.simps)
next
  case (3 n)
  then show ?case by (cases m) (simp_all add: skip_ws_def json_space_def)
next
  case (4 n kv kvs)
  then obtain k where m: "m = Suc k" "jfuel_items (kv # kvs) \<le> k" by (cases m) auto
  let ?body = "pretty_items (n + 1) (kv # kvs)" and ?ws = "nl @ replicate (2 * n) (CHR '' '')"
  have parsed: "parse_object k (?body @ ?ws @ CHR ''}'' # r) = Some (kv # kvs, r)"
    using "4.prems" m by (intro "4.IH") simp_all
  obtain t where t: "?body = nl @ replicate (2 * (n + 1)) (CHR '' '') @ quote # t"
    using pretty_items_start [of "kv # kvs" "n + 1"] by auto
  have "skip_ws (?body @ ?ws @ CHR ''}'' # r) = quote # t @ ?ws @ CHR ''}'' # r"
    unfolding t append_assoc
    using skip_ws_blank [OF blank_indent(1) [of "2 * (n + 1)"]] by (simp add: skip_ws_Cons json_space_def)
  with parsed m 4 show ?case
    using fold_update_distinct [of "kv # kvs" "[]"] by (simp add: skip_ws_Cons json_space_def del: pretty_items.simps)
next
  case "5_1"
  from this show ?case by (intro parse_pretty_scalar) simp_all
next
  case "5_2"
  from this show ?case by (intro parse_pretty_scalar) simp_all
next
  case "5_3"
  from this show ?case by (intro parse_pretty_scalar) simp_all
next
  case "5_4"
  from this show ?case by (intro parse_pretty_scalar) simp_all
next
  case "5_5"
  from this show ?case by (intro parse_pretty_scalar) simp_all
next
  case (7 n x xs)
  then obtain k where m: "m = Suc k" "jfuel x \<le> k" "jfuel_list xs \<le> k" by (cases m) auto
  show ?case
  proof (cases "xs = []")
    case True
    have "parse_value k (pretty n x @ ws @ CHR '']'' # r) = Some (x, ws @ CHR '']'' # r)"
      using "7.IH"(1) "7.prems" m by simp
    from array_step(1) [OF this "7.prems"(4) refl] True m show ?thesis
      using parse_array_blank [OF blank_indent(1) [of "2 * n"]] by simp
  next
    case False
    have "parse_value k (pretty n x @ CHR '','' # pretty_list n xs @ ws @ CHR '']'' # r)
        = Some (x, CHR '','' # pretty_list n xs @ ws @ CHR '']'' # r)"
      using "7.IH"(1) "7.prems" m by simp
    from array_step(2) [OF this "7.prems"(4) refl]
    have "parse_array m (pretty n x @ CHR '','' # pretty_list n xs @ ws @ CHR '']'' # r) = Some (x # xs, r)"
      using "7.IH"(2) "7.prems" m False by simp
    then show ?thesis using parse_array_blank [OF blank_indent(1) [of "2 * n"]] False by simp
  qed
next
  case (9 n key v kvs)
  then obtain k where m: "m = Suc k" "jfuel v \<le> k" "jfuel_items kvs \<le> k" by (cases m) auto
  show ?case
  proof (cases "kvs = []")
    case True
    have "parse_value k (pretty n v @ ws @ CHR ''}'' # r) = Some (v, ws @ CHR ''}'' # r)"
      using "9.IH"(1) "9.prems" m by simp
    from object_step(1) [OF this "9.prems"(4) refl, of key] True m show ?thesis
      using parse_object_blank [OF blank_indent(1) [of "2 * n"]] by simp
  next
    case False
    have "parse_value k (pretty n v @ CHR '','' # pretty_items n kvs @ ws @ CHR ''}'' # r)
        = Some (v, CHR '','' # pretty_items n kvs @ ws @ CHR ''}'' # r)"
      using "9.IH"(1) "9.prems" m by simp
    from object_step(2) [OF this "9.prems"(4) refl, of key]
    have "parse_object m (dump_str key @ '': '' @ pretty n v @ CHR '','' # pretty_items n kvs @ ws @ CHR ''}'' # r) = Some ((key, v) # kvs, r)"
      using "9.IH"(2) "9.prems" m False by simp
    then show ?thesis using parse_object_blank [OF blank_indent(1) [of "2 * n"]] False by simp
  qed
qed simp_all

lemma jfuel_pretty_scalar: "pretty n v = dumps v \<Longrightarrow> json_ok v \<Longrightarrow> jfuel v \<le> length (pretty n v)"
  using jfuel_length(1) [of v] by simp

lemma jfuel_pretty:
  "json_ok v \<Longrightarrow> jfuel v \<le> length (pretty n v)"
  "\<forall>x \<in> set xs. json_ok x \<Longrightarrow> jfuel_list xs \<le> length (pretty_list n xs)"
  "\<forall>kv \<in> set kvs. json_ok (snd kv) \<Longrightarrow> jfuel_items kvs \<le> length (pretty_items n kvs)"
proof (induction n v and n xs and n kvs rule: pretty_pretty_list_pretty_items.induct)
  case "5_3"
  from this show ?case by (intro jfuel_pretty_scalar) simp_all
next
  case "5_4"
  from this show ?case by (intro jfuel_pretty_scalar) simp_all
qed (auto simp: dump_str_def)

theorem loads_pretty: "json_ok v \<Longrightarrow> loads (pretty n v) = Some v"
  using parse_pretty(1) [of v "Suc (length (pretty n v))" "[]" n] jfuel_pretty(1) [of v n]
  by (simp add: loads_def skip_ws_def)

end
