(* ===== verification/Optimizer.thy ===== *)
theory Optimizer
  imports Json Json_Pretty
begin

section \<open>Offline prompt optimisation (optimizer.py)\<close>

text \<open>
  Traces, the GEPA fallback (mutation and selection), \<open>PromptOptimizer\<close> (ingestion, compilation
  per role and phase) and \<open>SkillCompiler\<close> over a file system that maps paths to contents. The
  libraries gepa, dspy, aiokafka, pydantic's validation and SHA-1 are arguments. The em dash of
  two prompts stands as its three UTF-8 bytes. Scores and times are exact reals.
\<close>

definition em_dash :: string where
  "em_dash = [CHR 0xE2, CHR 0x80, CHR 0x94]"

record trace_record =
  tr_trace_id :: string
  tr_task :: string
  tr_phase :: string
  tr_prompt_template :: string
  tr_actor_output :: string
  tr_evaluation_score :: real
  tr_evaluation_findings :: "string list"
  tr_timestamp :: real
  tr_metadata :: "(string \<times> string) list"

definition is_failure :: "trace_record \<Rightarrow> bool" where
  "is_failure t = (tr_evaluation_score t < 6 / 10)"

record example =
  ex_task :: string
  ex_output :: string
  ex_score :: real

record skill_asset =
  sa_skill_id :: string
  sa_role :: string
  sa_phase :: string
  sa_system_prompt :: string
  sa_few_shot_examples :: "example list"
  sa_performance_score :: real
  sa_optimized_at :: real
  sa_optimizer_version :: string
  sa_source :: string

subsection \<open>GEPA: mutation and selection\<close>

record gepa_evolver =
  ge_max_generations :: int
  ge_population_size :: int
  ge_mutation_temperature :: real

definition gepa_init :: "int \<Rightarrow> gepa_evolver" where
  "gepa_init max_generations =
     \<lparr>ge_max_generations = max_generations, ge_population_size = 4, ge_mutation_temperature = 7 / 10\<rparr>"

definition mentions :: "string list \<Rightarrow> string list \<Rightarrow> bool" where
  "mentions ws findings = list_ex (\<lambda>f. list_ex (\<lambda>w. str_in w (py_lower f)) ws) findings"

definition constraint_clauses :: "string list \<Rightarrow> string list" where
  "constraint_clauses findings =
     (let clauses =
        (if mentions [''word''] findings
         then [''Respect all length constraints strictly '' @ em_dash @ '' do not exceed stated word limits.''] else []) @
        (if mentions [''field'', ''required''] findings
         then [''Always include all required output fields in your response.''] else []) @
        (if mentions [''term'', ''absent''] findings
         then [''Ensure every required keyword or concept appears explicitly in the output.''] else [])
      in if clauses = [] then [''Be precise and address every aspect of the task before responding.''] else clauses)"

definition generate_candidates :: "gepa_evolver \<Rightarrow> string \<Rightarrow> trace_record list \<Rightarrow> string list" where
  "generate_candidates g base_prompt traces =
     (let clauses = slice_to (constraint_clauses (concat (map tr_evaluation_findings traces))) (ge_population_size g)
      in map (\<lambda>(i, clause). base_prompt @ nl @ nl @ ''Constraint reminder ('' @ show_nat (i + 1) @ ''): '' @ clause)
           (zip [0..<length clauses] clauses))"

definition addresses :: "string \<Rightarrow> string \<Rightarrow> bool" where
  "addresses prompt finding =
     list_ex (\<lambda>kw. kw \<notin> {''the'', ''a'', ''is'', ''in'', ''of''} \<and> str_in kw (py_lower prompt)) (py_split (py_lower finding))"

fun count_addressed :: "string \<Rightarrow> trace_record list \<Rightarrow> nat" where
  "count_addressed prompt [] = 0"
| "count_addressed prompt (t # ts) =
     (if list_ex (addresses prompt) (tr_evaluation_findings t) then 1 else 0) + count_addressed prompt ts"

definition score_candidate :: "string \<Rightarrow> trace_record list \<Rightarrow> real" where
  "score_candidate prompt traces =
     (if traces = [] then 1 else of_nat (count_addressed prompt traces) / of_nat (length traces))"

fun select_best :: "trace_record list \<Rightarrow> string list \<Rightarrow> string \<Rightarrow> real \<Rightarrow> string \<times> real" where
  "select_best traces [] best_prompt best_score = (best_prompt, best_score)"
| "select_best traces (c # cs) best_prompt best_score =
     (let score = score_candidate c traces
      in if best_score < score then select_best traces cs c score
         else select_best traces cs best_prompt best_score)"

definition evolve_builtin :: "gepa_evolver \<Rightarrow> string \<Rightarrow> trace_record list \<Rightarrow> string \<times> real" where
  "evolve_builtin g base_prompt traces =
     select_best traces (generate_candidates g base_prompt traces) base_prompt (score_candidate base_prompt traces)"

text \<open>
  The gepa library: \<open>None\<close> stands for the \<open>ImportError\<close> or \<open>AttributeError\<close> that make \<open>evolve\<close>
  fall back, \<open>Inl\<close> for another exception.
\<close>

type_synonym gepa_lib =
  "string \<Rightarrow> (string \<times> string \<times> real) list \<Rightarrow> gepa_evolver \<Rightarrow> ((string, string \<times> real) result) option"

definition evolve_with_gepa :: "gepa_lib \<Rightarrow> gepa_evolver \<Rightarrow> string \<Rightarrow> trace_record list \<Rightarrow> ((string, string \<times> real) result) option" where
  "evolve_with_gepa gepa g base_prompt traces =
     gepa base_prompt (map (\<lambda>t. (tr_task t, tr_actor_output t, tr_evaluation_score t)) traces) g"

definition evolve :: "gepa_lib \<Rightarrow> gepa_evolver \<Rightarrow> string \<Rightarrow> trace_record list \<Rightarrow> (string, string \<times> real) result" where
  "evolve gepa g base_prompt traces =
     (case evolve_with_gepa gepa g base_prompt traces of
        Some r \<Rightarrow> r | None \<Rightarrow> Inr (evolve_builtin g base_prompt traces))"

lemma addresses_mono: "addresses p f \<Longrightarrow> addresses (p @ q) f"
  by (auto simp: addresses_def list_ex_iff intro: str_in_append)

lemma count_addressed_mono: "count_addressed p ts \<le> count_addressed (p @ q) ts"
proof (induction ts)
  case (Cons t ts)
  have "list_ex (addresses p) (tr_evaluation_findings t) \<Longrightarrow> list_ex (addresses (p @ q)) (tr_evaluation_findings t)"
    by (auto simp: list_ex_iff intro: addresses_mono)
  with Cons show ?case by simp
qed simp

lemma count_addressed_le: "count_addressed p ts \<le> length ts"
  by (induction ts) auto

lemma score_range: "0 \<le> score_candidate p ts" "score_candidate p ts \<le> 1"
  using count_addressed_le [of p ts] by (auto simp: score_candidate_def divide_le_eq_1)

lemma score_mono: "score_candidate p ts \<le> score_candidate (p @ q) ts"
  using count_addressed_mono [of p ts q] by (simp add: score_candidate_def divide_right_mono)

lemma select_best_spec:
  assumes "select_best ts cs b (score_candidate b ts) = (p, s)"
  shows "p \<in> set (b # cs) \<and> s = score_candidate p ts \<and> (\<forall>c \<in> set (b # cs). score_candidate c ts \<le> s)
    \<and> (p = b \<or> score_candidate b ts < s)"
  using assms
proof (induction cs arbitrary: b)
  case (Cons c cs)
  let ?b = "if score_candidate b ts < score_candidate c ts then c else b"
  have "select_best ts cs ?b (score_candidate ?b ts) = (p, s)" using Cons.prems by (auto simp: Let_def split: if_splits)
  from Cons.IH [OF this] show ?case by (auto split: if_splits)
qed simp

lemma candidates_extend: "c \<in> set (generate_candidates g p ts) \<Longrightarrow> \<exists>q. c = p @ q"
  by (auto simp: generate_candidates_def Let_def)

lemma constraint_clauses_nonempty: "constraint_clauses fs \<noteq> []" "length (constraint_clauses fs) \<le> 3"
  by (auto simp: constraint_clauses_def Let_def)

text \<open>
  \<^bold>\<open>C17.\<close> The built-in evolution returns the best prompt of its population: the score it reports is
  that of the prompt it returns, lies in [0, 1] and is the maximum over the base prompt and all
  candidates; the base prompt is kept unless a candidate is strictly better. Every candidate
  extends the base prompt and scores at least as high, and there are at most
  \<open>population_size\<close> (and never more than three) candidates.
\<close>

theorem evolve_builtin_best:
  assumes "evolve_builtin g base traces = (p, s)"
  shows "s = score_candidate p traces \<and> 0 \<le> s \<and> s \<le> 1
    \<and> p \<in> insert base (set (generate_candidates g base traces))
    \<and> (p = base \<or> score_candidate base traces < s)
    \<and> (\<forall>c \<in> set (generate_candidates g base traces). score_candidate c traces \<le> s
         \<and> score_candidate base traces \<le> score_candidate c traces \<and> (\<exists>q. c = base @ q))
    \<and> (0 \<le> ge_population_size g \<longrightarrow> int (length (generate_candidates g base traces)) \<le> min 3 (ge_population_size g))"
proof -
  have sel: "select_best traces (generate_candidates g base traces) base (score_candidate base traces) = (p, s)"
    using assms by (simp add: evolve_builtin_def)
  note spec = select_best_spec [OF sel]
  have ext: "score_candidate base traces \<le> score_candidate c traces \<and> (\<exists>q. c = base @ q)"
    if "c \<in> set (generate_candidates g base traces)" for c
    using candidates_extend [OF that] score_mono by auto
  have "int (length (generate_candidates g base traces)) \<le> min 3 (ge_population_size g)" if "0 \<le> ge_population_size g"
    using constraint_clauses_nonempty(2) [of "concat (map tr_evaluation_findings traces)"] that
    by (auto simp: generate_candidates_def Let_def slice_to_def min_def)
  then show ?thesis using spec ext score_range by auto
qed

lemma evolve_builtin_best_witness:
  "snd (evolve_builtin (gepa_init 5) ''Plan.'' []) \<le> 1"
  using evolve_builtin_best [of "gepa_init 5" "''Plan.''" "[]" "fst (evolve_builtin (gepa_init 5) ''Plan.'' [])"
      "snd (evolve_builtin (gepa_init 5) ''Plan.'' [])"] by simp

subsection \<open>DSPy\<close>

text \<open>
  The dspy package, when installed: which teleprompters exist and what compiling a training set
  of (task, output) pairs gives: the demos of the compiled module (\<open>None\<close> for one that is no
  dict), or an exception.
\<close>

record dspy_lib =
  dl_has_optimizer :: "string \<Rightarrow> bool"
  dl_compile :: "string \<Rightarrow> string \<Rightarrow> (string \<times> string) list \<Rightarrow> (string, (string \<times> string) option list) result"

definition dspy_metric :: "string \<Rightarrow> real" where
  "dspy_metric output = min 1 (of_nat (length (py_split output)) / 30)"

definition example_text :: "string \<times> string \<Rightarrow> string" where
  "example_text d = ''Example task: '' @ fst d @ nl @ ''Example output: '' @ snd d"

definition compile_with_dspy :: "dspy_lib option \<Rightarrow> string \<Rightarrow> string \<Rightarrow> trace_record list \<Rightarrow> string \<Rightarrow> string" where
  "compile_with_dspy dspy optimizer base_prompt traces phase =
     (case dspy of
        None \<Rightarrow> base_prompt
      | Some lib \<Rightarrow>
          (let passing = take 20 (filter (\<lambda>t. \<not> is_failure t) traces)
           in if passing = [] then base_prompt
              else if \<not> dl_has_optimizer lib optimizer then base_prompt
              else (case dl_compile lib optimizer phase (map (\<lambda>t. (tr_task t, tr_actor_output t)) passing) of
                      Inl _ \<Rightarrow> base_prompt
                    | Inr demos \<Rightarrow>
                        if demos = [] then base_prompt
                        else base_prompt @ nl @ nl
                          @ py_join (nl @ nl) (map example_text (List.map_filter id (take 3 demos))))))"

definition compile_with_dspy_safe :: "dspy_lib option \<Rightarrow> string \<Rightarrow> string \<Rightarrow> trace_record list \<Rightarrow> string \<Rightarrow> string" where
  "compile_with_dspy_safe dspy optimizer base_prompt traces phase =
     (case dspy of None \<Rightarrow> base_prompt | Some lib \<Rightarrow> compile_with_dspy dspy optimizer base_prompt traces phase)"

subsection \<open>PromptOptimizer\<close>

definition default_prompt :: "string \<Rightarrow> string \<Rightarrow> string" where
  "default_prompt role phase =
     (if role = ''actor'' \<and> phase = ''plan'' then
        ''You are a planning agent. Analyse the task and produce a structured JSON plan ''
        @ ''with '' @ [CHR 0x27] @ ''intent'' @ [CHR 0x27] @ '' and '' @ [CHR 0x27] @ ''steps'' @ [CHR 0x27]
        @ '' keys.  Each step must specify tool_name and arguments.''
      else if role = ''actor'' \<and> phase = ''execute'' then
        ''You are an execution agent. Follow the plan exactly, calling each tool in order. ''
        @ ''Return the raw tool results without summarising.''
      else if role = ''actor'' \<and> phase = ''evaluate'' then
        ''You are an evaluation agent. Assess the execution results against the original task. ''
        @ ''Return a JSON object with '' @ [CHR 0x27] @ ''passed'' @ [CHR 0x27] @ '' (bool), '' @ [CHR 0x27] @ ''score''
        @ [CHR 0x27] @ '' (0-1), and '' @ [CHR 0x27] @ ''findings'' @ [CHR 0x27] @ '' (list).''
      else if role = ''critic'' \<and> phase = ''evaluate'' then
        ''You are an independent critic. Evaluate the actor'' @ [CHR 0x27] @ ''s output strictly against the task ''
        @ ''requirements.  Do not consider the actor'' @ [CHR 0x27] @ ''s reasoning '' @ em_dash @ '' only the raw output.''
      else ''You are the '' @ role @ '' agent handling the '' @ phase @ '' phase. Complete your task accurately.'')"

definition skill_id :: "(string \<Rightarrow> string) \<Rightarrow> string \<Rightarrow> string \<Rightarrow> string" where
  "skill_id sha1_hex role phase = take 8 (sha1_hex (role @ '':'' @ phase))"

definition trace_role :: "trace_record \<Rightarrow> string" where
  "trace_role t = (case map_of (tr_metadata t) ''role'' of Some r \<Rightarrow> r | None \<Rightarrow> ''actor'')"

definition trace_key :: "trace_record \<Rightarrow> string \<times> string" where
  "trace_key t = (trace_role t, tr_phase t)"

fun group_traces :: "trace_record list \<Rightarrow> (string \<times> string, trace_record list) dict \<Rightarrow> (string \<times> string, trace_record list) dict" where
  "group_traces [] pairs = pairs"
| "group_traces (t # ts) pairs =
     group_traces ts (AList.update (trace_key t)
       ((case map_of pairs (trace_key t) of Some xs \<Rightarrow> xs | None \<Rightarrow> []) @ [t]) pairs)"

record prompt_optimizer =
  po_kafka_topic :: string
  po_kafka_bootstrap :: string
  po_dspy_optimizer :: string
  po_max_generations :: int
  po_dry_run :: bool

definition compile_pair ::
  "gepa_lib \<Rightarrow> dspy_lib option \<Rightarrow> (string \<Rightarrow> string) \<Rightarrow> prompt_optimizer \<Rightarrow> real \<Rightarrow> string \<times> string \<Rightarrow> trace_record list
     \<Rightarrow> (string, skill_asset option) result" where
  "compile_pair gepa dspy sha1_hex po now key phase_traces =
     (case key of (role, phase) \<Rightarrow>
       (let failures = filter is_failure phase_traces
        in if failures = [] then Inr None
           else
             (let base_prompt = default_prompt role phase;
                  compiled_prompt = compile_with_dspy_safe dspy (po_dspy_optimizer po) base_prompt phase_traces phase
              in case evolve gepa (gepa_init (po_max_generations po)) compiled_prompt failures of
                   Inl e \<Rightarrow> Inl e
                 | Inr (best_prompt, score) \<Rightarrow>
                     Inr (Some \<lparr>sa_skill_id = skill_id sha1_hex role phase, sa_role = role, sa_phase = phase,
                       sa_system_prompt = best_prompt,
                       sa_few_shot_examples = map (\<lambda>t. \<lparr>ex_task = tr_task t, ex_output = tr_actor_output t,
                           ex_score = tr_evaluation_score t\<rparr>) (take 3 (filter (\<lambda>t. \<not> is_failure t) phase_traces)),
                       sa_performance_score = score, sa_optimized_at = now, sa_optimizer_version = ''1.0'',
                       sa_source = ''dspy+gepa''\<rparr>))))"

fun compile_pairs ::
  "gepa_lib \<Rightarrow> dspy_lib option \<Rightarrow> (string \<Rightarrow> string) \<Rightarrow> prompt_optimizer \<Rightarrow> real
     \<Rightarrow> (string \<times> string, trace_record list) dict \<Rightarrow> (string, skill_asset list) result" where
  "compile_pairs gepa dspy sha1_hex po now [] = Inr []"
| "compile_pairs gepa dspy sha1_hex po now ((key, ts) # rest) =
     (case compile_pair gepa dspy sha1_hex po now key ts of
        Inl e \<Rightarrow> Inl e
      | Inr a \<Rightarrow>
          (case compile_pairs gepa dspy sha1_hex po now rest of
             Inl e \<Rightarrow> Inl e
           | Inr assets \<Rightarrow> Inr ((case a of None \<Rightarrow> [] | Some x \<Rightarrow> [x]) @ assets)))"

definition compile_traces ::
  "gepa_lib \<Rightarrow> dspy_lib option \<Rightarrow> (string \<Rightarrow> string) \<Rightarrow> prompt_optimizer \<Rightarrow> real \<Rightarrow> trace_record list
     \<Rightarrow> (string, skill_asset list) result" where
  "compile_traces gepa dspy sha1_hex po now traces = compile_pairs gepa dspy sha1_hex po now (group_traces traces [])"

text \<open>
  Ingestion. \<open>msgs\<close> are the message values the consumer yields before its time-out, \<open>parse\<close> is
  \<open>TraceRecord(**value)\<close>, \<open>reachable\<close> the answer of the TCP probe.
\<close>

fun collect_traces :: "('m \<Rightarrow> trace_record option) \<Rightarrow> int \<Rightarrow> 'm list \<Rightarrow> trace_record list \<Rightarrow> trace_record list" where
  "collect_traces parse limit [] records = records"
| "collect_traces parse limit (m # ms) records =
     (let records' = (case parse m of Some r \<Rightarrow> records @ [r] | None \<Rightarrow> records)
      in if limit \<le> int (length records') then records' else collect_traces parse limit ms records')"

definition ingest_from_kafka ::
  "('m \<Rightarrow> trace_record option) \<Rightarrow> (string \<Rightarrow> int \<Rightarrow> bool) \<Rightarrow> (string, 'm list) result \<Rightarrow> prompt_optimizer \<Rightarrow> int
     \<Rightarrow> (string, trace_record list) result" where
  "ingest_from_kafka parse reachable consumer po limit =
     (case partition_at (CHR '':'') (po_kafka_bootstrap po) of (host, port_str) \<Rightarrow>
        (case (case port_str of None \<Rightarrow> Some 9092 | Some p \<Rightarrow> if p = [] then Some 9092 else parse_int p) of
           None \<Rightarrow> Inl ''invalid literal for int()''
         | Some port \<Rightarrow>
             if \<not> reachable host port then Inl (''Kafka broker '' @ po_kafka_bootstrap po @ '' is unreachable'')
             else (case consumer of
                     Inl e \<Rightarrow> Inl e
                   | Inr msgs \<Rightarrow> Inr (sort_key tr_timestamp (collect_traces parse limit msgs [])))))"

text \<open>The JSONL fallback; \<open>None\<close> when \<open>traces.jsonl\<close> does not exist.\<close>

definition ingest_from_file :: "(string \<Rightarrow> trace_record option) \<Rightarrow> string list option \<Rightarrow> int \<Rightarrow> trace_record list" where
  "ingest_from_file parse file limit =
     (case file of
        None \<Rightarrow> []
      | Some file_lines \<Rightarrow>
          sort_key tr_timestamp (collect_traces parse limit (filter (\<lambda>l. l \<noteq> []) (map py_strip file_lines)) []))"

definition pad_num :: "nat \<Rightarrow> nat \<Rightarrow> string" where
  "pad_num w n = replicate (w - length (show_nat n)) (CHR ''0'') @ show_nat n"

definition synthetic_trace :: "real \<Rightarrow> nat \<Rightarrow> trace_record" where
  "synthetic_trace now i =
     (let phase = [''plan'', ''execute'', ''evaluate''] ! (i mod 3); role = [''actor'', ''critic''] ! (i mod 2);
          score = (if i mod 3 = 0 then 4 / 10 else 9 / 10)
      in \<lparr>tr_trace_id = ''dry-run-'' @ pad_num 4 i,
          tr_task = ''Synthetic task '' @ show_nat i @ '': process data record '' @ show_nat i,
          tr_phase = phase, tr_prompt_template = default_prompt role phase,
          tr_actor_output = ''Synthetic output '' @ show_nat i, tr_evaluation_score = score,
          tr_evaluation_findings = (if score < 6 / 10 then [''Output too short''] else []),
          tr_timestamp = now, tr_metadata = [(''role'', role)]\<rparr>)"

definition synthetic_traces :: "real \<Rightarrow> int \<Rightarrow> trace_record list" where
  "synthetic_traces now limit = map (synthetic_trace now) [0..<nat (min limit 10)]"

text \<open>\<open>timeout\<close> says that the ten seconds ran out before the consumer finished.\<close>

definition ingest_traces ::
  "('m \<Rightarrow> trace_record option) \<Rightarrow> (string \<Rightarrow> int \<Rightarrow> bool) \<Rightarrow> (string, 'm list) result \<Rightarrow> bool \<Rightarrow> prompt_optimizer \<Rightarrow> real
     \<Rightarrow> int \<Rightarrow> trace_record list" where
  "ingest_traces parse reachable consumer timeout po now limit =
     (if po_dry_run po then synthetic_traces now limit
      else (case (if timeout then Inl ''TimeoutError'' else ingest_from_kafka parse reachable consumer po limit) of
              Inr records \<Rightarrow> records
            | Inl _ \<Rightarrow> synthetic_traces now limit))"

lemma collect_traces_length:
  "int (length rs) < max limit 1 \<Longrightarrow> int (length (collect_traces parse limit ms rs)) \<le> max limit 1"
proof (induction ms arbitrary: rs)
  case (Cons m ms)
  show ?case
  proof (cases "parse m")
    case None
    then show ?thesis using Cons.IH [of rs] Cons.prems by (auto simp: Let_def)
  next
    case (Some r)
    show ?thesis
    proof (cases "limit \<le> int (length (rs @ [r]))")
      case True
      with Some Cons.prems show ?thesis by (simp add: Let_def)
    next
      case False
      with Some Cons.IH [of "rs @ [r]"] show ?thesis by (simp add: Let_def)
    qed
  qed
qed simp

subsection \<open>SkillCompiler\<close>

definition asset_path :: "string \<Rightarrow> string \<Rightarrow> string" where
  "asset_path out sid = out @ ''/'' @ sid @ ''.json''"

definition index_json :: "(real \<Rightarrow> string) \<Rightarrow> real \<Rightarrow> skill_asset list \<Rightarrow> json" where
  "index_json repr_float now assets = JObj [(''generated_at'', JFloat (repr_float now)),
     (''skills'', JArr (map (\<lambda>a. JObj [(''skill_id'', JStr (sa_skill_id a)), (''role'', JStr (sa_role a)),
        (''phase'', JStr (sa_phase a)), (''performance_score'', JFloat (repr_float (sa_performance_score a))),
        (''file'', JStr (sa_skill_id a @ ''.json''))]) assets))]"

fun write_assets ::
  "(skill_asset \<Rightarrow> string) \<Rightarrow> string \<Rightarrow> skill_asset list \<Rightarrow> (string \<Rightarrow> string option) \<Rightarrow> string list \<times> (string \<Rightarrow> string option)" where
  "write_assets dump_asset out [] fs = ([], fs)"
| "write_assets dump_asset out (a # rest) fs =
     (let path = asset_path out (sa_skill_id a);
          (paths, fs') = write_assets dump_asset out rest (fs(path \<mapsto> dump_asset a))
      in (path # paths, fs'))"

definition write_index ::
  "(real \<Rightarrow> string) \<Rightarrow> real \<Rightarrow> string \<Rightarrow> skill_asset list \<Rightarrow> (string \<Rightarrow> string option) \<Rightarrow> string \<Rightarrow> string option" where
  "write_index repr_float now out assets fs = fs(out @ ''/index.json'' \<mapsto> pretty 0 (index_json repr_float now assets))"

definition compile_all ::
  "(skill_asset \<Rightarrow> string) \<Rightarrow> (real \<Rightarrow> string) \<Rightarrow> real \<Rightarrow> string \<Rightarrow> skill_asset list \<Rightarrow> (string \<Rightarrow> string option)
     \<Rightarrow> string list \<times> (string \<Rightarrow> string option)" where
  "compile_all dump_asset repr_float now out assets fs =
     (case write_assets dump_asset out assets fs of
        (written, fs') \<Rightarrow> (written, write_index repr_float now out assets fs'))"

lemma asset_path_inject [simp]: "asset_path out a = asset_path out b \<longleftrightarrow> a = b"
  by (simp add: asset_path_def)

lemma write_assets_spec:
  "write_assets d out as fs = (paths, fs') \<Longrightarrow>
     paths = map (\<lambda>a. asset_path out (sa_skill_id a)) as
     \<and> (\<forall>p. fs' p = (case find (\<lambda>a. asset_path out (sa_skill_id a) = p) (rev as) of Some a \<Rightarrow> Some (d a) | None \<Rightarrow> fs p))"
proof (induction as arbitrary: fs paths)
  case (Cons a rest)
  obtain ps where r: "write_assets d out rest (fs(asset_path out (sa_skill_id a) \<mapsto> d a)) = (ps, fs')" "paths = asset_path out (sa_skill_id a) # ps"
    using Cons.prems by (auto simp: Let_def split: prod.splits)
  have f: "find P (xs @ [a]) = (case find P xs of Some y \<Rightarrow> Some y | None \<Rightarrow> if P a then Some a else None)" for P and xs :: "skill_asset list"
    by (induction xs) auto
  from Cons.IH [OF r(1)] r(2) show ?case by (auto simp: f split: option.splits)
qed simp

subsection \<open>What compilation produces\<close>

lemma map_of_group:
  "(case map_of (group_traces ts pairs) k of Some xs \<Rightarrow> xs | None \<Rightarrow> []) =
   (case map_of pairs k of Some xs \<Rightarrow> xs | None \<Rightarrow> []) @ filter (\<lambda>t. trace_key t = k) ts"
  by (induction ts pairs rule: group_traces.induct) (auto split: option.splits)

lemma keys_group: "fst ` set (group_traces ts pairs) = fst ` set pairs \<union> trace_key ` set ts"
  by (induction ts pairs rule: group_traces.induct) auto

lemma dict_ok_group: "dict_ok pairs \<Longrightarrow> dict_ok (group_traces ts pairs)"
  by (induction ts pairs rule: group_traces.induct) auto

lemma group_entry:
  assumes "(k, xs) \<in> set (group_traces ts [])" shows "xs = filter (\<lambda>t. trace_key t = k) ts"
proof -
  have "dict_ok (group_traces ts [])" by (rule dict_ok_group) simp
  then have "map_of (group_traces ts []) k = Some xs" using assms by (simp add: dict_ok_def)
  then show ?thesis using map_of_group [of ts "[]" k] by simp
qed

lemma compile_pairs_assets:
  assumes "compile_pairs gepa dspy h po now ps = Inr as"
  shows "map (\<lambda>a. (sa_role a, sa_phase a)) as = map fst (filter (\<lambda>(k, ts). list_ex is_failure ts) ps)
    \<and> (\<forall>a \<in> set as. \<exists>ts. ((sa_role a, sa_phase a), ts) \<in> set ps \<and> compile_pair gepa dspy h po now (sa_role a, sa_phase a) ts = Inr (Some a))"
  using assms
proof (induction ps arbitrary: as)
  case (Cons p ps)
  obtain role phase ts where p: "p = ((role, phase), ts)" by (metis prod.exhaust)
  obtain a rest where a: "compile_pair gepa dspy h po now (role, phase) ts = Inr a" "compile_pairs gepa dspy h po now ps = Inr rest"
      "as = (case a of None \<Rightarrow> [] | Some x \<Rightarrow> [x]) @ rest"
    using Cons.prems by (auto simp: p split: sum.splits)
  note ih = Cons.IH [OF a(2)]
  show ?case
  proof (cases a)
    case None
    then have "\<not> list_ex is_failure ts"
      using a(1) by (auto simp: compile_pair_def Let_def filter_empty_conv list_ex_iff split: if_splits sum.splits prod.splits)
    then show ?thesis using ih a(3) None p by auto
  next
    case (Some x)
    then have "list_ex is_failure ts" "sa_role x = role" "sa_phase x = phase"
      using a(1) by (auto simp: compile_pair_def Let_def filter_empty_conv list_ex_iff split: if_splits sum.splits prod.splits)
    then show ?thesis using ih a(1,3) Some p by auto
  qed
qed simp

lemma dspy_extends: "\<exists>q. compile_with_dspy_safe dspy opt base ts ph = base @ q"
  by (auto simp: compile_with_dspy_safe_def compile_with_dspy_def Let_def split: option.splits sum.splits)

lemma compile_pair_asset:
  assumes "compile_pair gepa dspy h po now (role, phase) ts = Inr (Some a)" and "gepa = (\<lambda>_ _ _. None)"
  shows "0 \<le> sa_performance_score a \<and> sa_performance_score a \<le> 1 \<and> (\<exists>q. sa_system_prompt a = default_prompt role phase @ q)
    \<and> length (sa_few_shot_examples a) \<le> 3
    \<and> (\<forall>x \<in> set (sa_few_shot_examples a). \<exists>t \<in> set ts. \<not> is_failure t \<and> ex_task x = tr_task t \<and> ex_output x = tr_actor_output t
         \<and> ex_score x = tr_evaluation_score t)
    \<and> sa_skill_id a = skill_id h role phase"
proof -
  let ?c = "compile_with_dspy_safe dspy (po_dspy_optimizer po) (default_prompt role phase) ts phase"
  obtain q where q: "?c = default_prompt role phase @ q" using dspy_extends by blast
  obtain p s where ev: "evolve_builtin (gepa_init (po_max_generations po)) ?c (filter is_failure ts) = (p, s)" by (metis prod.exhaust)
  have a: "sa_system_prompt a = p" "sa_performance_score a = s" "sa_skill_id a = skill_id h role phase"
    "sa_few_shot_examples a = map (\<lambda>t. \<lparr>ex_task = tr_task t, ex_output = tr_actor_output t, ex_score = tr_evaluation_score t\<rparr>)
       (take 3 (filter (\<lambda>t. \<not> is_failure t) ts))"
    using assms ev by (auto simp: compile_pair_def Let_def evolve_def evolve_with_gepa_def split: if_splits)
  have sel: "select_best (filter is_failure ts) (generate_candidates (gepa_init (po_max_generations po)) ?c (filter is_failure ts)) ?c
      (score_candidate ?c (filter is_failure ts)) = (p, s)" using ev by (simp add: evolve_builtin_def)
  note spec = select_best_spec [OF sel]
  then have "\<exists>r. p = ?c @ r" using candidates_extend by fastforce
  then have "\<exists>q. p = default_prompt role phase @ q" using q by auto
  moreover have sub: "t \<in> set ts \<and> \<not> is_failure t" if "t \<in> set (take 3 (filter (\<lambda>t. \<not> is_failure t) ts))" for t
    using in_set_takeD [OF that] by simp
  have "\<forall>x \<in> set (sa_few_shot_examples a). \<exists>t \<in> set ts. \<not> is_failure t \<and> ex_task x = tr_task t \<and> ex_output x = tr_actor_output t
         \<and> ex_score x = tr_evaluation_score t"
  proof
    fix x assume "x \<in> set (sa_few_shot_examples a)"
    then obtain t where "t \<in> set (take 3 (filter (\<lambda>t. \<not> is_failure t) ts))"
      "x = \<lparr>ex_task = tr_task t, ex_output = tr_actor_output t, ex_score = tr_evaluation_score t\<rparr>"
      unfolding a(4) by auto
    with sub [of t] show "\<exists>t \<in> set ts. \<not> is_failure t \<and> ex_task x = tr_task t \<and> ex_output x = tr_actor_output t
         \<and> ex_score x = tr_evaluation_score t" by auto
  qed
  moreover have "0 \<le> s" "s \<le> 1" using spec score_range by auto
  ultimately show ?thesis using a by simp
qed

lemma failing_keys:
  "set (map fst (filter (\<lambda>(k, ts). list_ex is_failure ts) (group_traces traces []))) = {trace_key t | t. t \<in> set traces \<and> is_failure t}"
  (is "?l = ?r")
proof
  show "?l \<subseteq> ?r" by (auto simp: list_ex_iff dest!: group_entry) metis
  show "?r \<subseteq> ?l"
  proof
    fix k assume "k \<in> ?r"
    then obtain t where t: "t \<in> set traces" "is_failure t" "k = trace_key t" by blast
    then have "k \<in> fst ` set (group_traces traces [])" using keys_group [of traces "[]"] by simp
    then obtain xs where x: "(k, xs) \<in> set (group_traces traces [])" by (metis imageE prod.collapse)
    then have "list_ex is_failure xs" using group_entry [OF x] t by (auto simp: list_ex_iff)
    with x show "k \<in> ?l" by force
  qed
qed

lemma asset_file:
  assumes "write_assets dump_asset out assets fs = (ps, fs1)" and "distinct (map sa_skill_id assets)"
    and "''index'' \<notin> set (map sa_skill_id assets)" and a: "a \<in> set assets"
  shows "write_index rf now out assets fs1 (asset_path out (sa_skill_id a)) = Some (dump_asset a)"
proof -
  have "find (\<lambda>b. asset_path out (sa_skill_id b) = asset_path out (sa_skill_id a)) (rev assets) = Some a"
  proof -
    obtain b where b: "find (\<lambda>b. sa_skill_id b = sa_skill_id a) (rev assets) = Some b"
      using a by (cases "find (\<lambda>b. sa_skill_id b = sa_skill_id a) (rev assets)") (auto simp: find_None_iff)
    then have "b \<in> set assets" "sa_skill_id b = sa_skill_id a" by (auto simp: find_Some_iff) (metis length_rev nth_mem set_rev)
    then have "b = a" using assms(2) a by (metis distinct_map inj_onD)
    with b show ?thesis by simp
  qed
  moreover have "asset_path out (sa_skill_id a) \<noteq> out @ ''/index.json''"
  proof
    assume "asset_path out (sa_skill_id a) = out @ ''/index.json''"
    then have "sa_skill_id a @ ''.json'' = ''index'' @ ''.json''" by (simp add: asset_path_def)
    then have "sa_skill_id a = ''index''" by (metis append_same_eq)
    then have "''index'' \<in> set (map sa_skill_id assets)" using a by (metis image_eqI set_map)
    with assms(3) show False ..
  qed
  ultimately show ?thesis using write_assets_spec [OF assms(1)] by (simp add: write_index_def)
qed

text \<open>
  \<^bold>\<open>C18.\<close> Compilation of a trace corpus, with the built-in evolution: there is exactly one skill for
  each (role, phase) pair that has a failing trace, its prompt extends the default prompt of the
  pair, its score lies in [0, 1], and its (at most three) examples are passing traces of the
  same pair. Written to disk with distinct identifiers, every skill is found in its own file
  and the index lists all of them.
\<close>

theorem skills_compiled:
  assumes "compile_traces (\<lambda>_ _ _. None) dspy h po now traces = Inr assets"
    and "distinct (map sa_skill_id assets)" and "''index'' \<notin> set (map sa_skill_id assets)"
    and "compile_all dump_asset rf now out assets fs = (written, fs')"
  shows "distinct (map (\<lambda>a. (sa_role a, sa_phase a)) assets)
    \<and> set (map (\<lambda>a. (sa_role a, sa_phase a)) assets) = {trace_key t | t. t \<in> set traces \<and> is_failure t}
    \<and> (\<forall>a \<in> set assets. 0 \<le> sa_performance_score a \<and> sa_performance_score a \<le> 1
         \<and> (\<exists>q. sa_system_prompt a = default_prompt (sa_role a) (sa_phase a) @ q)
         \<and> length (sa_few_shot_examples a) \<le> 3
         \<and> (\<forall>x \<in> set (sa_few_shot_examples a). \<exists>t \<in> set traces. trace_key t = (sa_role a, sa_phase a)
              \<and> \<not> is_failure t \<and> ex_task x = tr_task t \<and> ex_output x = tr_actor_output t)
         \<and> fs' (asset_path out (sa_skill_id a)) = Some (dump_asset a))
    \<and> written = map (\<lambda>a. asset_path out (sa_skill_id a)) assets
    \<and> fs' (out @ ''/index.json'') = Some (pretty 0 (index_json rf now assets))"
proof -
  let ?ps = "group_traces traces []"
  have c: "compile_pairs (\<lambda>_ _ _. None) dspy h po now ?ps = Inr assets" using assms(1) by (simp add: compile_traces_def)
  note as = compile_pairs_assets [OF c]
  have ok: "distinct (map fst ?ps)" using dict_ok_group [of "[]" traces] by (simp add: dict_ok_def)
  then have d: "distinct (map (\<lambda>a. (sa_role a, sa_phase a)) assets)" using as by (simp add: distinct_map_filter)
  obtain ps fs1 where w: "write_assets dump_asset out assets fs = (ps, fs1)" by (metis prod.exhaust)
  with assms(4) have fs': "written = ps" "fs' = write_index rf now out assets fs1" by (auto simp: compile_all_def)
  note ws = write_assets_spec [OF w]
  have stored: "fs' (asset_path out (sa_skill_id a)) = Some (dump_asset a)" if "a \<in> set assets" for a
    unfolding fs'(2) by (rule asset_file [OF w assms(2,3) that])
  have asset: "0 \<le> sa_performance_score a \<and> sa_performance_score a \<le> 1
         \<and> (\<exists>q. sa_system_prompt a = default_prompt (sa_role a) (sa_phase a) @ q)
         \<and> length (sa_few_shot_examples a) \<le> 3
         \<and> (\<forall>x \<in> set (sa_few_shot_examples a). \<exists>t \<in> set traces. trace_key t = (sa_role a, sa_phase a)
              \<and> \<not> is_failure t \<and> ex_task x = tr_task t \<and> ex_output x = tr_actor_output t)" if a: "a \<in> set assets" for a
  proof -
    obtain ts where ts: "((sa_role a, sa_phase a), ts) \<in> set ?ps"
      "compile_pair (\<lambda>_ _ _. None) dspy h po now (sa_role a, sa_phase a) ts = Inr (Some a)" using as a by blast
    from group_entry [OF ts(1)] have "ts = filter (\<lambda>t. trace_key t = (sa_role a, sa_phase a)) traces" .
    with compile_pair_asset [OF ts(2) refl] show ?thesis by fastforce
  qed
  have idx: "fs' (out @ ''/index.json'') = Some (pretty 0 (index_json rf now assets))" by (simp add: fs' write_index_def)
  have "set (map (\<lambda>a. (sa_role a, sa_phase a)) assets) = {trace_key t | t. t \<in> set traces \<and> is_failure t}"
    using as failing_keys by simp
  with d stored asset idx ws fs'(1) show ?thesis by blast
qed

lemma skills_compiled_witness:
  "\<exists>assets. compile_traces (\<lambda>_ _ _. None) None (\<lambda>s. s)
      \<lparr>po_kafka_topic = ''t'', po_kafka_bootstrap = ''k'', po_dspy_optimizer = ''B'', po_max_generations = 5, po_dry_run = True\<rparr> 0
      [synthetic_trace 0 0] = Inr assets \<and> set (map (\<lambda>a. (sa_role a, sa_phase a)) assets) = {trace_key t | t. t \<in> {synthetic_trace 0 0} \<and> is_failure t}"
proof -
  let ?po = "\<lparr>po_kafka_topic = ''t'', po_kafka_bootstrap = ''k'', po_dspy_optimizer = ''B'', po_max_generations = 5, po_dry_run = True\<rparr>"
  have s: "is_failure (synthetic_trace 0 0)" "trace_key (synthetic_trace 0 0) = (''actor'', ''plan'')"
    by (simp_all add: synthetic_trace_def is_failure_def trace_key_def trace_role_def Let_def)
  obtain bp sc where "evolve_builtin (gepa_init 5) (compile_with_dspy_safe None ''B'' (default_prompt ''actor'' ''plan'')
      [synthetic_trace 0 0] ''plan'') [synthetic_trace 0 0] = (bp, sc)" by (metis prod.exhaust)
  then obtain a where a: "compile_traces (\<lambda>_ _ _. None) None (\<lambda>s. s) ?po 0 [synthetic_trace 0 0] = Inr [a]" "sa_skill_id a = ''actor:pl''"
    using s by (simp add: compile_traces_def compile_pair_def Let_def evolve_def evolve_with_gepa_def skill_id_def split: prod.splits)
  obtain w fs' where w: "compile_all (\<lambda>_. []) (\<lambda>_. ''0'') 0 ''/s'' [a] (\<lambda>_. None) = (w, fs')" by (metis prod.exhaust)
  from skills_compiled [OF a(1) _ _ w] a show ?thesis by (intro exI [of _ "[a]"]) auto
qed

text \<open>The identifier hashes \<open>role:phase\<close>: with a colon in a name two pairs share their file.\<close>

lemma skill_id_collision: "skill_id h ''a:b'' ''c'' = skill_id h ''a'' ''b:c''"
  by (simp add: skill_id_def)

end
