(* ===== verification/Graph_Orchestrator.thy ===== *)
theory Graph_Orchestrator
  imports Pattern Json
begin

section \<open>The graph orchestrator (graph\_orchestrator.py)\<close>

text \<open>
  Plans with typed steps and output references, the order of execution derived from the
  references, the four nodes and their routing, and \<open>run\<close>. Steps run one after the other (the
  default, \<open>PLAN_PARALLEL_ENABLED=0\<close>). The language model, the tools and \<open>str\<close> of a JSON value are
  fields of the record \<open>graph_env\<close>; \<open>TopologicalSorter\<close> yields the ready steps in plan order
  (the library leaves the order within a batch open). LangGraph contributes its contract: an
  \<open>interrupt\<close> pauses the run (nothing in the repository resumes one), and a run may execute at
  most \<open>recursion_limit\<close> nodes (25 unless configured, and \<open>run\<close> does not configure it).
\<close>

subsection \<open>State\<close>

datatype phase = Validate | Plan | Execute | Evaluate | Done | Failed

record tool_desc =
  td_name :: string
  td_description :: string
  td_args :: "string list"

type_synonym arguments = "(string \<times> json) list"

record plan_step =
  ps_id :: string
  ps_tool_name :: string
  ps_arguments :: arguments

record exec_plan =
  ep_intent :: string
  ep_steps :: "arguments list"

record step_result =
  sr_tool :: string
  sr_step_id :: string
  sr_result :: "json option"
  sr_error :: "string option"
  sr_success :: bool

record verdict =
  vd_passed :: bool
  vd_score :: real
  vd_findings :: "string list"
  vd_revision_notes :: string

record history_entry =
  he_iteration :: int
  he_plan :: "exec_plan option"
  he_execution :: "step_result list option"
  he_evaluation :: verdict

record final_result =
  fr_text :: json
  fr_all_step_outputs :: "json list"
  fr_iterations :: int

record graph_state =
  gs_task :: string
  gs_phase :: phase
  gs_iteration :: int
  gs_plan :: "exec_plan option"
  gs_execution_result :: "step_result list option"
  gs_evaluation_verdict :: "verdict option"
  gs_final_result :: "final_result option"
  gs_error :: "string option"
  gs_tools :: "tool_desc list"
  gs_history :: "history_entry list"
  gs_completed_step_ids :: "string list"

datatype tool_outcome = TOk json | TTimeout | TRaise string

record 'w graph_env =
  ge_str :: "json \<Rightarrow> string"
  ge_show_verdict :: "verdict \<Rightarrow> string"
  ge_show_execution :: "step_result list option \<Rightarrow> string"
  ge_planner :: "string \<Rightarrow> string \<Rightarrow> 'w \<Rightarrow> (string, exec_plan) result \<times> 'w"
  ge_plain :: "string \<Rightarrow> string \<Rightarrow> 'w \<Rightarrow> (string, string) result \<times> 'w"
  ge_critic :: "string \<Rightarrow> 'w \<Rightarrow> (string, verdict) result \<times> 'w"
  ge_call_tool :: "string \<Rightarrow> arguments \<Rightarrow> 'w \<Rightarrow> tool_outcome \<times> 'w"
  ge_step_timeout :: string

subsection \<open>Typed steps and references\<close>

text \<open>\<open>d.get(a) or d.get(b) or ...\<close>\<close>

fun first_truthy :: "arguments \<Rightarrow> string list \<Rightarrow> json \<Rightarrow> json" where
  "first_truthy d [] dflt = dflt"
| "first_truthy d (k # ks) dflt =
     (case map_of d k of Some v \<Rightarrow> if truthy v then v else first_truthy d ks dflt | None \<Rightarrow> first_truthy d ks dflt)"

definition from_loose_dict :: "arguments \<Rightarrow> string \<Rightarrow> (string, plan_step) result" where
  "from_loose_dict d fallback_id =
     (case (case map_of d ''id'' of Some v \<Rightarrow> v | None \<Rightarrow> JStr fallback_id,
            first_truthy d [''tool_name'', ''name'', ''tool''] (JStr []),
            first_truthy d [''arguments'', ''args'', ''parameters''] (JObj [])) of
        (JStr i, JStr tool, JObj args) \<Rightarrow> Inr \<lparr>ps_id = i, ps_tool_name = tool, ps_arguments = args\<rparr>
      | _ \<Rightarrow> Inl ''ValidationError'')"

fun typed_from :: "nat \<Rightarrow> arguments list \<Rightarrow> (string, plan_step list) result" where
  "typed_from i [] = Inr []"
| "typed_from i (d # ds) =
     (case from_loose_dict d (''step'' @ show_nat (i + 1)) of
        Inl e \<Rightarrow> Inl e
      | Inr s \<Rightarrow> (case typed_from (i + 1) ds of Inl e \<Rightarrow> Inl e | Inr ss \<Rightarrow> Inr (s # ss)))"

definition typed_steps :: "exec_plan \<Rightarrow> (string, plan_step list) result" where
  "typed_steps p = typed_from 0 (ep_steps p)"

definition ref_open :: string where "ref_open = ''{{steps.''"
definition ref_close :: string where "ref_close = ''.output}}''"

definition step_ref_pattern :: regex where
  "step_ref_pattern = seqs [Lit ref_open, Plus is_word, Lit ref_close]"

text \<open>The group of a match.\<close>

definition ref_id :: "string \<Rightarrow> string" where
  "ref_id m = take (length m - length ref_open - length ref_close) (drop (length ref_open) m)"

definition refs_in :: "json \<Rightarrow> string list" where
  "refs_in v = (case v of JStr s \<Rightarrow> map ref_id (re_findall step_ref_pattern s) | _ \<Rightarrow> [])"

definition step_refs :: "plan_step \<Rightarrow> string list" where
  "step_refs s = concat (map (\<lambda>(_, v). refs_in v) (ps_arguments s))"

definition resolve_value :: "(json \<Rightarrow> string) \<Rightarrow> (string \<rightharpoonup> json) \<Rightarrow> json \<Rightarrow> json" where
  "resolve_value py_str outs v =
     (case v of
        JStr s \<Rightarrow> JStr (concat (map (\<lambda>x. case x of
            Inr c \<Rightarrow> [c]
          | Inl m \<Rightarrow> (case outs (ref_id m) of None \<Rightarrow> m | Some JNull \<Rightarrow> m | Some r \<Rightarrow> py_str r))
          (scan step_ref_pattern None s)))
      | _ \<Rightarrow> v)"

definition resolve_references :: "(json \<Rightarrow> string) \<Rightarrow> arguments \<Rightarrow> (string \<rightharpoonup> json) \<Rightarrow> arguments" where
  "resolve_references py_str args outs = map (\<lambda>(k, v). (k, resolve_value py_str outs v)) args"

definition squote :: string where "squote = [CHR 0x27]"

definition validate_step_references :: "plan_step list \<Rightarrow> string list" where
  "validate_step_references steps =
     concat (map (\<lambda>s. map (\<lambda>r. ''Step '' @ squote @ ps_id s @ squote @ '' references unknown step '' @ squote @ r @ squote)
       (filter (\<lambda>r. r \<notin> set (map ps_id steps)) (step_refs s))) steps)"

text \<open>The dependencies: one entry per identifier, in order of first appearance.\<close>

fun add_deps :: "plan_step list \<Rightarrow> (string, string list) dict \<Rightarrow> (string, string list) dict" where
  "add_deps [] deps = deps"
| "add_deps (s # ss) deps =
     add_deps ss (AList.update (ps_id s) ((case map_of deps (ps_id s) of Some r \<Rightarrow> r | None \<Rightarrow> []) @ step_refs s) deps)"

definition build_dag :: "plan_step list \<Rightarrow> (string, string list) dict" where
  "build_dag steps = add_deps steps (map (\<lambda>i. (i, [])) (remdups (map ps_id steps)))"

text \<open>\<open>step_map\<close>: the last step with an identifier wins.\<close>

definition step_map :: "plan_step list \<Rightarrow> string \<rightharpoonup> plan_step" where
  "step_map steps = map_of (rev (map (\<lambda>s. (ps_id s, s)) steps))"

text \<open>
  \<open>TopologicalSorter\<close>: batch after batch of the identifiers whose predecessors are done;
  \<open>None\<close> when only identifiers with open predecessors remain (\<open>CycleError\<close>).
\<close>

definition deps_of :: "(string, string list) dict \<Rightarrow> string \<Rightarrow> string list" where
  "deps_of deps i = (case map_of deps i of Some ps \<Rightarrow> ps | None \<Rightarrow> [])"

definition ready :: "(string, string list) dict \<Rightarrow> string list \<Rightarrow> string list" where
  "ready deps ids = filter (\<lambda>i. \<forall>p \<in> set (deps_of deps i). p \<notin> set ids) ids"

lemma ready_shrinks:
  assumes "ready deps ids \<noteq> []"
  shows "length (filter (\<lambda>i. i \<notin> set (ready deps ids)) ids) < length ids"
proof -
  obtain x where x: "x \<in> set (ready deps ids)" using assms by (cases "ready deps ids") auto
  then have "x \<in> set ids" by (simp add: ready_def)
  with x show ?thesis by (intro length_filter_less [of x]) auto
qed

function topo :: "(string, string list) dict \<Rightarrow> string list \<Rightarrow> string list option" where
  "topo deps ids =
     (if ids = [] then Some []
      else if ready deps ids = [] then None
      else map_option ((@) (ready deps ids)) (topo deps (filter (\<lambda>i. i \<notin> set (ready deps ids)) ids)))"
  by pat_completeness auto
termination by (relation "measure (\<lambda>(deps, ids). length ids)") (auto dest: ready_shrinks)

declare topo.simps [simp del]

definition topo_order :: "(string, string list) dict \<Rightarrow> string list option" where
  "topo_order deps = topo deps (map fst deps)"

subsection \<open>The nodes\<close>

text \<open>A node returns a new state, raises (\<open>Inl\<close>), or interrupts the run.\<close>

datatype node_result = Next graph_state | Interrupt string

definition destructive_patterns :: "string list" where
  "destructive_patterns = [''write'', ''delete'', ''drop'', ''update'', ''insert'', ''exec'', ''run'', ''deploy'']"

definition destructive :: "string \<Rightarrow> bool" where
  "destructive tool = list_ex (\<lambda>pat. str_in pat (py_lower tool)) destructive_patterns"

definition validate_node :: "graph_state \<Rightarrow> graph_state" where
  "validate_node st =
     (if gs_task st = [] then st\<lparr>gs_phase := Failed, gs_error := Some ''Empty task''\<rparr>
      else if gs_tools st = [] then st\<lparr>gs_phase := Failed, gs_error := Some ''No tools available''\<rparr>
      else st\<lparr>gs_phase := Plan\<rparr>)"

abbreviation newline1 :: string where "newline1 \<equiv> [CHR 0x0A]"
abbreviation dquote :: string where "dquote \<equiv> [CHR 0x22]"

definition tool_line :: "tool_desc \<Rightarrow> string" where
  "tool_line t = ''- '' @ td_name t @ '': '' @ td_description t @ '' args: ['' @
     py_join '', '' (map (\<lambda>a. squote @ a @ squote) (td_args t)) @ '']''"

definition plan_system :: "tool_desc list \<Rightarrow> string" where
  "plan_system tools =
     ''You are a planning agent. Output a JSON object with exactly two keys:'' @ newline1 @
     ''  intent: one-line goal string'' @ newline1 @
     ''  steps: array of objects each with id, tool_name, and arguments keys'' @ newline1 @ newline1 @
     ''Each step needs a unique id (e.g. step1, step2). To use a previous step'' @ squote @ ''s '' @
     ''output as input, reference it with {{steps.<id>.output}} in argument values.'' @ newline1 @ newline1 @
     ''Available tools:'' @ newline1 @ py_join newline1 (map tool_line tools) @ newline1 @ newline1 @
     ''Example for '' @ squote @ ''add 3 and 4 then echo the result'' @ squote @ '':'' @ newline1 @
     dumps (JObj [(''intent'', JStr ''add then echo''), (''steps'', JArr [
       JObj [(''id'', JStr ''step1''), (''tool_name'', JStr ''add''), (''arguments'', JObj [(''a'', JInt 3), (''b'', JInt 4)])],
       JObj [(''id'', JStr ''step2''), (''tool_name'', JStr ''echo''),
             (''arguments'', JObj [(''message'', JStr ''{{steps.step1.output}}'')])]])])"

definition plan_prompt :: "'w graph_env \<Rightarrow> graph_state \<Rightarrow> string" where
  "plan_prompt env st =
     gs_task st @ (if gs_history st = [] then []
       else newline1 @ newline1 @ ''Previous attempt failed. Evaluation: '' @ ge_show_verdict env (he_evaluation (last (gs_history st)))
         @ newline1 @ ''Revise your plan accordingly.'')"

text \<open>The greedy search for a JSON object: from the first brace to the last.\<close>

definition first_object :: "string \<Rightarrow> string option" where
  "first_object s =
     (let t = dropWhile (\<lambda>c. c \<noteq> CHR ''{'') s; u = dropWhile (\<lambda>c. c \<noteq> CHR ''}'') (rev t)
      in if t = [] \<or> u = [] then None else Some (rev u))"

fun objects_of :: "json list \<Rightarrow> arguments list option" where
  "objects_of [] = Some []"
| "objects_of (j # js) = (case (j, objects_of js) of (JObj kvs, Some rest) \<Rightarrow> Some (kvs # rest) | _ \<Rightarrow> None)"

definition parse_plan :: "json \<Rightarrow> exec_plan option" where
  "parse_plan j =
     (case (jget j ''intent'', jget j ''steps'') of
        (Some (JStr intent), Some (JArr steps)) \<Rightarrow>
          (case objects_of steps of
             Some (d # ds) \<Rightarrow> Some \<lparr>ep_intent = intent, ep_steps = d # ds\<rparr> | _ \<Rightarrow> None)
      | _ \<Rightarrow> None)"

definition fallback_plan :: "string \<Rightarrow> (string, exec_plan) result" where
  "fallback_plan raw =
     (case first_object raw of
        None \<Rightarrow> Inl ''No JSON object found in LLM response''
      | Some t \<Rightarrow>
          (case loads t of
             None \<Rightarrow> Inl ''JSONDecodeError''
           | Some j \<Rightarrow> (case parse_plan j of Some p \<Rightarrow> Inr p | None \<Rightarrow> Inl ''ValidationError'')))"

definition plan_node :: "'w graph_env \<Rightarrow> graph_state \<Rightarrow> 'w \<Rightarrow> graph_state \<times> 'w" where
  "plan_node env st w =
     (let system = plan_system (gs_tools st); prompt = plan_prompt env st
      in case ge_planner env system prompt w of
           (Inr p, w1) \<Rightarrow> (st\<lparr>gs_phase := Execute, gs_plan := Some p\<rparr>, w1)
         | (Inl _, w1) \<Rightarrow>
             (case ge_plain env system prompt w1 of
                (Inl e, w2) \<Rightarrow> (st\<lparr>gs_phase := Failed, gs_error := Some (''Planning failed: '' @ e)\<rparr>, w2)
              | (Inr raw, w2) \<Rightarrow>
                  (case fallback_plan raw of
                     Inl e \<Rightarrow> (st\<lparr>gs_phase := Failed, gs_error := Some (''Planning failed: '' @ e)\<rparr>, w2)
                   | Inr p \<Rightarrow> (st\<lparr>gs_phase := Execute, gs_plan := Some p\<rparr>, w2))))"

text \<open>\<open>_run_step\<close> with the outputs and the completed identifiers it updates.\<close>

record 'w exec_state =
  es_outputs :: "string \<rightharpoonup> json"
  es_completed :: "string list"
  es_world :: 'w

definition run_step :: "'w graph_env \<Rightarrow> plan_step \<Rightarrow> 'w exec_state \<Rightarrow> step_result \<times> 'w exec_state" where
  "run_step env s x =
     (if ps_id s \<in> set (es_completed x) then
        (\<lparr>sr_tool = ps_tool_name s, sr_step_id = ps_id s, sr_result = Some (JStr ''skipped (already completed)''),
          sr_error = None, sr_success = True\<rparr>, x)
      else
        (case ge_call_tool env (ps_tool_name s) (resolve_references (ge_str env) (ps_arguments s) (es_outputs x)) (es_world x) of
           (TOk r, w') \<Rightarrow>
             (\<lparr>sr_tool = ps_tool_name s, sr_step_id = ps_id s, sr_result = Some r, sr_error = None, sr_success = True\<rparr>,
              \<lparr>es_outputs = (es_outputs x)(ps_id s \<mapsto> r), es_completed = es_completed x @ [ps_id s], es_world = w'\<rparr>)
         | (TTimeout, w') \<Rightarrow>
             (\<lparr>sr_tool = ps_tool_name s, sr_step_id = ps_id s, sr_result = None,
               sr_error = Some (''Timed out after '' @ ge_step_timeout env @ ''s''), sr_success = False\<rparr>, x\<lparr>es_world := w'\<rparr>)
         | (TRaise e, w') \<Rightarrow>
             (\<lparr>sr_tool = ps_tool_name s, sr_step_id = ps_id s, sr_result = None, sr_error = Some e, sr_success = False\<rparr>,
              x\<lparr>es_world := w'\<rparr>)))"

fun run_steps :: "'w graph_env \<Rightarrow> plan_step list \<Rightarrow> 'w exec_state \<Rightarrow> step_result list \<times> 'w exec_state" where
  "run_steps env [] x = ([], x)"
| "run_steps env (s # ss) x =
     (case run_step env s x of (r, x1) \<Rightarrow> (case run_steps env ss x1 of (rs, x2) \<Rightarrow> (r # rs, x2)))"

text \<open>Which steps run, in which order: along the graph, or the plan itself when it is cyclic.\<close>

definition execution_order :: "plan_step list \<Rightarrow> plan_step list" where
  "execution_order steps =
     (case topo_order (build_dag steps) of
        None \<Rightarrow> steps
      | Some ids \<Rightarrow> List.map_filter (step_map steps) ids)"

definition execute_node :: "'w graph_env \<Rightarrow> graph_state \<Rightarrow> 'w \<Rightarrow> (string, node_result) result \<times> 'w" where
  "execute_node env st w =
     (if gs_phase st = Failed then (Inr (Next st), w)
      else case gs_plan st of
        None \<Rightarrow> (Inr (Next (st\<lparr>gs_phase := Failed, gs_error := Some ''No plan to execute''\<rparr>)), w)
      | Some p \<Rightarrow>
          if ep_steps p = [] then (Inr (Next (st\<lparr>gs_phase := Failed, gs_error := Some ''No plan to execute''\<rparr>)), w)
          else (case typed_steps p of
            Inl e \<Rightarrow> (Inl e, w)
          | Inr steps \<Rightarrow>
              (let ref_errors = validate_step_references steps
               in if ref_errors \<noteq> [] then
                    (Inr (Next (st\<lparr>gs_phase := Failed,
                       gs_error := Some (''Invalid step references: '' @ py_join ''; '' ref_errors)\<rparr>)), w)
                  else (case filter (\<lambda>s. destructive (ps_tool_name s)) steps of
                    s # _ \<Rightarrow> (Inr (Interrupt (''Tool '' @ squote @ ps_tool_name s @ squote @
                               '' requires human approval before execution.'')), w)
                  | [] \<Rightarrow>
                      (case run_steps env (execution_order steps)
                              \<lparr>es_outputs = (\<lambda>_. None), es_completed = gs_completed_step_ids st, es_world = w\<rparr> of
                         (results, x) \<Rightarrow>
                           (Inr (Next (st\<lparr>gs_phase := Evaluate, gs_execution_result := Some results,
                              gs_completed_step_ids := es_completed x\<rparr>)), es_world x))))))"

text \<open>\<open>r["content"][0]["text"]\<close>, or \<open>str(r)\<close> when that raises.\<close>

definition content_text :: "json \<Rightarrow> json option" where
  "content_text r = (case jget r ''content'' of Some (JArr (x # _)) \<Rightarrow> jget x ''text'' | _ \<Rightarrow> None)"

definition step_text :: "(json \<Rightarrow> string) \<Rightarrow> step_result \<Rightarrow> json" where
  "step_text py_str s =
     (let r = (case sr_result s of Some r \<Rightarrow> r | None \<Rightarrow> JObj [])
      in case content_text r of Some t \<Rightarrow> t | None \<Rightarrow> JStr (py_str r))"

definition critic_failed :: "string \<Rightarrow> verdict" where
  "critic_failed e = \<lparr>vd_passed = False, vd_score = 0, vd_findings = [e], vd_revision_notes = ''Evaluation failed''\<rparr>"

definition critical_reason :: "verdict \<Rightarrow> string" where
  "critical_reason v =
     ''Critical evaluation failure: the evaluator scored the output 0. ''
     @ ''Human review is required before the graph may retry. ''
     @ ''Findings: ['' @ py_join '', '' (map (\<lambda>f. squote @ f @ squote) (vd_findings v)) @ '']''"

definition evaluate_node :: "'w graph_env \<Rightarrow> int \<Rightarrow> graph_state \<Rightarrow> 'w \<Rightarrow> (string, node_result) result \<times> 'w" where
  "evaluate_node env max_iterations st w =
     (case ge_critic env (''Task: '' @ gs_task st @ newline1 @ newline1 @ ''Execution results: ''
             @ ge_show_execution env (gs_execution_result st)) w of
        (res, w') \<Rightarrow>
          (let v = (case res of Inr v \<Rightarrow> v | Inl e \<Rightarrow> critic_failed e);
               iteration = gs_iteration st + 1;
               st' = st\<lparr>gs_iteration := iteration, gs_evaluation_verdict := Some v,
                 gs_history := gs_history st @ [\<lparr>he_iteration = iteration, he_plan = gs_plan st,
                   he_execution = gs_execution_result st, he_evaluation = v\<rparr>]\<rparr>
           in if vd_passed v then
                (case gs_execution_result st of
                   None \<Rightarrow> (Inl ''AttributeError'', w')
                 | Some steps \<Rightarrow>
                     (let texts = map (step_text (ge_str env)) steps
                      in (Inr (Next (st'\<lparr>gs_phase := Done,
                           gs_final_result := Some \<lparr>fr_text = (if texts = [] then JStr [] else last texts),
                              fr_all_step_outputs = texts, fr_iterations = iteration\<rparr>\<rparr>)), w')))
              else if vd_score v = 0 then (Inr (Interrupt (critical_reason v)), w')
              else if max_iterations \<le> iteration then
                (Inr (Next (st'\<lparr>gs_phase := Failed, gs_error := Some (''Max iterations ('' @ show_int max_iterations @
                   '') reached without passing evaluation'')\<rparr>)), w')
              else (Inr (Next (st'\<lparr>gs_phase := Plan\<rparr>)), w')))"

subsection \<open>Routing and runs\<close>

datatype node = NValidate | NPlan | NExecute | NEvaluate | NEnd

definition route_after_validate :: "graph_state \<Rightarrow> node" where
  "route_after_validate st = (if gs_phase st = Plan then NPlan else NEnd)"

definition route_after_plan :: "graph_state \<Rightarrow> node" where
  "route_after_plan st = (if gs_phase st = Failed then NEnd else NExecute)"

definition route_after_evaluate :: "graph_state \<Rightarrow> node" where
  "route_after_evaluate st =
     (if gs_phase st = Done then NEnd else if gs_phase st = Failed then NEnd else NPlan)"

definition run_node :: "'w graph_env \<Rightarrow> int \<Rightarrow> node \<Rightarrow> graph_state \<Rightarrow> 'w \<Rightarrow> (string, node_result) result \<times> 'w" where
  "run_node env max_iterations n st w =
     (case n of
        NValidate \<Rightarrow> (Inr (Next (validate_node st)), w)
      | NPlan \<Rightarrow> (case plan_node env st w of (st', w') \<Rightarrow> (Inr (Next st'), w'))
      | NExecute \<Rightarrow> execute_node env st w
      | NEvaluate \<Rightarrow> evaluate_node env max_iterations st w
      | NEnd \<Rightarrow> (Inr (Next st), w))"

definition route_from :: "node \<Rightarrow> graph_state \<Rightarrow> node" where
  "route_from n st = (case n of
     NValidate \<Rightarrow> route_after_validate st | NPlan \<Rightarrow> route_after_plan st
   | NExecute \<Rightarrow> NEvaluate | NEvaluate \<Rightarrow> route_after_evaluate st | NEnd \<Rightarrow> NEnd)"

datatype run_end =
    Finished graph_state
  | Paused string graph_state
  | Raised string
  | RecursionError

fun graph_loop :: "'w graph_env \<Rightarrow> int \<Rightarrow> nat \<Rightarrow> node \<Rightarrow> graph_state \<Rightarrow> 'w \<Rightarrow> run_end \<times> 'w" where
  "graph_loop env mx 0 n st w = (if n = NEnd then (Finished st, w) else (RecursionError, w))"
| "graph_loop env mx (Suc limit) n st w =
     (if n = NEnd then (Finished st, w)
      else (case run_node env mx n st w of
              (Inl e, w') \<Rightarrow> (Raised e, w')
            | (Inr (Interrupt reason), w') \<Rightarrow> (Paused reason st, w')
            | (Inr (Next st'), w') \<Rightarrow> graph_loop env mx limit (route_from n st') st' w'))"

definition initial_state :: "string \<Rightarrow> tool_desc list \<Rightarrow> graph_state" where
  "initial_state task tools = \<lparr>gs_task = task, gs_phase = Validate, gs_iteration = 0, gs_plan = None,
     gs_execution_result = None, gs_evaluation_verdict = None, gs_final_result = None, gs_error = None,
     gs_tools = tools, gs_history = [], gs_completed_step_ids = []\<rparr>"

definition graph_run :: "'w graph_env \<Rightarrow> int \<Rightarrow> nat \<Rightarrow> string \<Rightarrow> tool_desc list \<Rightarrow> 'w \<Rightarrow> run_end \<times> 'w" where
  "graph_run env max_iterations recursion_limit task tools w =
     graph_loop env max_iterations recursion_limit NValidate (initial_state task tools) w"

subsection \<open>The order of execution\<close>

text \<open>\<open>xs\<close> runs everything once, and everything after what it refers to.\<close>

definition topological :: "(string, string list) dict \<Rightarrow> string list \<Rightarrow> string list \<Rightarrow> bool" where
  "topological deps ids xs \<longleftrightarrow> distinct xs \<and> set xs = set ids
     \<and> (\<forall>i < length xs. \<forall>p \<in> set (deps_of deps (xs ! i)). p \<in> set ids \<longrightarrow> p \<in> set (take i xs))"

lemma ready_sub: "set (ready deps ids) \<subseteq> set ids"
  by (auto simp: ready_def)

lemma topo_sound:
  "topo deps ids = Some xs \<Longrightarrow> distinct ids \<Longrightarrow> topological deps ids xs"
proof (induction deps ids arbitrary: xs rule: topo.induct)
  case (1 deps ids)
  show ?case
  proof (cases "ids = []")
    case True
    then show ?thesis using "1.prems" by (simp add: topo.simps [of deps "[]"] topological_def)
  next
    case False
    let ?r = "ready deps ids" and ?rest = "filter (\<lambda>i. i \<notin> set (ready deps ids)) ids"
    have r: "?r \<noteq> []" using "1.prems"(1) False by (auto simp: topo.simps [of deps ids] split: if_splits)
    then obtain ys where ys: "topo deps ?rest = Some ys" "xs = ?r @ ys"
      using "1.prems"(1) False by (auto simp: topo.simps [of deps ids])
    have t: "topological deps ?rest ys" using "1.IH" [OF False r ys(1)] "1.prems"(2) by simp
    have dr: "distinct ?r" using "1.prems"(2) by (simp add: ready_def)
    have "p \<in> set (take i xs)" if i: "i < length xs" "p \<in> set (deps_of deps (xs ! i))" "p \<in> set ids" for i p
    proof (cases "i < length ?r")
      case True
      then have "xs ! i \<in> set ?r" by (simp add: ys(2) nth_append)
      then show ?thesis using i by (auto simp: ready_def)
    next
      case False
      then have y: "xs ! i = ys ! (i - length ?r)" "i - length ?r < length ys" using i(1) by (auto simp: ys(2) nth_append)
      show ?thesis
      proof (cases "p \<in> set ?r")
        case True
        with False show ?thesis by (auto simp: ys(2))
      next
        case np: False
        with i(3) have "p \<in> set ?rest" by simp
        with t y i(2) have "p \<in> set (take (i - length ?r) ys)" by (auto simp: topological_def)
        then show ?thesis using False by (auto simp: ys(2))
      qed
    qed
    moreover have "distinct xs" "set xs = set ids" using t dr ready_sub [of deps ids] by (auto simp: topological_def ys(2))
    ultimately show ?thesis by (auto simp: topological_def)
  qed
qed

lemma filter_nth_split:
  "j < length (filter P xs) \<Longrightarrow> \<exists>us vs. xs = us @ (filter P xs ! j) # vs \<and> filter P us = take j (filter P xs)"
proof (induction xs arbitrary: j)
  case (Cons x xs)
  show ?case
  proof (cases "P x")
    case True
    show ?thesis
    proof (cases j)
      case 0
      with True show ?thesis by (intro exI [of _ "[]"] exI [of _ xs]) simp
    next
      case (Suc k)
      with True Cons.prems have "k < length (filter P xs)" by simp
      from Cons.IH [OF this] obtain us vs where "xs = us @ (filter P xs ! k) # vs" "filter P us = take k (filter P xs)" by blast
      with True Suc show ?thesis by (intro exI [of _ "x # us"] exI [of _ vs]) simp
    qed
  next
    case False
    with Cons.prems have "j < length (filter P xs)" by simp
    from Cons.IH [OF this] obtain us vs where "xs = us @ (filter P xs ! j) # vs" "filter P us = take j (filter P xs)" by blast
    with False show ?thesis by (intro exI [of _ "x # us"] exI [of _ vs]) simp
  qed
qed simp

lemma topo_complete:
  "topo deps ids = None \<Longrightarrow> \<nexists>xs. topological deps ids xs"
proof (induction deps ids rule: topo.induct)
  case (1 deps ids)
  let ?r = "ready deps ids" and ?rest = "filter (\<lambda>i. i \<notin> set (ready deps ids)) ids"
  have ids: "ids \<noteq> []" using 1 by (auto simp: topo.simps [of deps ids])
  show ?case
  proof
    assume "\<exists>xs. topological deps ids xs"
    then obtain xs where t: "topological deps ids xs" by blast
    show False
    proof (cases "?r = []")
      case True
      obtain x ys where x: "xs = x # ys" using t ids by (cases xs) (auto simp: topological_def)
      then have "\<forall>p \<in> set (deps_of deps x). p \<notin> set ids" using t by (force simp: topological_def)
      moreover have "x \<in> set ids" using t x by (auto simp: topological_def)
      ultimately have "x \<in> set ?r" by (simp add: ready_def)
      with True show False by simp
    next
      case False
      then have n: "topo deps ?rest = None" using "1.prems" ids by (auto simp: topo.simps [of deps ids])
      let ?ys = "filter (\<lambda>i. i \<notin> set ?r) xs"
      have "p \<in> set (take j ?ys)" if j: "j < length ?ys" "p \<in> set (deps_of deps (?ys ! j))" "p \<in> set ?rest" for j p
      proof -
        obtain us vs where uv: "xs = us @ (?ys ! j) # vs" "filter (\<lambda>i. i \<notin> set ?r) us = take j ?ys"
          using filter_nth_split [OF j(1)] by blast
        have "xs ! length us = ?ys ! j" "length us < length xs"
          by (metis uv(1) nth_append_length, subst uv(1), simp)
        then have "p \<in> set (take (length us) xs)"
          using t j(2,3) by (simp add: topological_def)
        then have "p \<in> set us" using uv(1) by (metis append_eq_conv_conj)
        with j(3) have "p \<in> set (filter (\<lambda>i. i \<notin> set ?r) us)" by auto
        with uv(2) show ?thesis by simp
      qed
      then have "topological deps ?rest ?ys" using t by (auto simp: topological_def)
      with "1.IH" [OF ids False n] show False by blast
    qed
  qed
qed

text \<open>The dependencies of a plan with distinct identifiers are the references of its steps.\<close>

lemma keys_add_deps: "ps_id ` set ss \<subseteq> fst ` set deps \<Longrightarrow> map fst (add_deps ss deps) = map fst deps"
proof (induction ss deps rule: add_deps.induct)
  case (2 s ss deps)
  have "k \<in> fst ` set d \<Longrightarrow> map fst (AList.update k v d) = map fst d" for k :: string and v :: "string list" and d
    by (induction d) auto
  moreover have "ps_id ` set ss \<subseteq> insert (ps_id s) (fst ` set deps)" using "2.prems" by auto
  ultimately show ?case using 2 by simp
qed simp

lemma deps_of_add_deps:
  "deps_of (add_deps ss deps) i = deps_of deps i @ concat (map step_refs (filter (\<lambda>s. ps_id s = i) ss))"
  by (induction ss deps rule: add_deps.induct) (auto simp: deps_of_def split: option.splits)

lemma keys_build_dag: "map fst (build_dag steps) = remdups (map ps_id steps)"
  by (simp add: build_dag_def keys_add_deps image_image o_def)

lemma deps_of_build_dag: "deps_of (build_dag steps) i = concat (map step_refs (filter (\<lambda>s. ps_id s = i) steps))"
proof -
  have "deps_of (map (\<lambda>i. (i, [])) xs) i = []" for xs :: "string list" by (induction xs) (auto simp: deps_of_def)
  then show ?thesis by (simp add: build_dag_def deps_of_add_deps)
qed

lemma deps_of_step:
  "distinct (map ps_id steps) \<Longrightarrow> s \<in> set steps \<Longrightarrow> deps_of (build_dag steps) (ps_id s) = step_refs s"
proof -
  assume d: "distinct (map ps_id steps)" "s \<in> set steps"
  then have "filter (\<lambda>t. ps_id t = ps_id s) steps = [s]"
    by (induction steps) (auto simp: filter_empty_conv image_iff)
  then show ?thesis by (simp add: deps_of_build_dag)
qed

lemma step_map_distinct: "distinct (map ps_id steps) \<Longrightarrow> s \<in> set steps \<Longrightarrow> step_map steps (ps_id s) = Some s"
proof -
  assume d: "distinct (map ps_id steps)" "s \<in> set steps"
  then have "distinct (map fst (rev (map (\<lambda>s. (ps_id s, s)) steps)))" by (simp add: rev_map o_def flip: rev_map)
  moreover have "(ps_id s, s) \<in> set (rev (map (\<lambda>s. (ps_id s, s)) steps))" using d(2) by simp
  ultimately show ?thesis unfolding step_map_def by (rule map_of_is_SomeI)
qed

text \<open>Every step comes after all steps whose output it uses.\<close>

definition refs_before :: "plan_step list \<Rightarrow> bool" where
  "refs_before ys \<longleftrightarrow> (\<forall>i < length ys. \<forall>r \<in> set (step_refs (ys ! i)). r \<in> ps_id ` set (take i ys))"

lemma refs_known:
  assumes "validate_step_references steps = []" and "s \<in> set steps"
  shows "set (step_refs s) \<subseteq> ps_id ` set steps"
  using assms by (auto simp: validate_step_references_def filter_empty_conv)

lemma topological_refs_before:
  assumes d: "distinct (map ps_id steps)" and v: "validate_step_references steps = []" and m: "set ys \<subseteq> set steps"
  shows "topological (build_dag steps) (map ps_id steps) (map ps_id ys) \<longleftrightarrow> mset ys = mset steps \<and> refs_before ys"
proof -
  have deps: "deps_of (build_dag steps) (map ps_id ys ! i) = step_refs (ys ! i)" if "i < length ys" for i
    using that m nth_mem deps_of_step [OF d, of "ys ! i"] by auto
  have known: "r \<in> ps_id ` set steps" if "i < length ys" "r \<in> set (step_refs (ys ! i))" for i r
    using refs_known [OF v, of "ys ! i"] that m nth_mem by blast
  have "distinct (map ps_id ys) \<and> set (map ps_id ys) = set (map ps_id steps) \<longleftrightarrow> mset ys = mset steps"
  proof
    assume a: "distinct (map ps_id ys) \<and> set (map ps_id ys) = set (map ps_id steps)"
    have "set steps \<subseteq> set ys"
    proof
      fix s assume s: "s \<in> set steps"
      then have "ps_id s \<in> ps_id ` set ys" using a by force
      then obtain t where t: "t \<in> set ys" "ps_id t = ps_id s" by force
      then have "t = s" using d s m by (metis distinct_map inj_onD subsetD)
      with t show "s \<in> set ys" by simp
    qed
    with m a d show "mset ys = mset steps" by (metis distinct_map set_eq_iff_mset_eq_distinct subset_antisym)
  next
    assume a: "mset ys = mset steps"
    then have "mset (map ps_id ys) = mset (map ps_id steps)" by simp
    with d show "distinct (map ps_id ys) \<and> set (map ps_id ys) = set (map ps_id steps)"
      by (metis mset_eq_imp_distinct_iff mset_eq_setD)
  qed
  then show ?thesis using deps known by (fastforce simp: topological_def refs_before_def take_map)
qed

text \<open>
  \<^bold>\<open>C20.\<close> Execution follows the references: for a plan with distinct step identifiers and no
  unknown reference, each step is run exactly once, and whenever there is any order at all
  in which every step comes after the steps whose output it uses, the executed order is one; only
  a cyclic plan is run in its written order.
\<close>

theorem execution_order_correct:
  assumes "distinct (map ps_id steps)" and "validate_step_references steps = []"
  shows "mset (execution_order steps) = mset steps
    \<and> ((\<exists>ys. mset ys = mset steps \<and> refs_before ys) \<longleftrightarrow> refs_before (execution_order steps))
    \<and> (\<not> refs_before (execution_order steps) \<longrightarrow> execution_order steps = steps)"
proof -
  let ?deps = "build_dag steps" and ?ids = "map ps_id steps"
  have keys: "map fst ?deps = ?ids" using assms(1) by (simp add: keys_build_dag distinct_remdups_id)
  show ?thesis
  proof (cases "topo ?deps ?ids")
    case None
    have "\<not> refs_before ys" if "mset ys = mset steps" for ys
      using topo_complete [OF None] topological_refs_before [OF assms, of ys] that mset_eq_setD [OF that] by auto
    moreover have "execution_order steps = steps" using None by (simp add: execution_order_def topo_order_def keys)
    ultimately show ?thesis by auto
  next
    case (Some xs)
    have t: "topological ?deps ?ids xs" by (rule topo_sound [OF Some assms(1)])
    let ?ys = "execution_order steps"
    have ys: "?ys = List.map_filter (step_map steps) xs" using Some by (simp add: execution_order_def topo_order_def keys)
    have "\<forall>x \<in> set xs. \<exists>s \<in> set steps. ps_id s = x \<and> step_map steps x = Some s"
      using t step_map_distinct [OF assms(1)] by (force simp: topological_def)
    then have "map ps_id (List.map_filter (step_map steps) xs) = xs \<and> set (List.map_filter (step_map steps) xs) \<subseteq> set steps"
      by (induction xs) (auto simp: map_filter_simps)
    then have "map ps_id ?ys = xs" "set ?ys \<subseteq> set steps" using ys by simp_all
    with t topological_refs_before [OF assms, of ?ys] show ?thesis by auto
  qed
qed

lemma execution_order_correct_witness:
  "refs_before (execution_order
     [\<lparr>ps_id = ''b'', ps_tool_name = ''echo'', ps_arguments = []\<rparr>, \<lparr>ps_id = ''a'', ps_tool_name = ''add'', ps_arguments = []\<rparr>])"
proof -
  let ?s = "[\<lparr>ps_id = ''b'', ps_tool_name = ''echo'', ps_arguments = []\<rparr>, \<lparr>ps_id = ''a'', ps_tool_name = ''add'', ps_arguments = []\<rparr>]"
  have "distinct (map ps_id ?s)" "validate_step_references ?s = []" "refs_before ?s"
    by (simp_all add: validate_step_references_def step_refs_def refs_before_def less_Suc_eq)
  with execution_order_correct [of ?s] show ?thesis by blast
qed

subsection \<open>Runs are bounded\<close>

text \<open>The node executions a run can still make, from node \<open>n\<close> with \<open>k\<close> iterations behind it.\<close>

definition rank :: "int \<Rightarrow> node \<Rightarrow> int \<Rightarrow> int" where
  "rank m n k = (case n of NValidate \<Rightarrow> 3 * (m - k) + 1 | NPlan \<Rightarrow> 3 * (m - k) | NExecute \<Rightarrow> 3 * (m - k) - 1
     | NEvaluate \<Rightarrow> 3 * (m - k) - 2 | NEnd \<Rightarrow> 0)"

definition run_inv :: "int \<Rightarrow> node \<Rightarrow> graph_state \<Rightarrow> bool" where
  "run_inv m n st \<longleftrightarrow> gs_iteration st = int (length (gs_history st)) \<and>
     (if n = NEnd then gs_iteration st \<le> m \<and> gs_phase st \<in> {Done, Failed} else gs_iteration st < m)"

lemma plan_node_frame:
  "plan_node env st w = (st', w') \<Longrightarrow> gs_iteration st' = gs_iteration st \<and> gs_history st' = gs_history st
     \<and> (gs_phase st' = Execute \<or> gs_phase st' = Failed)"
  by (auto simp: plan_node_def Let_def split: prod.splits sum.splits)

lemma execute_node_frame:
  "execute_node env st w = (Inr (Next st'), w') \<Longrightarrow> gs_iteration st' = gs_iteration st \<and> gs_history st' = gs_history st"
  by (auto simp: execute_node_def Let_def split: prod.splits sum.splits if_splits option.splits list.splits)

lemma evaluate_node_frame:
  assumes "evaluate_node env mx st w = (Inr (Next st'), w')"
  shows "gs_iteration st' = gs_iteration st + 1 \<and> length (gs_history st') = length (gs_history st) + 1
    \<and> (gs_phase st' = Done \<or> gs_phase st' = Failed \<or> gs_phase st' = Plan \<and> gs_iteration st' < mx)"
  using assms by (auto simp: evaluate_node_def Let_def split: prod.splits sum.splits if_splits option.splits)

lemma run_node_inv:
  assumes "run_node env mx n st w = (Inr (Next st'), w')" and "run_inv (max 1 mx) n st" and "n \<noteq> NEnd"
  shows "run_inv (max 1 mx) (route_from n st') st'
    \<and> rank (max 1 mx) (route_from n st') (gs_iteration st') < rank (max 1 mx) n (gs_iteration st)"
proof (cases n)
  case NValidate
  then have "st' = validate_node st" using assms(1) by (simp add: run_node_def)
  then show ?thesis using assms(2) NValidate
    by (auto simp: validate_node_def route_from_def route_after_validate_def run_inv_def rank_def)
next
  case NPlan
  then have "plan_node env st w = (st', w')" using assms(1) by (auto simp: run_node_def split: prod.splits)
  from plan_node_frame [OF this] show ?thesis using assms(2) NPlan
    by (auto simp: route_from_def route_after_plan_def run_inv_def rank_def)
next
  case NExecute
  then have "execute_node env st w = (Inr (Next st'), w')" using assms(1) by (simp add: run_node_def)
  from execute_node_frame [OF this] show ?thesis using assms(2) NExecute
    by (auto simp: route_from_def run_inv_def rank_def)
next
  case NEvaluate
  then have "evaluate_node env mx st w = (Inr (Next st'), w')" using assms(1) by (simp add: run_node_def)
  from evaluate_node_frame [OF this] show ?thesis using assms(2) NEvaluate
    by (auto simp: route_from_def route_after_evaluate_def run_inv_def rank_def)
qed (use assms(3) in simp)

lemma graph_loop_bounded:
  assumes "graph_loop env mx limit n st w = (r, w')" and "run_inv (max 1 mx) n st"
    and "rank (max 1 mx) n (gs_iteration st) \<le> int limit"
  shows "r \<noteq> RecursionError \<and> (\<forall>st'. r = Finished st' \<longrightarrow> run_inv (max 1 mx) NEnd st')"
  using assms
proof (induction limit arbitrary: n st w)
  case 0
  then have "n = NEnd" by (cases n) (auto simp: rank_def run_inv_def)
  with 0 show ?case by auto
next
  case (Suc limit)
  show ?case
  proof (cases "n = NEnd")
    case True
    with Suc.prems show ?thesis by auto
  next
    case False
    obtain a w1 where a: "run_node env mx n st w = (a, w1)" by (metis prod.exhaust)
    show ?thesis
    proof (cases "\<exists>st1. a = Inr (Next st1)")
      case True
      then obtain st1 where st1: "a = Inr (Next st1)" by blast
      note inv = run_node_inv [OF a [unfolded st1] Suc.prems(2) False]
      have "graph_loop env mx limit (route_from n st1) st1 w1 = (r, w')" using Suc.prems(1) a st1 False by simp
      from Suc.IH [OF this] inv Suc.prems(3) show ?thesis by simp
    next
      case False
      with Suc.prems(1) a \<open>n \<noteq> NEnd\<close> show ?thesis by (auto split: sum.splits node_result.splits)
    qed
  qed
qed

text \<open>
  \<^bold>\<open>C19.\<close> The run is bounded by \<open>max_iterations\<close>: given a recursion limit of at least three nodes per
  iteration plus one, no behaviour of the model, the tools or the critic makes a run exceed it. A run
  that finishes is in phase DONE or FAILED, after at most \<open>max_iterations\<close> rounds (at least one
  is allowed), each of which has its entry in the history.
\<close>

theorem graph_run_bounded:
  assumes "3 * max 1 mx + 1 \<le> int limit" and "graph_run env mx limit task tools w = (r, w')"
  shows "r \<noteq> RecursionError
    \<and> (\<forall>st. r = Finished st \<longrightarrow> gs_phase st \<in> {Done, Failed} \<and> gs_iteration st \<le> max 1 mx
         \<and> gs_iteration st = int (length (gs_history st)))"
proof -
  have "graph_loop env mx limit NValidate (initial_state task tools) w = (r, w')" using assms(2) by (simp add: graph_run_def)
  moreover have "run_inv (max 1 mx) NValidate (initial_state task tools)"
    by (simp add: run_inv_def initial_state_def less_max_iff_disj)
  moreover have "rank (max 1 mx) NValidate (gs_iteration (initial_state task tools)) \<le> int limit"
    using assms(1) by (simp add: rank_def initial_state_def)
  ultimately show ?thesis using graph_loop_bounded by (fastforce simp: run_inv_def)
qed

text \<open>A world for the witnesses: a critic that is never satisfied, a plan of one harmless step.\<close>

definition grumpy_env :: "unit graph_env" where
  "grumpy_env = \<lparr>ge_str = (\<lambda>_. ''''), ge_show_verdict = (\<lambda>_. ''''), ge_show_execution = (\<lambda>_. ''''),
     ge_planner = (\<lambda>_ _ w. (Inr \<lparr>ep_intent = ''i'', ep_steps = [[(''id'', JStr ''s1''), (''tool_name'', JStr ''echo'')]]\<rparr>, w)),
     ge_plain = (\<lambda>_ _ w. (Inl '''', w)),
     ge_critic = (\<lambda>_ w. (Inr \<lparr>vd_passed = False, vd_score = 1 / 2, vd_findings = [], vd_revision_notes = ''''\<rparr>, w)),
     ge_call_tool = (\<lambda>_ _ w. (TOk JNull, w)), ge_step_timeout = ''30.0''\<rparr>"

lemma graph_run_bounded_witness:
  "fst (graph_run grumpy_env 2 7 ''task'' [\<lparr>td_name = ''echo'', td_description = '''', td_args = []\<rparr>] ()) \<noteq> RecursionError"
proof -
  let ?run = "graph_run grumpy_env 2 7 ''task'' [\<lparr>td_name = ''echo'', td_description = '''', td_args = []\<rparr>] ()"
  obtain r w' where r: "?run = (r, w')" by (metis prod.exhaust)
  have "3 * max 1 2 + 1 \<le> int 7" by simp
  from graph_run_bounded [OF this r] r show ?thesis by simp
qed

text \<open>
  A round that always proceeds: the planner delivers a plan whose steps are typed, known and
  harmless, and the critic rejects it without scoring it 0.
\<close>

definition keeps_failing :: "'w graph_env \<Rightarrow> bool" where
  "keeps_failing env \<longleftrightarrow>
     (\<forall>s p w. \<exists>pl steps w'. ge_planner env s p w = (Inr pl, w') \<and> ep_steps pl \<noteq> [] \<and> typed_steps pl = Inr steps
        \<and> validate_step_references steps = [] \<and> (\<forall>x \<in> set steps. \<not> destructive (ps_tool_name x)))
     \<and> (\<forall>t w. \<exists>v w'. ge_critic env t w = (Inr v, w') \<and> \<not> vd_passed v \<and> vd_score v \<noteq> 0)"

lemma failing_plan:
  assumes "keeps_failing env"
  obtains pl steps w' where "plan_node env st w = (st\<lparr>gs_phase := Execute, gs_plan := Some pl\<rparr>, w')" and "ep_steps pl \<noteq> []"
    and "typed_steps pl = Inr steps" and "validate_step_references steps = []" and "filter (\<lambda>s. destructive (ps_tool_name s)) steps = []"
proof -
  obtain pl steps w' where "ge_planner env (plan_system (gs_tools st)) (plan_prompt env st) w = (Inr pl, w')" "ep_steps pl \<noteq> []"
    "typed_steps pl = Inr steps" "validate_step_references steps = []" "\<forall>x \<in> set steps. \<not> destructive (ps_tool_name x)"
    using assms unfolding keeps_failing_def by blast
  then show ?thesis by (intro that) (auto simp: plan_node_def filter_empty_conv)
qed

lemma failing_execute:
  assumes "ep_steps pl \<noteq> []" and "typed_steps pl = Inr steps" and "validate_step_references steps = []"
    and "filter (\<lambda>s. destructive (ps_tool_name s)) steps = []" and "gs_phase st = Execute" and "gs_plan st = Some pl"
  obtains st' w' where "execute_node env st w = (Inr (Next st'), w')" and "gs_iteration st' = gs_iteration st"
proof -
  obtain rs x where "run_steps env (execution_order steps)
      \<lparr>es_outputs = (\<lambda>_. None), es_completed = gs_completed_step_ids st, es_world = w\<rparr> = (rs, x)" by (metis prod.exhaust)
  then show ?thesis
    using assms by (intro that [of "st\<lparr>gs_phase := Evaluate, gs_execution_result := Some rs, gs_completed_step_ids := es_completed x\<rparr>" "es_world x"])
      (simp_all add: execute_node_def)
qed

lemma failing_evaluate:
  assumes "keeps_failing env" and "gs_iteration st + 1 < mx"
  obtains st' w' where "evaluate_node env mx st w = (Inr (Next st'), w')" and "gs_phase st' = Plan" and "gs_iteration st' = gs_iteration st + 1"
proof -
  obtain v w' where "ge_critic env (''Task: '' @ gs_task st @ newline1 @ newline1 @ ''Execution results: ''
      @ ge_show_execution env (gs_execution_result st)) w = (Inr v, w')" "\<not> vd_passed v" "vd_score v \<noteq> 0"
    using assms(1) unfolding keeps_failing_def by blast
  then show ?thesis using assms(2) by (intro that) (auto simp: evaluate_node_def Let_def)
qed

lemma failing_loop:
  "keeps_failing env \<Longrightarrow> int k < 3 * (mx - gs_iteration st) \<Longrightarrow> fst (graph_loop env mx k NPlan st w) = RecursionError"
proof (induction k arbitrary: st w rule: less_induct)
  case (less k)
  show ?case
  proof (cases "k \<le> 2")
    case True
    obtain pl steps w1 where p: "plan_node env st w = (st\<lparr>gs_phase := Execute, gs_plan := Some pl\<rparr>, w1)" and
      q: "ep_steps pl \<noteq> []" "typed_steps pl = Inr steps" "validate_step_references steps = []" "filter (\<lambda>s. destructive (ps_tool_name s)) steps = []"
      by (rule failing_plan [OF less.prems(1)])
    obtain st2 w2 where e: "execute_node env (st\<lparr>gs_phase := Execute, gs_plan := Some pl\<rparr>) w1 = (Inr (Next st2), w2)"
      by (rule failing_execute [OF q, of "st\<lparr>gs_phase := Execute, gs_plan := Some pl\<rparr>" env w1]) auto
    consider "k = 0" | "k = 1" | "k = 2" using True by linarith
    then show ?thesis
      using p e by cases (auto simp: numeral_2_eq_2 run_node_def route_from_def route_after_plan_def)
  next
    case False
    then obtain j where j: "k = Suc (Suc (Suc j))" by (metis One_nat_def Suc_1 not_less_eq_eq le_Suc_ex add_Suc add_Suc_right plus_nat.add_0 Suc_le_D)
    obtain pl steps w1 where p: "plan_node env st w = (st\<lparr>gs_phase := Execute, gs_plan := Some pl\<rparr>, w1)" and
      q: "ep_steps pl \<noteq> []" "typed_steps pl = Inr steps" "validate_step_references steps = []" "filter (\<lambda>s. destructive (ps_tool_name s)) steps = []"
      by (rule failing_plan [OF less.prems(1)])
    obtain st2 w2 where e: "execute_node env (st\<lparr>gs_phase := Execute, gs_plan := Some pl\<rparr>) w1 = (Inr (Next st2), w2)" "gs_iteration st2 = gs_iteration st"
      by (rule failing_execute [OF q, of "st\<lparr>gs_phase := Execute, gs_plan := Some pl\<rparr>" env w1]) auto
    have lt: "gs_iteration st2 + 1 < mx" using less.prems(2) j e(2) by simp
    obtain st3 w3 where v: "evaluate_node env mx st2 w2 = (Inr (Next st3), w3)" "gs_phase st3 = Plan" "gs_iteration st3 = gs_iteration st2 + 1"
      by (rule failing_evaluate [OF less.prems(1) lt])
    have "graph_loop env mx k NPlan st w = graph_loop env mx j NPlan st3 w3"
      using p e(1) v(1,2) by (simp add: j run_node_def route_from_def route_after_plan_def route_after_evaluate_def)
    moreover have "fst (graph_loop env mx j NPlan st3 w3) = RecursionError"
      using less.IH [of j st3 w3] less.prems v(3) e(2) j by simp
    ultimately show ?thesis by simp
  qed
qed

text \<open>
  The configured bound is out of reach: \<open>run\<close> leaves LangGraph's recursion limit at 25, so
  with \<open>max_iterations\<close> above 8 (the default is 15) a task whose critic keeps rejecting does not end in
  phase FAILED with its history; the run is cut off by a recursion error.
\<close>

theorem graph_recursion_limit_hit:
  assumes "keeps_failing env" and "task \<noteq> []" and "tools \<noteq> []" and "8 < mx"
  shows "fst (graph_run env mx 25 task tools w) = RecursionError"
proof -
  let ?st = "(initial_state task tools)\<lparr>gs_phase := Plan\<rparr>"
  have "run_node env mx NValidate (initial_state task tools) w = (Inr (Next ?st), w)"
    using assms(2,3) by (simp add: run_node_def validate_node_def initial_state_def)
  moreover have "route_from NValidate ?st = NPlan" by (simp add: route_from_def route_after_validate_def)
  ultimately have "graph_loop env mx (Suc 24) NValidate (initial_state task tools) w = graph_loop env mx 24 NPlan ?st w"
    by (simp only: graph_loop.simps(2)) simp
  moreover have "fst (graph_loop env mx 24 NPlan ?st w) = RecursionError"
    using assms(4) by (intro failing_loop [OF assms(1)]) (simp add: initial_state_def)
  ultimately show ?thesis by (simp add: graph_run_def numeral_eq_Suc)
qed

lemma graph_recursion_limit_hit_witness:
  "fst (graph_run grumpy_env 15 25 ''task'' [\<lparr>td_name = ''echo'', td_description = '''', td_args = []\<rparr>] ()) = RecursionError"
proof -
  have t: "typed_steps \<lparr>ep_intent = ''i'', ep_steps = [[(''id'', JStr ''s1''), (''tool_name'', JStr ''echo'')]]\<rparr>
      = Inr [\<lparr>ps_id = ''s1'', ps_tool_name = ''echo'', ps_arguments = []\<rparr>]"
    by (simp add: typed_steps_def from_loose_dict_def)
  have d: "\<not> destructive ''echo''" by code_simp
  have "keeps_failing grumpy_env"
    using t d by (simp add: keeps_failing_def grumpy_env_def validate_step_references_def step_refs_def)
  then show ?thesis using graph_recursion_limit_hit [of grumpy_env "''task''" _ 15] by simp
qed

text \<open>
  The completed identifiers survive a retry: a step of the revised plan that reuses an
  identifier is not run, and its result is the text that says so.
\<close>

lemma replanned_step_skipped:
  "ps_id s \<in> set (es_completed x) \<Longrightarrow> snd (run_step env s x) = x
     \<and> sr_result (fst (run_step env s x)) = Some (JStr ''skipped (already completed)'') \<and> sr_success (fst (run_step env s x))"
  by (simp add: run_step_def)

text \<open>No tool runs while a destructive step of the plan waits for approval.\<close>

lemma execute_node_guard:
  "gs_plan st = Some p \<Longrightarrow> typed_steps p = Inr steps \<Longrightarrow> s \<in> set steps \<Longrightarrow> destructive (ps_tool_name s)
     \<Longrightarrow> snd (execute_node env st w) = w"
  by (auto simp: execute_node_def Let_def filter_empty_conv split: list.splits)

end
