(* ===== verification/Crew.thy ===== *)
theory Crew
  imports Graph_Orchestrator
begin

section \<open>Multi-agent crews (crew.py)\<close>

text \<open>
  Tool scoping, personas and the two runners of the repository: the native sequential one and the
  one on top of the graph orchestrator, with \<open>kickoff\<close>. CrewAI and the PydanticAI agent are
  arguments. A tool descriptor is the record of \<^theory_text>\<open>Graph_Orchestrator\<close>, so it has its name.
\<close>

definition role_tool_patterns :: "string \<Rightarrow> string list option" where
  "role_tool_patterns = map_of [
     (''analyst'', [''read'', ''search'', ''fetch'', ''list'', ''get'', ''describe'']),
     (''writer'', [''write'', ''create'', ''update'', ''format'', ''publish'', ''send'']),
     (''db_agent'', [''sql'', ''query'', ''select'', ''insert'', ''upsert'', ''delete'']),
     (''librarian'', [''embed'', ''ingest'', ''index'', ''retrieve'', ''vector'']),
     (''orchestrator'', [])]"

definition matches_any :: "string list \<Rightarrow> string \<Rightarrow> bool" where
  "matches_any patterns name = list_ex (\<lambda>pat. str_in (py_lower pat) (py_lower name)) patterns"

definition scope_tools :: "string \<Rightarrow> tool_desc list \<Rightarrow> string list option \<Rightarrow> tool_desc list" where
  "scope_tools role tools allowed_patterns =
     (if role = ''orchestrator'' then tools
      else (let patterns = (case allowed_patterns of Some ps \<Rightarrow> ps
                 | None \<Rightarrow> (case role_tool_patterns role of Some ps \<Rightarrow> ps | None \<Rightarrow> []))
            in if patterns = [] then [] else filter (\<lambda>t. matches_any patterns (td_name t)) tools))"

datatype crew_error = PermissionError string string "string list" | CrewRaise string

type_synonym 'w tool_fn = "string \<Rightarrow> arguments \<Rightarrow> 'w \<Rightarrow> tool_outcome \<times> 'w"

text \<open>The wrapped tool function; a \<open>PermissionError\<close> is raised before the tool is reached.\<close>

definition permission_text :: "string \<Rightarrow> string list \<Rightarrow> string \<Rightarrow> string" where
  "permission_text role allowed tool_name =
     ''Agent role '' @ squote @ role @ squote @ '' is not permitted to call tool '' @ squote @ tool_name @ squote @ ''. ''
     @ ''Allowed tools: ['' @ py_join '', '' (map (\<lambda>n. squote @ n @ squote) (sort (remdups allowed))) @ '']''"

definition build_scoped_call_fn :: "string \<Rightarrow> tool_desc list \<Rightarrow> 'w tool_fn \<Rightarrow> 'w tool_fn" where
  "build_scoped_call_fn role scoped_tools base_call_fn tool_name args w =
     (let allowed_names = map td_name scoped_tools
      in if tool_name \<notin> set allowed_names then (TRaise (permission_text role allowed_names tool_name), w)
         else base_call_fn tool_name args w)"

subsection \<open>Agents and results\<close>

record scoped_agent =
  ag_role :: string
  ag_allowed_patterns :: "string list option"
  ag_system_prompt :: string
  ag_model_name :: string

record agent_result =
  ar_role :: string
  ar_task_description :: string
  ar_output :: json
  ar_success :: bool
  ar_error :: "string option"

record crew_result =
  cr_final_output :: json
  cr_agent_results :: "agent_result list"
  cr_iterations :: nat
  cr_passed_validation :: bool

definition get_scoped_tools :: "scoped_agent \<Rightarrow> tool_desc list \<Rightarrow> tool_desc list" where
  "get_scoped_tools a all_tools = scope_tools (ag_role a) all_tools (ag_allowed_patterns a)"

definition get_persona :: "scoped_agent \<Rightarrow> string" where
  "get_persona a =
     (let preamble = ''You are the '' @ ag_role a @ '' agent in a multi-agent pipeline. ''
            @ ''Complete your assigned task using ONLY the tools available to you. ''
            @ ''Return a concise, structured result.''
      in if ag_system_prompt a \<noteq> [] then preamble @ newline1 @ newline1 @ ag_system_prompt a else preamble)"

definition ok_result :: "scoped_agent \<Rightarrow> string \<Rightarrow> json \<Rightarrow> agent_result" where
  "ok_result a context_text output =
     \<lparr>ar_role = ag_role a, ar_task_description = context_text, ar_output = output, ar_success = True, ar_error = None\<rparr>"

definition failed_result :: "scoped_agent \<Rightarrow> string \<Rightarrow> string option \<Rightarrow> agent_result" where
  "failed_result a context_text err =
     \<lparr>ar_role = ag_role a, ar_task_description = context_text, ar_output = JStr [], ar_success = False, ar_error = err\<rparr>"

text \<open>The tail both runners share: the last output, all successes, then the evaluator.\<close>

definition crew_summary :: "(crew_result \<Rightarrow> bool) option \<Rightarrow> scoped_agent list \<Rightarrow> agent_result list \<Rightarrow> crew_result" where
  "crew_summary evaluator agents results =
     (let result = \<lparr>cr_final_output = (if results = [] then JStr [] else ar_output (last results)),
            cr_agent_results = results, cr_iterations = length agents, cr_passed_validation = list_all ar_success results\<rparr>
      in case evaluator of None \<Rightarrow> result | Some f \<Rightarrow> result\<lparr>cr_passed_validation := f result\<rparr>)"

subsection \<open>The native runner\<close>

definition native_prompt :: "string \<Rightarrow> tool_desc list \<Rightarrow> string" where
  "native_prompt context_text scoped =
     (let names = py_join '', '' (map td_name scoped); tool_summary = (if names = [] then ''(none)'' else names)
      in ''Task: '' @ context_text @ newline1 @ newline1 @ ''You have access to these tools: '' @ tool_summary @ newline1
         @ ''Complete your portion of the task and return a concise result.'')"

text \<open>\<open>agent model persona prompt\<close> is the run of a PydanticAI agent; it gets no tool.\<close>

fun native_loop ::
  "(string \<Rightarrow> string \<Rightarrow> string \<Rightarrow> 'w \<Rightarrow> (string, string) result \<times> 'w) \<Rightarrow> tool_desc list \<Rightarrow> scoped_agent list
     \<Rightarrow> string \<Rightarrow> 'w \<Rightarrow> agent_result list \<times> 'w" where
  "native_loop agent all_tools [] context_text w = ([], w)"
| "native_loop agent all_tools (a # as) context_text w =
     (case agent (ag_model_name a) (get_persona a) (native_prompt context_text (get_scoped_tools a all_tools)) w of
        (Inr out, w1) \<Rightarrow>
          (case native_loop agent all_tools as out w1 of (rs, w2) \<Rightarrow> (ok_result a context_text (JStr out) # rs, w2))
      | (Inl exc, w1) \<Rightarrow>
          (case native_loop agent all_tools as context_text w1 of
             (rs, w2) \<Rightarrow> (failed_result a context_text (Some exc) # rs, w2)))"

definition run_native ::
  "(string \<Rightarrow> string \<Rightarrow> string \<Rightarrow> 'w \<Rightarrow> (string, string) result \<times> 'w) \<Rightarrow> tool_desc list \<Rightarrow> (crew_result \<Rightarrow> bool) option
     \<Rightarrow> scoped_agent list \<Rightarrow> string \<Rightarrow> 'w \<Rightarrow> crew_result \<times> 'w" where
  "run_native agent all_tools evaluator agents task w =
     (case native_loop agent all_tools agents task w of (rs, w') \<Rightarrow> (crew_summary evaluator agents rs, w'))"

subsection \<open>The runner on the graph orchestrator\<close>

text \<open>
  \<open>env\<close> is the environment of the graphs for a model name; its tool function is replaced by the
  scoped one, or by the constant empty dict when the crew has no tool function. The output of a
  graph is the text of its final result; pydantic accepts a string or a dict for it, and the
  next task must be a string.
\<close>

definition scoped_env :: "(string \<Rightarrow> 'w graph_env) \<Rightarrow> 'w tool_fn option \<Rightarrow> tool_desc list \<Rightarrow> scoped_agent \<Rightarrow> 'w graph_env" where
  "scoped_env env call_tool_fn all_tools a =
     (env (ag_model_name a))\<lparr>ge_call_tool := (case call_tool_fn of
        Some f \<Rightarrow> build_scoped_call_fn (ag_role a) (get_scoped_tools a all_tools) f
      | None \<Rightarrow> (\<lambda>_ _ w. (TOk (JObj []), w)))\<rparr>"

definition graph_outcome :: "scoped_agent \<Rightarrow> string \<Rightarrow> run_end \<Rightarrow> agent_result" where
  "graph_outcome a context_text r =
     (case r of
        Raised e \<Rightarrow> failed_result a context_text (Some e)
      | RecursionError \<Rightarrow> failed_result a context_text (Some ''Recursion limit reached without hitting a stop condition.'')
      | Paused reason st \<Rightarrow> failed_result a context_text (gs_error st)
      | Finished st \<Rightarrow>
          (case (gs_phase st, gs_final_result st) of
             (Done, Some fr) \<Rightarrow>
               (case fr_text fr of
                  JStr t \<Rightarrow> ok_result a context_text (JStr t)
                | JObj kvs \<Rightarrow> ok_result a context_text (JObj kvs)
                | _ \<Rightarrow> failed_result a context_text (Some ''ValidationError''))
           | (Done, None) \<Rightarrow> failed_result a context_text (Some ''AttributeError'')
           | _ \<Rightarrow> failed_result a context_text (gs_error st)))"

text \<open>
  A dict output becomes the context of the next agent, whose result pydantic then refuses
  (its task description must be a string), also in the exception handler: the crew raises.
\<close>

fun langgraph_loop ::
  "(string \<Rightarrow> 'w graph_env) \<Rightarrow> int \<Rightarrow> nat \<Rightarrow> 'w tool_fn option \<Rightarrow> tool_desc list \<Rightarrow> scoped_agent list
     \<Rightarrow> json \<Rightarrow> 'w \<Rightarrow> (string, agent_result list) result \<times> 'w" where
  "langgraph_loop env mx limit call all_tools [] ctx w = (Inr [], w)"
| "langgraph_loop env mx limit call all_tools (a # as) ctx w =
     (case ctx of
        JStr context_text \<Rightarrow>
          (case graph_run (scoped_env env call all_tools a) mx limit context_text (get_scoped_tools a all_tools) w of
             (r, w1) \<Rightarrow>
               (let res = graph_outcome a context_text r
                in case langgraph_loop env mx limit call all_tools as (if ar_success res then ar_output res else ctx) w1 of
                     (Inl e, w2) \<Rightarrow> (Inl e, w2)
                   | (Inr rs, w2) \<Rightarrow> (Inr (res # rs), w2)))
      | _ \<Rightarrow> (Inl ''ValidationError'', w))"

definition run_with_langgraph ::
  "(string \<Rightarrow> 'w graph_env) \<Rightarrow> int \<Rightarrow> nat \<Rightarrow> 'w tool_fn option \<Rightarrow> tool_desc list \<Rightarrow> (crew_result \<Rightarrow> bool) option
     \<Rightarrow> scoped_agent list \<Rightarrow> string \<Rightarrow> 'w \<Rightarrow> (string, crew_result) result \<times> 'w" where
  "run_with_langgraph env mx limit call all_tools evaluator agents task w =
     (case langgraph_loop env mx limit call all_tools agents (JStr task) w of
        (Inl e, w') \<Rightarrow> (Inl e, w')
      | (Inr rs, w') \<Rightarrow> (Inr (crew_summary evaluator agents rs), w'))"

subsection \<open>CrewAI and kickoff\<close>

text \<open>
  What the crew hands to CrewAI: one agent and one task per scoped agent, and the scoped tools as
  objects that run the scoped call under their own name. The library is a function from these and
  the process to the text of the crew's
  result and the raw output of each task, if it has one.
\<close>

record crewai_llm =
  cl_model :: string
  cl_provider :: "string option"
  cl_api_key :: "string option"

record 'w crewai_tool =
  ct_name :: string
  ct_description :: string
  ct_run :: "arguments \<Rightarrow> 'w \<Rightarrow> tool_outcome \<times> 'w"

record 'w crewai_agent =
  ca_role :: string
  ca_goal :: string
  ca_backstory :: string
  ca_tools :: "'w crewai_tool list"
  ca_allow_delegation :: bool
  ca_llm :: crewai_llm

type_synonym 'w crewai_lib =
  "'w crewai_agent list \<Rightarrow> string list \<Rightarrow> bool \<Rightarrow> 'w \<Rightarrow> (string, string \<times> string option list) result \<times> 'w"

definition get_crewai_llm :: "string option \<Rightarrow> string \<Rightarrow> crewai_llm" where
  "get_crewai_llm api_key model_name =
     (if str_in ''gemini'' (py_lower model_name)
      then \<lparr>cl_model = model_name, cl_provider = Some ''google'',
            cl_api_key = (case api_key of Some [] \<Rightarrow> None | k \<Rightarrow> k)\<rparr>
      else \<lparr>cl_model = model_name, cl_provider = None, cl_api_key = None\<rparr>)"

definition wrap_tools_for_crewai :: "tool_desc list \<Rightarrow> 'w tool_fn option \<Rightarrow> 'w crewai_tool list" where
  "wrap_tools_for_crewai scoped_tools call_fn =
     (case call_fn of
        None \<Rightarrow> []
      | Some f \<Rightarrow> map (\<lambda>t. \<lparr>ct_name = td_name t, ct_description = td_description t, ct_run = f (td_name t)\<rparr>) scoped_tools)"

definition crewai_agents ::
  "string option \<Rightarrow> 'w tool_fn option \<Rightarrow> tool_desc list \<Rightarrow> string \<Rightarrow> scoped_agent list \<Rightarrow> string \<Rightarrow> 'w crewai_agent list" where
  "crewai_agents api_key call_tool_fn all_tools process agents task =
     map (\<lambda>(i, a).
       let scoped = get_scoped_tools a all_tools
       in \<lparr>ca_role = ag_role a, ca_goal = ''Complete your portion of: '' @ task, ca_backstory = get_persona a,
           ca_tools = wrap_tools_for_crewai scoped (map_option (build_scoped_call_fn (ag_role a) scoped) call_tool_fn),
           ca_allow_delegation = (process = ''hierarchical'' \<and> i = 0),
           ca_llm = get_crewai_llm api_key (ag_model_name a)\<rparr>)
     (zip [0..<length agents] agents)"

definition crewai_tasks :: "scoped_agent list \<Rightarrow> string \<Rightarrow> string list" where
  "crewai_tasks agents task =
     map (\<lambda>i. if i = 0 then task else ''Process and refine previous agent output for: '' @ task) [0..<length agents]"

definition run_with_crewai ::
  "'w crewai_lib \<Rightarrow> string option \<Rightarrow> 'w tool_fn option \<Rightarrow> tool_desc list \<Rightarrow> string \<Rightarrow> (crew_result \<Rightarrow> bool) option
     \<Rightarrow> scoped_agent list \<Rightarrow> string \<Rightarrow> 'w \<Rightarrow> (string, crew_result) result \<times> 'w" where
  "run_with_crewai lib api_key call_tool_fn all_tools process evaluator agents task w =
     (let tasks = crewai_tasks agents task
      in case lib (crewai_agents api_key call_tool_fn all_tools process agents task) tasks (process = ''sequential'') w of
           (Inl e, w') \<Rightarrow> (Inl e, w')
         | (Inr (raw, outputs), w') \<Rightarrow>
             (let results = map (\<lambda>(a, t, out). ok_result a t (JStr (case out of Some x \<Rightarrow> x | None \<Rightarrow> raw)))
                    (zip agents (zip tasks outputs));
                  result = \<lparr>cr_final_output = JStr raw, cr_agent_results = results, cr_iterations = 1,
                            cr_passed_validation = True\<rparr>
              in (Inr (case evaluator of None \<Rightarrow> result | Some f \<Rightarrow> result\<lparr>cr_passed_validation := f result\<rparr>), w')))"

text \<open>\<open>kickoff\<close>: CrewAI when it is installed, else the graph or the native runner.\<close>

definition kickoff ::
  "'w crewai_lib option \<Rightarrow> string option \<Rightarrow> (string \<Rightarrow> 'w graph_env) \<Rightarrow> int \<Rightarrow> nat
     \<Rightarrow> (string \<Rightarrow> string \<Rightarrow> string \<Rightarrow> 'w \<Rightarrow> (string, string) result \<times> 'w)
     \<Rightarrow> 'w tool_fn option \<Rightarrow> tool_desc list \<Rightarrow> string \<Rightarrow> (crew_result \<Rightarrow> bool) option \<Rightarrow> bool
     \<Rightarrow> scoped_agent list \<Rightarrow> string \<Rightarrow> 'w \<Rightarrow> (string, crew_result) result \<times> 'w" where
  "kickoff lib api_key env mx limit agent call_tool_fn all_tools process evaluator use_langgraph agents task w =
     (case lib of
        Some l \<Rightarrow> run_with_crewai l api_key call_tool_fn all_tools process evaluator agents task w
      | None \<Rightarrow>
          if use_langgraph then run_with_langgraph env mx limit call_tool_fn all_tools evaluator agents task w
          else (case run_native agent all_tools evaluator agents task w of (res, w') \<Rightarrow> (Inr res, w')))"

subsection \<open>Scopes\<close>

definition scope_names :: "scoped_agent \<Rightarrow> tool_desc list \<Rightarrow> string set" where
  "scope_names a all_tools = td_name ` set (get_scoped_tools a all_tools)"

lemma scope_names_sub: "scope_names a all_tools \<subseteq> td_name ` set all_tools"
  by (auto simp: scope_names_def get_scoped_tools_def scope_tools_def Let_def split: if_splits)

text \<open>A property of the world that the language model and the allowed tools keep is kept by a graph.\<close>

definition env_keeps :: "'w graph_env \<Rightarrow> ('w \<Rightarrow> bool) \<Rightarrow> bool" where
  "env_keeps env P \<longleftrightarrow> (\<forall>w. P w \<longrightarrow> (\<forall>s p. P (snd (ge_planner env s p w))) \<and> (\<forall>s p. P (snd (ge_plain env s p w)))
     \<and> (\<forall>t. P (snd (ge_critic env t w))))"

definition tools_keep :: "'w tool_fn \<Rightarrow> string set \<Rightarrow> ('w \<Rightarrow> bool) \<Rightarrow> bool" where
  "tools_keep f names P \<longleftrightarrow> (\<forall>n args w. n \<in> names \<longrightarrow> P w \<longrightarrow> P (snd (f n args w)))"

lemma plan_node_keeps: "env_keeps env P \<Longrightarrow> P w \<Longrightarrow> P (snd (plan_node env st w))"
  by (auto simp: plan_node_def env_keeps_def Let_def split: prod.splits sum.splits) (metis snd_conv)+

lemma run_step_keeps:
  "(\<forall>n args w. P w \<longrightarrow> P (snd (ge_call_tool env n args w))) \<Longrightarrow> P (es_world x) \<Longrightarrow> P (es_world (snd (run_step env s x)))"
  by (auto simp: run_step_def split: prod.splits tool_outcome.splits) (metis snd_conv)+

lemma run_steps_keeps:
  "(\<forall>n args w. P w \<longrightarrow> P (snd (ge_call_tool env n args w))) \<Longrightarrow> P (es_world x) \<Longrightarrow> P (es_world (snd (run_steps env ss x)))"
proof (induction ss arbitrary: x)
  case (Cons s ss)
  have "P (es_world (snd (run_step env s x)))" using Cons.prems by (rule run_step_keeps)
  with Cons show ?case by (auto split: prod.splits) (metis snd_conv)
qed simp

lemma run_node_keeps:
  assumes "env_keeps env P" and "\<forall>n args w. P w \<longrightarrow> P (snd (ge_call_tool env n args w))" and "P w"
  shows "P (snd (run_node env mx n st w))"
proof -
  have "P (snd (execute_node env st w))"
    using run_steps_keeps [OF assms(2)] assms(3)
    by (auto simp: execute_node_def Let_def split: option.splits sum.splits list.splits prod.splits) (metis exec_state.select_convs(3) snd_conv)
  moreover have "P (snd (evaluate_node env mx st w))"
    using assms(1,3) by (auto simp: evaluate_node_def env_keeps_def Let_def split: prod.splits sum.splits option.splits) (metis snd_conv)+
  ultimately show ?thesis
    using plan_node_keeps [OF assms(1,3)] assms(3) by (auto simp: run_node_def split: node.splits prod.splits) (metis snd_conv)
qed

lemma graph_loop_keeps:
  assumes "env_keeps env P" and "\<forall>n args w. P w \<longrightarrow> P (snd (ge_call_tool env n args w))"
  shows "P w \<Longrightarrow> P (snd (graph_loop env mx limit n st w))"
proof (induction limit arbitrary: n st w)
  case (Suc limit)
  obtain a w1 where a: "run_node env mx n st w = (a, w1)" by (metis prod.exhaust)
  then have "P w1" using run_node_keeps [OF assms Suc.prems, of mx n st] by simp
  with a Suc show ?case by (auto split: sum.splits node_result.splits)
qed simp

lemma scoped_call_keeps:
  assumes "tools_keep f (scope_names a all_tools) P" and "P w"
  shows "P (snd (build_scoped_call_fn (ag_role a) (get_scoped_tools a all_tools) f n args w))"
  using assms by (auto simp: build_scoped_call_fn_def tools_keep_def scope_names_def)

lemma scoped_graph_keeps:
  assumes "\<And>m. env_keeps (env m) P" and "\<And>f. call = Some f \<Longrightarrow> tools_keep f (scope_names a all_tools) P" and "P w"
  shows "P (snd (graph_run (scoped_env env call all_tools a) mx limit task tools w))"
proof -
  have "env_keeps (scoped_env env call all_tools a) P" using assms(1) by (simp add: scoped_env_def env_keeps_def)
  moreover have "\<forall>n args w. P w \<longrightarrow> P (snd (ge_call_tool (scoped_env env call all_tools a) n args w))"
    using assms(2) scoped_call_keeps by (cases call) (auto simp: scoped_env_def)
  ultimately show ?thesis
    unfolding graph_run_def by (rule graph_loop_keeps [of "scoped_env env call all_tools a" P]) (rule assms(3))
qed

lemma langgraph_loop_keeps:
  "(\<And>m. env_keeps (env m) P) \<Longrightarrow> (\<And>a f. a \<in> set agents \<Longrightarrow> call = Some f \<Longrightarrow> tools_keep f (scope_names a all_tools) P)
     \<Longrightarrow> P w \<Longrightarrow> P (snd (langgraph_loop env mx limit call all_tools agents ctx w))"
proof (induction agents arbitrary: ctx w)
  case (Cons a as)
  show ?case
  proof (cases ctx)
    case (JStr t)
    obtain r w1 where r: "graph_run (scoped_env env call all_tools a) mx limit t (get_scoped_tools a all_tools) w = (r, w1)"
      by (metis prod.exhaust)
    have "P w1" using scoped_graph_keeps [of env P call a all_tools w mx limit t "get_scoped_tools a all_tools"] Cons.prems r by auto
    then have "P (snd (langgraph_loop env mx limit call all_tools as c w1))" for c
      using Cons.prems by (intro Cons.IH) auto
    then show ?thesis using JStr r by (auto simp: Let_def split: prod.splits sum.splits) (metis snd_conv)+
  qed (use Cons.prems in simp_all)
qed simp

text \<open>A tool object that CrewAI gets runs a tool of its agent's scope, and that only.\<close>

lemma wrapped_tools_keep:
  assumes "\<And>f. call = Some f \<Longrightarrow> tools_keep f (td_name ` set scoped) P"
    and "t \<in> set (wrap_tools_for_crewai scoped (map_option (build_scoped_call_fn role scoped) call))" and "P w"
  shows "P (snd (ct_run t args w))"
  using assms by (cases call) (auto simp: wrap_tools_for_crewai_def build_scoped_call_fn_def tools_keep_def)

lemma crewai_agents_keep:
  assumes "\<And>a f. a \<in> set agents \<Longrightarrow> call = Some f \<Longrightarrow> tools_keep f (scope_names a all_tools) P"
    and "ca \<in> set (crewai_agents key call all_tools process agents task)" and "t \<in> set (ca_tools ca)" and "P w"
  shows "P (snd (ct_run t args w))"
proof -
  obtain a where a: "a \<in> set agents" "ca_tools ca = wrap_tools_for_crewai (get_scoped_tools a all_tools)
      (map_option (build_scoped_call_fn (ag_role a) (get_scoped_tools a all_tools)) call)"
    using assms(2) by (auto simp: crewai_agents_def Let_def dest: set_zip_rightD)
  show ?thesis
    by (rule wrapped_tools_keep [where P = P, OF _ assms(3) [unfolded a(2)] assms(4)]) (use assms(1) [OF a(1)] in \<open>simp add: scope_names_def\<close>)
qed

lemma native_loop_count: "length (fst (native_loop agent all_tools as ctx w)) = length as"
  by (induction as arbitrary: ctx w) (auto split: prod.splits sum.splits, (metis fst_conv)+)

text \<open>
  \<^bold>\<open>C21.\<close> Tool scoping holds for the graph-backed crew, whatever plans the language model makes: a
  property of the world that the model calls and the tools in the agents' scopes respect survives the
  whole run, so no agent can have an effect that only tools outside every scope have. Nor has a tool
  object that the crew hands to CrewAI, with whatever arguments that library runs it. A scope
  contains only tools of the crew, and outside the orchestrator role only tools whose names match
  one of the role's patterns.
\<close>

theorem crew_respects_scopes:
  assumes "\<And>m. env_keeps (env m) P" and "\<And>a f. a \<in> set agents \<Longrightarrow> call = Some f \<Longrightarrow> tools_keep f (scope_names a all_tools) P"
    and "P w"
  shows "P (snd (kickoff None key env mx limit agent call all_tools process evaluator True agents task w))
    \<and> (\<forall>a \<in> set agents. \<forall>t \<in> set (get_scoped_tools a all_tools). t \<in> set all_tools
        \<and> (ag_role a \<noteq> ''orchestrator'' \<longrightarrow> (\<exists>pat. pat \<in> set (case ag_allowed_patterns a of Some ps \<Rightarrow> ps
              | None \<Rightarrow> (case role_tool_patterns (ag_role a) of Some ps \<Rightarrow> ps | None \<Rightarrow> []))
            \<and> str_in (py_lower pat) (py_lower (td_name t)))))
    \<and> (\<forall>ca \<in> set (crewai_agents key call all_tools process agents task). \<forall>t \<in> set (ca_tools ca). \<forall>args w.
        P w \<longrightarrow> P (snd (ct_run t args w)))"
proof -
  have "P (snd (langgraph_loop env mx limit call all_tools agents (JStr task) w))"
    by (rule langgraph_loop_keeps [OF assms(1) assms(2) assms(3)])
  then have "P (snd (run_with_langgraph env mx limit call all_tools evaluator agents task w))"
    by (auto simp: run_with_langgraph_def split: prod.splits sum.splits)
  then have "P (snd (kickoff None key env mx limit agent call all_tools process evaluator True agents task w))"
    by (simp add: kickoff_def)
  moreover have "t \<in> set all_tools \<and> (ag_role a \<noteq> ''orchestrator'' \<longrightarrow> (\<exists>pat. pat \<in> set (case ag_allowed_patterns a of Some ps \<Rightarrow> ps
              | None \<Rightarrow> (case role_tool_patterns (ag_role a) of Some ps \<Rightarrow> ps | None \<Rightarrow> []))
            \<and> str_in (py_lower pat) (py_lower (td_name t))))" if "t \<in> set (get_scoped_tools a all_tools)" for a t
    using that by (auto simp: get_scoped_tools_def scope_tools_def Let_def matches_any_def list_ex_iff split: if_splits)
  moreover have "P (snd (ct_run t args w))"
    if "ca \<in> set (crewai_agents key call all_tools process agents task)" "t \<in> set (ca_tools ca)" "P w" for ca t args w
    by (rule crewai_agents_keep [where P = P, OF assms(2) that])
  ultimately show ?thesis by blast
qed

text \<open>A world that counts the calls of the tool \<open>drop\<close>, which no analyst may use.\<close>

definition count_drops :: "nat tool_fn" where
  "count_drops n args w = (TOk JNull, if n = ''drop'' then w + 1 else w)"

definition drop_env :: "string \<Rightarrow> nat graph_env" where
  "drop_env m = \<lparr>ge_str = (\<lambda>_. ''''), ge_show_verdict = (\<lambda>_. ''''), ge_show_execution = (\<lambda>_. ''''),
     ge_planner = (\<lambda>_ _ w. (Inr \<lparr>ep_intent = ''i'', ep_steps = [[(''tool_name'', JStr ''drop'')]]\<rparr>, w)),
     ge_plain = (\<lambda>_ _ w. (Inl '''', w)), ge_critic = (\<lambda>_ w. (Inl '''', w)), ge_call_tool = (\<lambda>_ _ w. (TOk JNull, w)),
     ge_step_timeout = ''30.0''\<rparr>"

lemma crew_respects_scopes_witness:
  "snd (kickoff None None drop_env 15 25 (\<lambda>_ _ _ w. (Inl '''', w)) (Some count_drops)
     [\<lparr>td_name = ''drop'', td_description = '''', td_args = []\<rparr>, \<lparr>td_name = ''read'', td_description = '''', td_args = []\<rparr>]
     ''sequential'' None True [\<lparr>ag_role = ''analyst'', ag_allowed_patterns = None, ag_system_prompt = '''', ag_model_name = ''m''\<rparr>]
     ''task'' 0) = 0"
proof -
  let ?a = "\<lparr>ag_role = ''analyst'', ag_allowed_patterns = None, ag_system_prompt = '''', ag_model_name = ''m''\<rparr>"
  let ?tools = "[\<lparr>td_name = ''drop'', td_description = '''', td_args = []\<rparr>, \<lparr>td_name = ''read'', td_description = '''', td_args = []\<rparr>]"
  have "map td_name (get_scoped_tools ?a ?tools) = [''read'']" by code_simp
  then have "scope_names ?a ?tools = {''read''}" unfolding scope_names_def by (metis list.set(1,2) list.simps(15) set_map)
  then have "tools_keep count_drops (scope_names ?a ?tools) (\<lambda>w. w = 0)" by (simp add: tools_keep_def count_drops_def)
  moreover have "env_keeps (drop_env m) (\<lambda>w. w = 0)" for m by (simp add: env_keeps_def drop_env_def)
  ultimately show ?thesis
    using crew_respects_scopes [where P = "\<lambda>w. w = 0" and env = drop_env and agents = "[?a]" and call = "Some count_drops"
        and all_tools = ?tools and w = 0] by auto
qed

end
