(* ===== verification/MCP_Server.thy ===== *)
theory MCP_Server
  imports Pattern Json
begin

section \<open>The MCP servers (server.py, server\_http.py, server\_http\_secured.py)\<close>

text \<open>
  The tools \<open>echo\<close> and \<open>add\<close>, the JSON-RPC dispatchers of the STDIO and the HTTP server and the
  STDIO loop. A float is a real number or one of the IEEE special values; sums round to
  infinity beyond the range of a double, other rounding is not modelled. What pydantic
  accepts as a float, \<open>str\<close> and \<open>repr\<close> of values and the texts of exceptions are the fields of
  \<open>py_env\<close>.
\<close>

datatype pyfloat = Fin real | Inf | NegInf | NaN

definition double_range :: real where
  "double_range = 2 ^ 1024 - 2 ^ 970"

definition fl_add :: "pyfloat \<Rightarrow> pyfloat \<Rightarrow> pyfloat" where
  "fl_add x y = (case (x, y) of
     (NaN, _) \<Rightarrow> NaN | (_, NaN) \<Rightarrow> NaN
   | (Inf, NegInf) \<Rightarrow> NaN | (NegInf, Inf) \<Rightarrow> NaN
   | (Inf, _) \<Rightarrow> Inf | (_, Inf) \<Rightarrow> Inf | (NegInf, _) \<Rightarrow> NegInf | (_, NegInf) \<Rightarrow> NegInf
   | (Fin a, Fin b) \<Rightarrow>
       if double_range \<le> a + b then Inf else if a + b \<le> - double_range then NegInf else Fin (a + b))"

record py_env =
  pe_float :: "json \<Rightarrow> pyfloat option"
  pe_repr_float :: "real \<Rightarrow> string"
  pe_repr :: "json \<Rightarrow> string"
  pe_invalid :: "string \<Rightarrow> json \<Rightarrow> string"

text \<open>
  The exceptions of a tool call: \<open>ValueError\<close> and pydantic's \<open>ValidationError\<close>, which the
  dispatchers catch, and any other, which they do not.
\<close>

datatype tool_error = ToolValueError string | ToolOther string

subsection \<open>Tools\<close>

definition object_schema :: "(string \<times> string \<times> string) list \<Rightarrow> string list \<Rightarrow> json" where
  "object_schema props req = JObj [(''type'', JStr ''object''),
     (''properties'', JObj (map (\<lambda>(n, t, d). (n, JObj [(''type'', JStr t), (''description'', JStr d)])) props)),
     (''required'', JArr (map JStr req))]"

definition tool_entry :: "string \<Rightarrow> string \<Rightarrow> json \<Rightarrow> json" where
  "tool_entry name description schema =
     JObj [(''name'', JStr name), (''description'', JStr description), (''inputSchema'', schema)]"

definition stdio_tools :: "json list" where
  "stdio_tools = [
     tool_entry ''echo'' ''Returns the input message unchanged. Useful for testing connectivity.''
       (object_schema [(''message'', ''string'', ''Text to echo back'')] [''message'']),
     tool_entry ''add'' ''Returns the sum of two numbers.''
       (object_schema [(''a'', ''number'', ''First operand''), (''b'', ''number'', ''Second operand'')] [''a'', ''b''])]"

definition http_tools :: "json list" where
  "http_tools = stdio_tools @ [
     tool_entry ''query_knowledge_base'' ''Query the vector knowledge base for relevant prior context.''
       (JObj [(''type'', JStr ''object''),
         (''properties'', JObj [
            (''query'', JObj [(''type'', JStr ''string''), (''description'', JStr ''Natural language query'')]),
            (''top_k'', JObj [(''type'', JStr ''integer''), (''default'', JInt 5), (''description'', JStr ''Number of results'')])]),
         (''required'', JArr [JStr ''query''])]),
     tool_entry ''kv/add_phrase'' ''Register a phrase as belonging to a topic in Redis for affinity checks.''
       (object_schema [(''topic'', ''string'', ''Topic name (must be a registered KV topic)''),
          (''phrase'', ''string'', ''Phrase to register under this topic'')] [''topic'', ''phrase'']),
     tool_entry ''kv/check_affinity'' ''Check whether a phrase belongs to a given topic in Redis.''
       (object_schema [(''topic'', ''string'', ''Topic name to check against''),
          (''phrase'', ''string'', ''Phrase to test for membership'')] [''topic'', ''phrase'']),
     tool_entry ''orchestrate'' (''Execute a natural-language task using the configured orchestration engine. ''
         @ ''Modes: legacy (regex ReAct), pydantic_ai (LLM structured outputs), langgraph (state machine with retry loop).'')
       (JObj [(''type'', JStr ''object''),
         (''properties'', JObj [
            (''task'', JObj [(''type'', JStr ''string''), (''description'', JStr ''Natural language task to execute'')]),
            (''mode'', JObj [(''type'', JStr ''string''),
               (''enum'', JArr [JStr ''legacy'', JStr ''pydantic_ai'', JStr ''langgraph'']),
               (''description'', JStr ''Orchestration mode (defaults to ORCHESTRATOR_MODE env var)'')]),
            (''thread_id'', JObj [(''type'', JStr ''string''),
               (''description'', JStr ''Session ID for LangGraph checkpointing (langgraph mode only)'')])]),
         (''required'', JArr [JStr ''task''])])]"

text \<open>\<open>EchoInput.model_validate\<close> and \<open>AddInput.model_validate\<close>.\<close>

definition echo_input :: "json \<Rightarrow> string option" where
  "echo_input args = (case args of JObj _ \<Rightarrow> (case jget args ''message'' of Some (JStr m) \<Rightarrow> Some m | _ \<Rightarrow> None) | _ \<Rightarrow> None)"

definition add_input :: "py_env \<Rightarrow> json \<Rightarrow> (pyfloat \<times> pyfloat) option" where
  "add_input env args =
     (case (Option.bind (jget args ''a'') (pe_float env), Option.bind (jget args ''b'') (pe_float env)) of
        (Some a, Some b) \<Rightarrow> Some (a, b) | _ \<Rightarrow> None)"

text \<open>
  \<open>str(int(r)) if r == int(r) else str(r)\<close>: \<open>int\<close> of an infinity is an \<open>OverflowError\<close>, of a NaN a
  \<open>ValueError\<close>.
\<close>

definition number_text :: "py_env \<Rightarrow> pyfloat \<Rightarrow> (tool_error, string) result" where
  "number_text env x = (case x of
     Fin r \<Rightarrow> Inr (if r = of_int \<lfloor>r\<rfloor> then show_int \<lfloor>r\<rfloor> else pe_repr_float env r)
   | NaN \<Rightarrow> Inl (ToolValueError ''cannot convert float NaN to integer'')
   | _ \<Rightarrow> Inl (ToolOther ''OverflowError: cannot convert float infinity to integer''))"

definition text_block :: "string \<Rightarrow> json" where
  "text_block t = JObj [(''type'', JStr ''text''), (''text'', JStr t)]"

definition call_tool :: "py_env \<Rightarrow> json \<Rightarrow> json \<Rightarrow> (tool_error, json) result" where
  "call_tool env name args =
     (if name = JStr ''echo'' then
        (case echo_input args of None \<Rightarrow> Inl (ToolValueError (pe_invalid env ''EchoInput'' args)) | Some m \<Rightarrow> Inr (text_block m))
      else if name = JStr ''add'' then
        (case add_input env args of
           None \<Rightarrow> Inl (ToolValueError (pe_invalid env ''AddInput'' args))
         | Some (a, b) \<Rightarrow> (case number_text env (fl_add a b) of Inl e \<Rightarrow> Inl e | Inr t \<Rightarrow> Inr (text_block t)))
      else Inl (ToolValueError (''Unknown tool: '' @ pe_repr env name)))"

subsection \<open>The STDIO dispatcher\<close>

definition rpc_ok :: "json \<Rightarrow> json \<Rightarrow> json" where
  "rpc_ok req_id res = JObj [(''jsonrpc'', JStr ''2.0''), (''id'', req_id), (''result'', res)]"

definition rpc_error :: "json \<Rightarrow> int \<Rightarrow> string \<Rightarrow> json" where
  "rpc_error req_id n message =
     JObj [(''jsonrpc'', JStr ''2.0''), (''id'', req_id), (''error'', JObj [(''code'', JInt n), (''message'', JStr message)])]"

definition init_result :: "string \<Rightarrow> json" where
  "init_result name = JObj [(''protocolVersion'', JStr ''2024-11-05''),
     (''capabilities'', JObj [(''tools'', JObj [])]),
     (''serverInfo'', JObj [(''name'', JStr name), (''version'', JStr ''0.1.0'')])]"

definition tool_result :: "json \<Rightarrow> bool \<Rightarrow> json" where
  "tool_result content is_error = JObj [(''content'', JArr [content]), (''isError'', JBool is_error)]"

text \<open>The answer to \<open>tools/call\<close>; \<open>Inl\<close> is an exception that leaves the dispatcher.\<close>

definition call_result :: "py_env \<Rightarrow> json \<Rightarrow> (string, json) result" where
  "call_result env params =
     (let args = (case jget params ''arguments'' of Some v \<Rightarrow> if truthy v then v else JObj [] | None \<Rightarrow> JObj [])
      in case call_tool env (jget_def params ''name'' (JStr [])) args of
           Inr content \<Rightarrow> Inr (tool_result content False)
         | Inl (ToolValueError t) \<Rightarrow> Inr (tool_result (text_block t) True)
         | Inl (ToolOther e) \<Rightarrow> Inl e)"

text \<open>\<open>request.get("params") or {}\<close>: what is neither falsy nor a dict has no \<open>get\<close>.\<close>

definition stdio_dispatch :: "py_env \<Rightarrow> json \<Rightarrow> (string, json option) result" where
  "stdio_dispatch env request =
     (case request of
        JObj _ \<Rightarrow>
          (let meth = jget_def request ''method'' (JStr []);
               params = (case jget request ''params'' of Some v \<Rightarrow> if truthy v then v else JObj [] | None \<Rightarrow> JObj []);
               req_id = jget_def request ''id'' JNull
           in if meth = JStr ''initialize'' then Inr (Some (rpc_ok req_id (init_result ''mcp-sim-server'')))
              else if meth = JStr ''initialized'' then Inr None
              else if meth = JStr ''ping'' then Inr (Some (rpc_ok req_id (JObj [])))
              else if meth = JStr ''tools/list'' then Inr (Some (rpc_ok req_id (JObj [(''tools'', JArr stdio_tools)])))
              else if meth = JStr ''tools/call'' then
                (case params of
                   JObj _ \<Rightarrow> (case call_result env params of Inl e \<Rightarrow> Inl e | Inr r \<Rightarrow> Inr (Some (rpc_ok req_id r)))
                 | _ \<Rightarrow> Inl ''AttributeError'')
              else if req_id \<noteq> JNull then Inr (Some (rpc_error req_id (- 32601) (''Method not found: '' @ pe_repr env meth)))
              else Inr None)
      | _ \<Rightarrow> Inl ''AttributeError'')"

text \<open>
  The loop, on the lines of the input stream: the messages written, and the exception that ended
  the server, if one did.
\<close>

fun serve :: "py_env \<Rightarrow> string list \<Rightarrow> json list \<times> string option" where
  "serve env [] = ([], None)"
| "serve env (line # input) =
     (case loads line of
        None \<Rightarrow>
          (case serve env input of
             (out, e) \<Rightarrow> (rpc_error JNull (- 32700) (''Parse error: '' @ pe_invalid env ''JSON'' (JStr line)) # out, e))
      | Some request \<Rightarrow>
          (if request = JNull then ([], None)
           else (case stdio_dispatch env request of
             Inl e \<Rightarrow> ([], Some e)
           | Inr response \<Rightarrow>
               (case serve env input of
                  (out, e) \<Rightarrow> ((case response of None \<Rightarrow> [] | Some r \<Rightarrow> [r]) @ out, e)))))"

subsection \<open>The HTTP servers\<close>

text \<open>The id of a request is an integer, a string or absent; pydantic has checked the types.\<close>

record mcp_request =
  rq_method :: string
  rq_params :: "(string \<times> json) list option"
  rq_id :: json

record mcp_response =
  rs_id :: json
  rs_result :: "json option"
  rs_error :: "json option"

definition resp_ok :: "json \<Rightarrow> json \<Rightarrow> mcp_response" where
  "resp_ok req_id res = \<lparr>rs_id = req_id, rs_result = Some res, rs_error = None\<rparr>"

definition resp_err :: "json \<Rightarrow> int \<Rightarrow> string \<Rightarrow> mcp_response" where
  "resp_err req_id n message = \<lparr>rs_id = req_id, rs_result = None,
     rs_error = Some (JObj [(''code'', JInt n), (''message'', JStr message)])\<rparr>"

definition http_dispatch :: "py_env \<Rightarrow> mcp_request \<Rightarrow> (string, mcp_response option) result" where
  "http_dispatch env request =
     (let meth = rq_method request; params = JObj (case rq_params request of Some p \<Rightarrow> p | None \<Rightarrow> []); req_id = rq_id request
      in if meth = ''initialize'' then Inr (Some (resp_ok req_id (init_result ''mcp-http-server'')))
         else if meth = ''initialized'' then Inr None
         else if meth = ''ping'' then Inr (Some (resp_ok req_id (JObj [])))
         else if meth = ''tools/list'' then Inr (Some (resp_ok req_id (JObj [(''tools'', JArr http_tools)])))
         else if meth = ''tools/call'' then
           (case call_result env params of Inl e \<Rightarrow> Inl e | Inr r \<Rightarrow> Inr (Some (resp_ok req_id r)))
         else if req_id \<noteq> JNull then
           Inr (Some (resp_err req_id (- 32601) (''Method not found: '' @ pe_repr env (JStr meth))))
         else Inr None)"

text \<open>The endpoint: an uncaught exception becomes status 500 in FastAPI (\<open>Inl\<close>).\<close>

definition mcp_http_endpoint :: "py_env \<Rightarrow> mcp_request \<Rightarrow> (string, mcp_response) result" where
  "mcp_http_endpoint env request =
     (case http_dispatch env request of
        Inl e \<Rightarrow> Inl e
      | Inr None \<Rightarrow> Inr (resp_ok (rq_id request) (JObj []))
      | Inr (Some r) \<Rightarrow> Inr r)"

text \<open>The secured variant: the token check (\<open>verify_token\<close> of the resource server) comes first.\<close>

definition mcp_secured_endpoint ::
  "py_env \<Rightarrow> (string option \<Rightarrow> ('e, 'c) result) \<Rightarrow> string option \<Rightarrow> mcp_request \<Rightarrow> ('e + string, mcp_response) result" where
  "mcp_secured_endpoint env check authorization request =
     (case check authorization of
        Inl e \<Rightarrow> Inl (Inl e)
      | Inr claims \<Rightarrow> (case mcp_http_endpoint env request of Inl e \<Rightarrow> Inl (Inr e) | Inr r \<Rightarrow> Inr r))"

subsection \<open>What the dispatchers answer\<close>

lemma call_tool_ok_text: "call_tool env n args = Inr c \<Longrightarrow> \<exists>t. c = text_block t"
  by (auto simp: call_tool_def split: if_splits option.splits sum.splits prod.splits)

text \<open>The only exception that leaves a tool call is the overflow of a sum.\<close>

lemma call_result_raises:
  "call_result env params = Inl e \<Longrightarrow> jget_def params ''name'' (JStr []) = JStr ''add''
     \<and> (\<exists>a b. fl_add a b \<in> {Inf, NegInf})"
  by (auto simp: call_result_def call_tool_def number_text_def Let_def split: tool_error.splits sum.splits if_splits option.splits pyfloat.splits prod.splits)

text \<open>A sum beyond the range of a double ends the STDIO server: no later line is answered.\<close>

lemma overflow_ends_server:
  assumes "loads line = Some (JObj [(''id'', JInt 1), (''method'', JStr ''tools/call''),
      (''params'', JObj [(''name'', JStr ''add''), (''arguments'', JObj [(''a'', x), (''b'', x)])])])"
    and "pe_float env x = Some (Fin r)" and "double_range \<le> r + r"
  shows "serve env (line # input) = ([], Some ''OverflowError: cannot convert float infinity to integer'')"
  using assms by (simp add: stdio_dispatch_def call_result_def call_tool_def jget_def jget_def_def add_input_def
      number_text_def fl_add_def Let_def)

lemma null_ends_server: "loads line = Some JNull \<Longrightarrow> serve env (line # input) = ([], None)"
  by simp

text \<open>The wire form of an HTTP response, without the fields that are \<open>None\<close>.\<close>

definition response_json :: "mcp_response \<Rightarrow> json" where
  "response_json r = JObj ([(''jsonrpc'', JStr ''2.0''), (''id'', rs_id r)]
     @ (case rs_result r of Some v \<Rightarrow> [(''result'', v)] | None \<Rightarrow> [])
     @ (case rs_error r of Some v \<Rightarrow> [(''error'', v)] | None \<Rightarrow> []))"

definition request_json :: "mcp_request \<Rightarrow> json" where
  "request_json q = JObj ([(''jsonrpc'', JStr ''2.0''), (''method'', JStr (rq_method q))]
     @ (case rq_params q of Some p \<Rightarrow> [(''params'', JObj p)] | None \<Rightarrow> []) @ [(''id'', rq_id q)])"



end
