(* ===== verification/MCP_Client.thy ===== *)
theory MCP_Client
  imports MCP_Server
begin

section \<open>The STDIO client and its agents (orchestrator.py, react\_loop.py, structured\_agent.py)\<close>

text \<open>
  \<open>MCPOrchestrator\<close> is connected to the server of \<^theory_text>\<open>MCP_Server\<close> through its two pipes: a line
  written is processed by \<open>serve\<close>, what the server writes reaches the receive queue through
  the reader thread, and the end of the server puts the sentinel \<open>None\<close> there. The server answers
  within the time-out; an empty queue is therefore \<open>queue.Empty\<close>. On top of it stand
  \<open>DeterministicOrchestrator\<close>, the rule-based \<open>ReActAgent\<close> and \<open>StructuredAgent\<close>.
\<close>

subsection \<open>The transport\<close>

datatype rpc_failure = NotConnected | QueueEmpty | ServerClosed | BrokenPipe | RpcError string

record orchestrator =
  or_connected :: bool
  or_alive :: bool
  or_queue :: "json option list"
  or_next_id :: int

definition or_init :: orchestrator where
  "or_init = \<lparr>or_connected = False, or_alive = False, or_queue = [], or_next_id = 1\<rparr>"

definition next_rpc_id :: "orchestrator \<Rightarrow> int \<times> orchestrator" where
  "next_rpc_id o1 = (or_next_id o1, o1\<lparr>or_next_id := or_next_id o1 + 1\<rparr>)"

text \<open>The reader thread: lines that are no JSON are dropped, \<open>null\<close> is read as the sentinel.\<close>

definition read_loop :: "string list \<Rightarrow> json option list" where
  "read_loop raw = map (\<lambda>j. if j = JNull then None else Some j) (List.map_filter loads raw)"

definition or_send :: "py_env \<Rightarrow> orchestrator \<Rightarrow> json \<Rightarrow> (rpc_failure, unit) result \<times> orchestrator" where
  "or_send env o1 msg =
     (if \<not> or_connected o1 then (Inl NotConnected, o1)
      else if \<not> or_alive o1 then (Inl BrokenPipe, o1)
      else (case serve env [dumps msg] of
              (out, e) \<Rightarrow>
                (Inr (), o1\<lparr>or_alive := (e = None),
                            or_queue := or_queue o1 @ read_loop (map dumps out) @ (if e = None then [] else [None])\<rparr>)))"

definition or_recv :: "orchestrator \<Rightarrow> (rpc_failure, json) result \<times> orchestrator" where
  "or_recv o1 =
     (case or_queue o1 of
        [] \<Rightarrow> (Inl QueueEmpty, o1)
      | None # q \<Rightarrow> (Inl ServerClosed, o1\<lparr>or_queue := q\<rparr>)
      | Some j # q \<Rightarrow> (Inr j, o1\<lparr>or_queue := q\<rparr>))"

definition rpc_request :: "int \<Rightarrow> string \<Rightarrow> json \<Rightarrow> json" where
  "rpc_request rid meth params =
     JObj [(''jsonrpc'', JStr ''2.0''), (''id'', JInt rid), (''method'', JStr meth), (''params'', params)]"

definition error_text :: "(json \<Rightarrow> string) \<Rightarrow> json \<Rightarrow> string" where
  "error_text py_str err =
     ''RPC error '' @ py_str (jget_def err ''code'' JNull) @ '': '' @ py_str (jget_def err ''message'' JNull)"

definition or_rpc :: "py_env \<Rightarrow> (json \<Rightarrow> string) \<Rightarrow> orchestrator \<Rightarrow> string \<Rightarrow> json \<Rightarrow> (rpc_failure, json) result \<times> orchestrator" where
  "or_rpc env py_str o1 meth params =
     (case next_rpc_id o1 of (rid, o2) \<Rightarrow>
        (case or_send env o2 (rpc_request rid meth params) of
           (Inl e, o3) \<Rightarrow> (Inl e, o3)
         | (Inr _, o3) \<Rightarrow>
             (case or_recv o3 of
                (Inl e, o4) \<Rightarrow> (Inl e, o4)
              | (Inr response, o4) \<Rightarrow>
                  (case jget response ''error'' of
                     Some err \<Rightarrow> (Inl (RpcError (error_text py_str err)), o4)
                   | None \<Rightarrow> (Inr (jget_def response ''result'' (JObj [])), o4)))))"

definition or_connect :: "py_env \<Rightarrow> (json \<Rightarrow> string) \<Rightarrow> orchestrator \<Rightarrow> (rpc_failure, json) result \<times> orchestrator" where
  "or_connect env py_str o1 =
     (let o2 = o1\<lparr>or_connected := True, or_alive := True\<rparr>
      in case or_rpc env py_str o2 ''initialize''
           (JObj [(''protocolVersion'', JStr ''2024-11-05''), (''capabilities'', JObj []),
                  (''clientInfo'', JObj [(''name'', JStr ''mcp-orchestrator''), (''version'', JStr ''0.1.0'')])]) of
           (Inl e, o3) \<Rightarrow> (Inl e, o3)
         | (Inr res, o3) \<Rightarrow>
             (case or_send env o3 (JObj [(''jsonrpc'', JStr ''2.0''), (''method'', JStr ''initialized'')]) of
                (Inl e, o4) \<Rightarrow> (Inl e, o4)
              | (Inr _, o4) \<Rightarrow> (Inr res, o4)))"

text \<open>Closing ends the server, whose end of output the reader thread reports with its sentinel.\<close>

definition or_close :: "orchestrator \<Rightarrow> orchestrator" where
  "or_close o1 =
     (if \<not> or_connected o1 then o1
      else o1\<lparr>or_connected := False, or_alive := False,
              or_queue := or_queue o1 @ (if or_alive o1 then [None] else [])\<rparr>)"

definition or_list_tools :: "py_env \<Rightarrow> (json \<Rightarrow> string) \<Rightarrow> orchestrator \<Rightarrow> (rpc_failure, json) result \<times> orchestrator" where
  "or_list_tools env py_str o1 =
     (case or_rpc env py_str o1 ''tools/list'' (JObj []) of
        (Inl e, o2) \<Rightarrow> (Inl e, o2) | (Inr r, o2) \<Rightarrow> (Inr (jget_def r ''tools'' (JArr [])), o2))"

definition call_params :: "string \<Rightarrow> (string \<times> json) list \<Rightarrow> json" where
  "call_params name args = JObj [(''name'', JStr name), (''arguments'', JObj args)]"

definition or_call_tool ::
  "py_env \<Rightarrow> (json \<Rightarrow> string) \<Rightarrow> orchestrator \<Rightarrow> string \<Rightarrow> (string \<times> json) list \<Rightarrow> (rpc_failure, json) result \<times> orchestrator" where
  "or_call_tool env py_str o1 name args = or_rpc env py_str o1 ''tools/call'' (call_params name args)"

subsection \<open>DeterministicOrchestrator\<close>

record tool_call =
  tc_tool_name :: string
  tc_arguments :: "(string \<times> json) list"

record orchestrator_plan =
  op_intent :: string
  op_steps :: "tool_call list"

record orchestrator_result =
  ors_intent :: string
  ors_results :: "json list"
  ors_success :: bool
  ors_error :: "rpc_failure option"

definition parse_tool_call :: "json \<Rightarrow> tool_call option" where
  "parse_tool_call j =
     (case (jget j ''tool_name'', jget_def j ''arguments'' (JObj [])) of
        (Some (JStr (c # cs)), JObj args) \<Rightarrow> Some \<lparr>tc_tool_name = c # cs, tc_arguments = args\<rparr>
      | _ \<Rightarrow> None)"

fun parse_tool_calls :: "json list \<Rightarrow> tool_call list option" where
  "parse_tool_calls [] = Some []"
| "parse_tool_calls (j # js) = (case (parse_tool_call j, parse_tool_calls js) of
     (Some c, Some cs) \<Rightarrow> Some (c # cs) | _ \<Rightarrow> None)"

text \<open>The first index \<open>i\<close> whose step equals the one before it; \<open>py_eq\<close> is \<open>==\<close> on dicts.\<close>

fun adjacent_duplicate :: "(json \<Rightarrow> json \<Rightarrow> bool) \<Rightarrow> nat \<Rightarrow> tool_call list \<Rightarrow> nat option" where
  "adjacent_duplicate py_eq i (a # b # rest) =
     (if tc_tool_name b = tc_tool_name a \<and> py_eq (JObj (tc_arguments b)) (JObj (tc_arguments a)) then Some i
      else adjacent_duplicate py_eq (i + 1) (b # rest))"
| "adjacent_duplicate py_eq i _ = None"

definition or_plan :: "(json \<Rightarrow> json \<Rightarrow> bool) \<Rightarrow> (string \<Rightarrow> string) \<Rightarrow> json \<Rightarrow> (string, orchestrator_plan) result" where
  "or_plan py_eq py_repr raw =
     (case (jget raw ''intent'', jget raw ''steps'', jget_def raw ''metadata'' (JObj [])) of
        (Some (JStr (c # cs)), Some (JArr (s # ss)), JObj _) \<Rightarrow>
          (case parse_tool_calls (s # ss) of
             None \<Rightarrow> Inl ''ValidationError''
           | Some steps \<Rightarrow>
               (case adjacent_duplicate py_eq 1 steps of
                  Some i \<Rightarrow> Inl (''Duplicate adjacent step at index '' @ show_nat i @ '': '' @ py_repr (tc_tool_name (steps ! i)))
                | None \<Rightarrow> Inr \<lparr>op_intent = c # cs, op_steps = steps\<rparr>))
      | _ \<Rightarrow> Inl ''ValidationError'')"

fun execute_steps ::
  "py_env \<Rightarrow> (json \<Rightarrow> string) \<Rightarrow> orchestrator \<Rightarrow> tool_call list \<Rightarrow> json list \<times> rpc_failure option \<times> orchestrator" where
  "execute_steps env py_str o1 [] = ([], None, o1)"
| "execute_steps env py_str o1 (s # ss) =
     (case or_call_tool env py_str o1 (tc_tool_name s) (tc_arguments s) of
        (Inl e, o2) \<Rightarrow> ([], Some e, o2)
      | (Inr r, o2) \<Rightarrow> (case execute_steps env py_str o2 ss of (rs, e, o3) \<Rightarrow> (r # rs, e, o3)))"

definition or_execute :: "py_env \<Rightarrow> (json \<Rightarrow> string) \<Rightarrow> orchestrator \<Rightarrow> orchestrator_plan \<Rightarrow> orchestrator_result \<times> orchestrator" where
  "or_execute env py_str o1 plan =
     (case execute_steps env py_str o1 (op_steps plan) of
        (rs, e, o2) \<Rightarrow> (\<lparr>ors_intent = op_intent plan, ors_results = rs, ors_success = (e = None), ors_error = e\<rparr>, o2))"

subsection \<open>ReActAgent\<close>

record react_step =
  st_type :: string
  st_content :: string
  st_tool_name :: "string option"
  st_tool_args :: "(string \<times> json) list option"

record react_result =
  rr_task :: string
  rr_steps :: "react_step list"
  rr_answer :: string
  rr_success :: bool

definition quoted_re :: regex where
  "quoted_re = seqs [Cls (\<lambda>c. c = CHR 0x22), Plus (\<lambda>c. c \<noteq> CHR 0x22), Cls (\<lambda>c. c = CHR 0x22)]"

definition digit_re :: regex where
  "digit_re = Cls is_digit"

definition add_word_re :: regex where
  "add_word_re = Alt (seqs [WordB, Lit ''add'', WordB]) (Alt (seqs [WordB, Lit ''sum'', WordB])
     (Alt (seqs [WordB, Lit ''plus'', WordB]) (Cls (\<lambda>c. c = CHR ''+''))))"

definition number_re :: regex where
  "number_re = seqs [Rep 0 (Some 1) True (\<lambda>c. c \<in> set ''-+''), Plus is_digit, Rep 0 (Some 1) True (\<lambda>c. c = CHR ''.''), Star is_digit]"

definition select_tool :: "string \<Rightarrow> string list \<Rightarrow> string option" where
  "select_tool task tool_names =
     (let lower = py_lower task
      in if (str_in ''echo'' lower \<or> re_found quoted_re task) \<and> ''echo'' \<in> set tool_names then Some ''echo''
         else if re_found digit_re task \<and> re_found add_word_re lower \<and> ''add'' \<in> set tool_names then Some ''add''
         else None)"

text \<open>\<open>float(text)\<close> of a number the pattern found is \<open>to_float\<close>.\<close>

definition extract_args :: "(string \<Rightarrow> json) \<Rightarrow> string \<Rightarrow> string \<Rightarrow> (string, (string \<times> json) list) result" where
  "extract_args to_float task tool_name =
     (if tool_name = ''echo'' then
        (case re_search quoted_re task of
           Some m \<Rightarrow> Inr [(''message'', JStr (butlast (tl m)))]
         | None \<Rightarrow> (case py_split task of [] \<Rightarrow> Inl ''IndexError'' | ws \<Rightarrow> Inr [(''message'', JStr (last ws))]))
      else if tool_name = ''add'' then
        (let nums = re_findall number_re task
         in Inr [(''a'', case nums of x # _ \<Rightarrow> to_float x | [] \<Rightarrow> JFloat ''0.0''),
                 (''b'', case nums of _ # y # _ \<Rightarrow> to_float y | _ \<Rightarrow> JFloat ''0.0'')])
      else Inr [])"

text \<open>A text that is no string is refused by the pydantic models that take it (\<open>None\<close>).\<close>

definition observation_text :: "(json \<Rightarrow> string) \<Rightarrow> json \<Rightarrow> string option" where
  "observation_text py_str r =
     (case jget r ''content'' of
        Some (JArr (x # _)) \<Rightarrow>
          (case jget x ''text'' of Some (JStr t) \<Rightarrow> Some t | Some _ \<Rightarrow> None | None \<Rightarrow> Some (py_str r))
      | _ \<Rightarrow> Some (py_str r))"

fun tool_names_of :: "json list \<Rightarrow> string list option" where
  "tool_names_of [] = Some []"
| "tool_names_of (t # ts) = (case (jget t ''name'', tool_names_of ts) of
     (Some (JStr n), Some ns) \<Rightarrow> Some (n # ns) | _ \<Rightarrow> None)"

definition thought :: "string \<Rightarrow> react_step" where
  "thought t = \<lparr>st_type = ''thought'', st_content = t, st_tool_name = None, st_tool_args = None\<rparr>"

text \<open>\<open>run\<close>: perception, reasoning, action, observation, synthesis.\<close>

definition react_run ::
  "py_env \<Rightarrow> (json \<Rightarrow> string) \<Rightarrow> (string \<Rightarrow> json) \<Rightarrow> orchestrator \<Rightarrow> string \<Rightarrow> (string, react_result) result \<times> orchestrator" where
  "react_run env py_str to_float o1 task =
     (case or_list_tools env py_str o1 of
        (Inl _, o2) \<Rightarrow> (Inl ''RuntimeError'', o2)
      | (Inr tools, o2) \<Rightarrow>
          (case tool_names_of (case tools of JArr ts \<Rightarrow> ts | _ \<Rightarrow> []) of
             None \<Rightarrow> (Inl ''KeyError'', o2)
           | Some names \<Rightarrow>
               (case select_tool task names of
                  None \<Rightarrow>
                    (Inr \<lparr>rr_task = task, rr_steps = [thought ''No suitable tool found''],
                       rr_answer = ''No suitable tool found'', rr_success = False\<rparr>, o2)
                | Some selected \<Rightarrow>
                    (case extract_args to_float task selected of
                       Inl e \<Rightarrow> (Inl e, o2)
                     | Inr args \<Rightarrow>
                         (case or_call_tool env py_str o2 selected args of
                            (Inl _, o3) \<Rightarrow> (Inl ''RuntimeError'', o3)
                          | (Inr res, o3) \<Rightarrow>
                              (case observation_text py_str res of
                                 None \<Rightarrow> (Inl ''ValidationError'', o3)
                               | Some obs \<Rightarrow>
                                   (Inr \<lparr>rr_task = task,
                                      rr_steps = [thought (''Selected tool: '' @ selected),
                                        \<lparr>st_type = ''action'', st_content = ''call '' @ selected,
                                          st_tool_name = Some selected, st_tool_args = Some args\<rparr>,
                                        \<lparr>st_type = ''observation'', st_content = obs, st_tool_name = None, st_tool_args = None\<rparr>],
                                      rr_answer = obs,
                                      rr_success = (\<not> truthy (jget_def res ''isError'' (JBool False)))\<rparr>, o3)))))))"

subsection \<open>StructuredAgent\<close>

record tool_selection =
  ts_tool_name :: string
  ts_arguments :: "(string \<times> string) list"
  ts_reasoning :: string

record agent_response =
  rp_task :: string
  rp_tool_used :: string
  rp_tool_args :: "(string \<times> json) list"
  rp_result :: string
  rp_success :: bool
  rp_reasoning :: string

text \<open>
  \<open>_strip_additional_properties\<close>, on a schema whose \<open>properties\<close> and \<open>$defs\<close> are objects: sub-schemas are found one level deep under \<open>properties\<close> and
  \<open>$defs\<close>.
\<close>

fun strip_additional :: "json \<Rightarrow> json" and strip_field :: "string \<Rightarrow> json \<Rightarrow> json" where
  "strip_additional (JObj kvs) = JObj (map (\<lambda>(k, v). (k, strip_field k v)) (filter (\<lambda>(k, v). k \<noteq> ''additionalProperties'') kvs))"
| "strip_additional j = j"
| "strip_field k (JObj kvs) =
     (if k = ''properties'' \<or> k = ''$defs'' then JObj (map (\<lambda>(n, v). (n, strip_additional v)) kvs) else JObj kvs)"
| "strip_field k j = j"

text \<open>\<open>int\<close>, else \<open>float\<close> (an argument: \<open>None\<close> when it raises), else the text.\<close>

fun arguments_as_dict :: "(string \<Rightarrow> json option) \<Rightarrow> (string \<times> string) list \<Rightarrow> (string \<times> json) list \<Rightarrow> (string \<times> json) list" where
  "arguments_as_dict py_float [] acc = acc"
| "arguments_as_dict py_float ((k, v) # rest) acc =
     arguments_as_dict py_float rest (AList.update k
       (case parse_int v of Some n \<Rightarrow> JInt n
        | None \<Rightarrow> (case py_float v of Some f \<Rightarrow> f | None \<Rightarrow> JStr v)) acc)"

text \<open>
  The language model sees the system prompt and answers with a validated selection; the printed
  set of names, whose order Python leaves open, is \<open>show_set\<close>. A result is a JSON object.
\<close>

definition descriptor_line :: "(json \<Rightarrow> string) \<Rightarrow> json \<Rightarrow> string option" where
  "descriptor_line py_str t = (case jget t ''name'' of
     None \<Rightarrow> None
   | Some n \<Rightarrow> Some (''- '' @ py_str n @ '': '' @ py_str (jget_def t ''description'' (JStr ''no description''))
       @ '' (schema: '' @ py_str (jget_def t ''inputSchema'' (JObj [])) @ '')''))"

definition selection_prompt :: "string list \<Rightarrow> string" where
  "selection_prompt ls =
     ''You are a tool-selection agent. Given a user task and available tools, ''
     @ ''select the single best tool and extract ALL required arguments from the task.'' @ [CHR 0x0A, CHR 0x0A]
     @ ''Available tools:'' @ [CHR 0x0A] @ py_join [CHR 0x0A] ls @ [CHR 0x0A, CHR 0x0A]
     @ ''IMPORTANT: Populate the '' @ [CHR 0x27] @ ''arguments'' @ [CHR 0x27] @ '' field with the exact key-value pairs ''
     @ ''matching the tool'' @ [CHR 0x27] @ ''s inputSchema. Do not leave arguments empty if the tool requires them.''"

fun descriptor_lines :: "(json \<Rightarrow> string) \<Rightarrow> json list \<Rightarrow> string list option" where
  "descriptor_lines py_str [] = Some []"
| "descriptor_lines py_str (t # ts) = (case (descriptor_line py_str t, descriptor_lines py_str ts) of
     (Some l, Some ls) \<Rightarrow> Some (l # ls) | _ \<Rightarrow> None)"

record selector =
  sl_str :: "json \<Rightarrow> string"
  sl_repr :: "string \<Rightarrow> string"
  sl_show_set :: "json list \<Rightarrow> string"
  sl_float :: "string \<Rightarrow> json option"

definition structured_run ::
  "selector \<Rightarrow> (string \<Rightarrow> string \<Rightarrow> 'w \<Rightarrow> (string, tool_selection) result \<times> 'w)
     \<Rightarrow> (string \<Rightarrow> (string \<times> json) list \<Rightarrow> 'w \<Rightarrow> (string, json) result \<times> 'w) \<Rightarrow> string \<Rightarrow> json list \<Rightarrow> 'w
     \<Rightarrow> (string, agent_response) result \<times> 'w" where
  "structured_run sl llm call task tools w =
     (case descriptor_lines (sl_str sl) tools of
        None \<Rightarrow> (Inl ''KeyError'', w)
      | Some ls \<Rightarrow>
         (case llm (selection_prompt ls) task w of
            (Inl exc, w1) \<Rightarrow>
              (Inr \<lparr>rp_task = task, rp_tool_used = [], rp_tool_args = [], rp_result = ''Tool selection failed: '' @ exc,
                 rp_success = False, rp_reasoning = ''LLM structured output failed''\<rparr>, w1)
          | (Inr sel, w1) \<Rightarrow>
              (let args = arguments_as_dict (sl_float sl) (ts_arguments sel) [];
                   names = List.map_filter (\<lambda>t. jget t ''name'') tools;
                   answer = (\<lambda>r ok. \<lparr>rp_task = task, rp_tool_used = ts_tool_name sel, rp_tool_args = args, rp_result = r,
                                    rp_success = ok, rp_reasoning = ts_reasoning sel\<rparr>)
               in if JStr (ts_tool_name sel) \<notin> set names then
                    (Inr (answer (''Tool '' @ sl_repr sl (ts_tool_name sel) @ '' not in available tools: '' @ sl_show_set sl names) False), w1)
                  else (case call (ts_tool_name sel) args w1 of
                          (Inl exc, w2) \<Rightarrow> (Inr (answer (''Execution error: '' @ exc) False), w2)
                        | (Inr res, w2) \<Rightarrow>
                            (case observation_text (sl_str sl) res of
                               None \<Rightarrow> (Inl ''ValidationError'', w2)
                             | Some t \<Rightarrow> (Inr (answer t (\<not> truthy (jget_def res ''isError'' (JBool False)))), w2))))))"

subsection \<open>Requests and responses stay in step\<close>

text \<open>
  The client never compares the id of a response with that of its request. It need not: the
  queue is empty between calls and the server answers every request once, in order.
\<close>

definition in_sync :: "orchestrator \<Rightarrow> bool" where
  "in_sync o1 \<longleftrightarrow> or_connected o1 \<and> or_alive o1 \<and> or_queue o1 = []"

lemma rpc_ok_json: "json_ok res \<Longrightarrow> json_ok (rpc_ok (JInt rid) res)"
  by (simp add: rpc_ok_def)

lemma call_result_json:
  "call_result env params = Inr r \<Longrightarrow> json_ok r"
  by (auto simp: call_result_def tool_result_def text_block_def Let_def split: sum.splits tool_error.splits
      dest!: call_tool_ok_text)

lemma or_send_answer:
  assumes "in_sync o1" and "json_ok msg" and "msg \<noteq> JNull"
    and "stdio_dispatch env msg = Inr resp" and "\<forall>r. resp = Some r \<longrightarrow> json_ok r \<and> r \<noteq> JNull"
  shows "or_send env o1 msg = (Inr (), o1\<lparr>or_queue := (case resp of None \<Rightarrow> [] | Some r \<Rightarrow> [Some r])\<rparr>)"
proof -
  have "serve env [dumps msg] = ((case resp of None \<Rightarrow> [] | Some r \<Rightarrow> [r]), None)"
    using assms(2-4) by (simp add: loads_dumps)
  then show ?thesis using assms(1,5)
    by (cases resp) (simp_all add: or_send_def in_sync_def read_loop_def map_filter_simps loads_dumps)
qed

lemma or_rpc_answer:
  assumes "in_sync o1" and "json_ok params" and "json_ok res"
    and "stdio_dispatch env (rpc_request (or_next_id o1) meth params) = Inr (Some (rpc_ok (JInt (or_next_id o1)) res))"
  shows "or_rpc env py_str o1 meth params = (Inr res, o1\<lparr>or_next_id := or_next_id o1 + 1\<rparr>)"
proof -
  let ?o2 = "o1\<lparr>or_next_id := or_next_id o1 + 1\<rparr>" and ?m = "rpc_request (or_next_id o1) meth params"
  have "in_sync ?o2" "json_ok ?m" "?m \<noteq> JNull" using assms(1,2) by (simp_all add: in_sync_def rpc_request_def)
  from or_send_answer [OF this assms(4)] assms(3)
  have "or_send env ?o2 ?m = (Inr (), ?o2\<lparr>or_queue := [Some (rpc_ok (JInt (or_next_id o1)) res)]\<rparr>)"
    by (simp add: rpc_ok_json rpc_ok_def)
  then show ?thesis
    using assms(1) by (simp add: or_rpc_def next_rpc_id_def or_recv_def rpc_ok_def jget_def jget_def_def in_sync_def)
qed

lemma dispatch_request:
  "stdio_dispatch env (rpc_request rid ''tools/call'' (call_params n args)) =
     (case call_result env (call_params n args) of Inl e \<Rightarrow> Inl e | Inr r \<Rightarrow> Inr (Some (rpc_ok (JInt rid) r)))"
  by (simp add: stdio_dispatch_def rpc_request_def jget_def jget_def_def call_params_def Let_def split: sum.splits)

lemma or_call_answer:
  assumes "in_sync o1" and "json_ok (JObj args)" and "call_result env (call_params n args) = Inr r"
  shows "or_call_tool env py_str o1 n args = (Inr r, o1\<lparr>or_next_id := or_next_id o1 + 1\<rparr>)"
  unfolding or_call_tool_def
proof (rule or_rpc_answer [OF assms(1) _ call_result_json [OF assms(3)]])
  show "json_ok (call_params n args)" using assms(2) by (simp add: call_params_def)
qed (simp add: dispatch_request assms(3))

lemma execute_steps_answers:
  assumes "in_sync o1"
    and "\<forall>s \<in> set steps. json_ok (JObj (tc_arguments s)) \<and> call_result env (call_params (tc_tool_name s) (tc_arguments s)) = Inr (ans s)"
  shows "execute_steps env py_str o1 steps = (map ans steps, None, o1\<lparr>or_next_id := or_next_id o1 + int (length steps)\<rparr>)"
  using assms
proof (induction steps arbitrary: o1)
  case (Cons s ss)
  let ?o2 = "o1\<lparr>or_next_id := or_next_id o1 + 1\<rparr>"
  have "or_call_tool env py_str o1 (tc_tool_name s) (tc_arguments s) = (Inr (ans s), ?o2)"
    using Cons.prems by (intro or_call_answer) auto
  moreover have "in_sync ?o2" using Cons.prems(1) by (simp add: in_sync_def)
  ultimately show ?case using Cons.IH [of ?o2] Cons.prems(2) by simp
qed simp

lemma or_connect_sync:
  "or_connect env py_str or_init = (Inr (init_result ''mcp-sim-server''),
     \<lparr>or_connected = True, or_alive = True, or_queue = [], or_next_id = 2\<rparr>)"
proof -
  let ?o = "or_init\<lparr>or_connected := True, or_alive := True\<rparr>"
  let ?p = "JObj [(''protocolVersion'', JStr ''2024-11-05''), (''capabilities'', JObj []),
                  (''clientInfo'', JObj [(''name'', JStr ''mcp-orchestrator''), (''version'', JStr ''0.1.0'')])]"
  have s: "in_sync ?o" by (simp add: in_sync_def or_init_def)
  have "or_rpc env py_str ?o ''initialize'' ?p = (Inr (init_result ''mcp-sim-server''), ?o\<lparr>or_next_id := or_next_id ?o + 1\<rparr>)"
    by (intro or_rpc_answer [OF s]) (simp_all add: init_result_def stdio_dispatch_def rpc_request_def jget_def jget_def_def or_init_def)
  moreover have "or_send env (?o\<lparr>or_next_id := or_next_id ?o + 1\<rparr>) (JObj [(''jsonrpc'', JStr ''2.0''), (''method'', JStr ''initialized'')])
      = (Inr (), ?o\<lparr>or_next_id := or_next_id ?o + 1, or_queue := []\<rparr>)"
    by (subst or_send_answer [where resp = None])
      (simp_all add: in_sync_def or_init_def stdio_dispatch_def jget_def jget_def_def)
  ultimately show ?thesis by (simp add: or_connect_def or_init_def)
qed



text \<open>
  After \<open>close\<close> the sentinel of the first server is still queued: connecting the same client
  again fails, however well the new server answers.
\<close>

lemma reconnect_fails:
  assumes "in_sync o1" shows "fst (or_connect env py_str (or_close o1)) = Inl ServerClosed"
proof -
  let ?p = "JObj [(''protocolVersion'', JStr ''2024-11-05''), (''capabilities'', JObj []),
                  (''clientInfo'', JObj [(''name'', JStr ''mcp-orchestrator''), (''version'', JStr ''0.1.0'')])]"
  let ?m = "rpc_request (or_next_id o1) ''initialize'' ?p"
  have m: "loads (dumps ?m) = Some ?m" by (rule loads_dumps) (simp add: rpc_request_def)
  have d: "stdio_dispatch env ?m = Inr (Some (rpc_ok (JInt (or_next_id o1)) (init_result ''mcp-sim-server'')))"
    by (simp add: stdio_dispatch_def rpc_request_def jget_def jget_def_def)
  have n: "?m \<noteq> JNull" by (simp add: rpc_request_def)
  show ?thesis using assms m d n
    by (simp add: or_connect_def or_close_def in_sync_def or_rpc_def next_rpc_id_def or_send_def or_recv_def del: dumps.simps)
qed

end
