(* ===== verification/Agents.thy ===== *)
theory Agents
  imports KV_Store Chunker LLM_Router PII_Gate Economics
begin

section \<open>The agents (agents/analyst.py, writer.py, pipeline\_orchestrator.py)\<close>

text \<open>
  The deterministic Analyst, the Writer, the pipeline that hands the analysis over through Redis,
  and the document analysis that reads a PDF, prunes it and asks a language model. Floats are
  reals; \<open>f"{x:.2f}"\<close>, the value of a JSON float, its text and what pydantic takes for a float
  are the fields of \<open>num_env\<close>. Log lines of \<open>analyze_document\<close>, spans and the agent's Prometheus
  counters are not modelled.
\<close>

record num_env =
  ne_value :: "string \<Rightarrow> real"
  ne_text :: "real \<Rightarrow> string"
  ne_fixed :: "nat \<Rightarrow> real \<Rightarrow> string"
  ne_pydantic :: "json \<Rightarrow> real option"

definition quoted :: "string \<Rightarrow> string" where
  "quoted s = [CHR 0x27] @ s @ [CHR 0x27]"

subsection \<open>AnalystAgent.run\<close>

definition number_of :: "num_env \<Rightarrow> json \<Rightarrow> real option" where
  "number_of ne v = (case v of
     JInt n \<Rightarrow> Some (of_int n) | JFloat l \<Rightarrow> Some (ne_value ne l) | JBool b \<Rightarrow> Some (if b then 1 else 0) | _ \<Rightarrow> None)"

definition metrics_of :: "num_env \<Rightarrow> (string \<times> json) list \<Rightarrow> (string, real) dict" where
  "metrics_of ne payload = List.map_filter (\<lambda>(k, v). map_option (Pair k) (number_of ne v)) payload"

text \<open>\<open>max\<close> and \<open>min\<close> return the first of equal elements.\<close>

definition first_best :: "(real \<Rightarrow> real \<Rightarrow> bool) \<Rightarrow> string \<times> real \<Rightarrow> (string \<times> real) list \<Rightarrow> string \<times> real" where
  "first_best better x xs = foldl (\<lambda>b y. if better (snd y) (snd b) then y else b) x xs"

definition trends_of :: "num_env \<Rightarrow> (string, real) dict \<Rightarrow> string list" where
  "trends_of ne metrics =
     (case metrics of
        [] \<Rightarrow> [''No numeric metrics found in payload'']
      | m # ents \<Rightarrow>
          (let hi = first_best (>) m ents; lo = first_best (<) m ents
           in [quoted (fst hi) @ '' shows the highest value at '' @ ne_fixed ne 2 (snd hi)]
              @ (if fst hi \<noteq> fst lo then [quoted (fst lo) @ '' shows the lowest value at '' @ ne_fixed ne 2 (snd lo)] else [])))"

definition analyst_run :: "num_env \<Rightarrow> agent_task \<Rightarrow> mcp_context \<Rightarrow> analysis_result \<times> mcp_context" where
  "analyst_run ne task ctx =
     (let c1 = ctx_report_progress (ctx_log ctx (''analyst: starting task '' @ quoted (at_name task))) (1 / 10) ''extracting metrics from payload'';
          metrics = metrics_of ne (at_payload task);
          c2 = ctx_report_progress c1 (6 / 10) ''generating trend observations'';
          trends = trends_of ne metrics;
          summary = ''Analyzed '' @ show_nat (length metrics) @ '' metric(s) from task '' @ quoted (at_name task)
            @ ''. Key finding: '' @ hd trends @ ''.'';
          c3 = ctx_log (ctx_report_progress c2 1 ''analysis complete'')
            (''analyst: produced '' @ show_nat (length metrics) @ '' metrics, '' @ show_nat (length trends) @ '' trends'')
      in (\<lparr>ar_session_key = at_id task, ar_metrics = metrics, ar_trends = trends, ar_summary = summary\<rparr>, c3))"

subsection \<open>WriterAgent\<close>

definition metric_lines :: "num_env \<Rightarrow> (string, real) dict \<Rightarrow> string list" where
  "metric_lines ne metrics = map (\<lambda>(name, v). ''| '' @ name @ '' | '' @ ne_fixed ne 4 v @ '' |'') (sort_key fst metrics)"

definition report_lines :: "num_env \<Rightarrow> analysis_result \<Rightarrow> string list" where
  "report_lines ne a =
     [''# Analysis Report'', '''', ''## Executive Summary'', ar_summary a, '''']
     @ (if ar_metrics a = [] then []
        else [''## Metrics'', ''| Metric | Value |'', ''|--------|-------|''] @ metric_lines ne (ar_metrics a) @ [''''])
     @ (if ar_trends a = [] then []
        else ''## Trend Observations'' # map (\<lambda>t. ''- '' @ t) (ar_trends a) @ [''''])"

definition report_trace :: "analysis_result \<Rightarrow> string list" where
  "report_trace a =
     [''wrote executive summary'']
     @ (if ar_metrics a = [] then [] else [''wrote metrics table ('' @ show_nat (length (ar_metrics a)) @ '' entries)''])
     @ (if ar_trends a = [] then [] else [''wrote '' @ show_nat (length (ar_trends a)) @ '' trend observations''])"

text \<open>\<open>fresh\<close> and \<open>now\<close> are the id and the time stamp of the message, if one is published.\<close>

definition writer_run ::
  "num_env \<Rightarrow> string \<Rightarrow> string \<Rightarrow> message_bus option \<Rightarrow> string \<Rightarrow> analysis_result \<Rightarrow> mcp_context
     \<Rightarrow> report_result \<times> message_bus option \<times> mcp_context" where
  "writer_run ne fresh now bus owner_id a ctx =
     (let c1 = ctx_log ctx (''writer: generating report for session '' @ quoted (ar_session_key a));
          report_text = py_join [newline] (report_lines ne a);
          c2 = ctx_log c1 (''writer: report complete ('' @ show_nat (length report_text) @ '' chars)'');
          msg = \<lparr>am_id = fresh, am_topic = ''agent.output.final'', am_sender = ''writer-agent'',
            am_content = [(''text'', JStr report_text), (''owner_id'', JStr owner_id), (''session_key'', JStr (ar_session_key a))],
            am_timestamp = now\<rparr>
      in (\<lparr>rr_session_key = ar_session_key a, rr_report_text = report_text, rr_agent_trace = report_trace a\<rparr>,
          map_option (\<lambda>b. bus_publish b ''agent.output.final'' msg) bus, c2))"

subsection \<open>MultiAgentOrchestrator\<close>

definition analysis_dump :: "num_env \<Rightarrow> analysis_result \<Rightarrow> (string \<times> json) list" where
  "analysis_dump ne a = [(''session_key'', JStr (ar_session_key a)),
     (''metrics'', JObj (map (\<lambda>(k, v). (k, JFloat (ne_text ne v))) (ar_metrics a))),
     (''trends'', JArr (map JStr (ar_trends a))), (''summary'', JStr (ar_summary a))]"

fun parse_metrics :: "num_env \<Rightarrow> (string \<times> json) list \<Rightarrow> (string, real) dict option" where
  "parse_metrics ne [] = Some []"
| "parse_metrics ne ((k, v) # rest) = (case (ne_pydantic ne v, parse_metrics ne rest) of
     (Some r, Some kvs) \<Rightarrow> Some ((k, r) # kvs) | _ \<Rightarrow> None)"

fun parse_strings :: "json list \<Rightarrow> string list option" where
  "parse_strings [] = Some []"
| "parse_strings (j # js) = (case (j, parse_strings js) of (JStr s, Some ss) \<Rightarrow> Some (s # ss) | _ \<Rightarrow> None)"

text \<open>\<open>AnalysisResult(**raw)\<close>.\<close>

definition parse_analysis :: "num_env \<Rightarrow> json \<Rightarrow> analysis_result option" where
  "parse_analysis ne raw =
     (case (jget raw ''session_key'', jget_def raw ''metrics'' (JObj []), jget_def raw ''trends'' (JArr []),
            jget_def raw ''summary'' (JStr [])) of
        (Some (JStr key), JObj kvs, JArr ts, JStr summary) \<Rightarrow>
          (case (parse_metrics ne kvs, parse_strings ts) of
             (Some metrics, Some trends) \<Rightarrow>
               Some \<lparr>ar_session_key = key, ar_metrics = metrics, ar_trends = trends, ar_summary = summary\<rparr>
           | _ \<Rightarrow> None)
      | _ \<Rightarrow> None)"

datatype pipeline_error = HandoffStore kv_error | HandoffMissing string | HandoffInvalid

definition run_pipeline ::
  "num_env \<Rightarrow> 'r redis_client \<Rightarrow> 'r \<Rightarrow> agent_task \<Rightarrow> mcp_context
     \<Rightarrow> (pipeline_error, report_result) result \<times> 'r \<times> mcp_context" where
  "run_pipeline ne c s task ctx =
     (let c1 = ctx_log (ctx_log ctx (''orchestrator: starting pipeline for task '' @ quoted (at_name task)))
                 ''orchestrator: dispatching to AnalystAgent''
      in case analyst_run ne task c1 of
           (analysis, c2) \<Rightarrow>
             (let c3 = ctx_log c2 (''orchestrator: persisting handoff to Redis (key='' @ ar_session_key analysis @ '')'')
              in case sm_set c s (ar_session_key analysis) (analysis_dump ne analysis) of
                   (Inl e, s1) \<Rightarrow> (Inl (HandoffStore e), s1, c3)
                 | (Inr _, s1) \<Rightarrow>
                     (let c4 = ctx_log c3 ''orchestrator: reading handoff from Redis''
                      in case sm_get c s1 (ar_session_key analysis) of
                           Inl e \<Rightarrow> (Inl (HandoffStore e), s1, c4)
                         | Inr None \<Rightarrow> (Inl (HandoffMissing (ar_session_key analysis)), s1, c4)
                         | Inr (Some raw) \<Rightarrow>
                             (case parse_analysis ne raw of
                                None \<Rightarrow> (Inl HandoffInvalid, s1, c4)
                              | Some restored \<Rightarrow>
                                  (case writer_run ne [] [] None [] restored (ctx_log c4 ''orchestrator: dispatching to WriterAgent'') of
                                     (report, _, c5) \<Rightarrow> (Inr report, s1, ctx_log c5 ''orchestrator: pipeline complete'')))))) "

subsection \<open>AnalystAgent.analyze\_document\<close>

record document_task =
  dt_pdf_path :: string
  dt_query :: string
  dt_max_pages :: int
  dt_provider :: "string option"

record document_result =
  dr_summary :: json
  dr_provider :: json
  dr_input_tokens :: json
  dr_output_tokens :: json
  dr_cost_usd :: "rat option"
  dr_pages_read :: json
  dr_total_pages :: json
  dr_chunks_before :: int
  dr_chunks_after :: int

datatype agent_error = AePdf pdf_error | AeStore store_error | AePii string | AeLlm llm_error

record 'h analyst_env =
  an_pdf :: pdf_env
  an_stub :: "string \<Rightarrow> vector"
  an_threshold :: real
  an_allowed :: string
  an_environ :: "string \<Rightarrow> string option"
  an_str :: "(string \<times> json) list \<Rightarrow> string"
  an_http :: "'h http"
  an_boto :: "'h bedrock"

definition snippet_texts :: "json \<Rightarrow> string list" where
  "snippet_texts extraction =
     (case jget extraction ''snippets'' of
        Some (JArr xs) \<Rightarrow> List.map_filter (\<lambda>s. case jget s ''text'' of Some (JStr t) \<Rightarrow> Some t | _ \<Rightarrow> None) xs
      | _ \<Rightarrow> [])"

definition analysis_prompt :: "string \<Rightarrow> string \<Rightarrow> string" where
  "analysis_prompt query clean =
     ''You are a financial analyst. Based on the following document excerpts, ''
     @ ''answer this query: '' @ query @ [newline, newline]
     @ ''Document excerpts:'' @ [newline] @ clean @ [newline, newline]
     @ ''Provide a structured response with:'' @ [newline]
     @ ''1. Key KPIs found (with values if present)'' @ [newline]
     @ ''2. Risk areas identified'' @ [newline]
     @ ''3. Brief executive summary''"

text \<open>Extract, prune (all chunks when nothing survives), scrub.\<close>

definition document_context :: "'h analyst_env \<Rightarrow> string \<Rightarrow> string list \<Rightarrow> (agent_error, string list \<times> string) result" where
  "document_context env query raw_chunks =
     (case prune (an_threshold env) (an_stub env) query raw_chunks None of
        Inl e \<Rightarrow> Inl (AeStore e)
      | Inr kept \<Rightarrow>
          (let pruned = (if kept = [] then raw_chunks else kept);
               context_text = py_join [newline, newline] pruned;
               allow = default_allow_list (an_allowed env) \<union> {''context''}
           in case scrub (an_allowed env) [(''context'', JStr context_text)] (Some allow) of
                Inl e \<Rightarrow> Inl (AePii e)
              | Inr scrubbed \<Rightarrow>
                  (case map_of scrubbed ''context'' of
                     Some (JStr clean) \<Rightarrow> Inr (pruned, clean) | _ \<Rightarrow> Inl (AePii ''KeyError''))))"

definition analyze_document ::
  "'h analyst_env \<Rightarrow> int \<Rightarrow> document_task \<Rightarrow> ('h, 'e) router_world
     \<Rightarrow> (agent_error, document_result) result \<times> ('h, 'e) router_world" where
  "analyze_document env now task w =
     (case file_context_extractor (an_pdf env) (dt_pdf_path task) (dt_query task) (dt_max_pages task) of
        Inl e \<Rightarrow> (Inl (AePdf e), w)
      | Inr extraction \<Rightarrow>
          (let raw_chunks = snippet_texts extraction
           in case document_context env (dt_query task) raw_chunks of
                Inl e \<Rightarrow> (Inl e, w)
              | Inr (pruned, clean) \<Rightarrow>
                  (case provider_factory (an_environ env) (an_str env) (an_http env) (an_boto env) (dt_provider task) of
                     Inl e \<Rightarrow> (Inl (AeLlm e), w)
                   | Inr handlers \<Rightarrow>
                       (case route None now handlers
                               \<lparr>lq_tool_name = ''analyze_document'', lq_args = [], lq_claims = None,
                                lq_prompt = JStr (analysis_prompt (dt_query task) clean)\<rparr> w of
                          (Inl e, w1) \<Rightarrow> (Inl (AeLlm e), w1)
                        | (Inr r, w1) \<Rightarrow>
                            (Inr \<lparr>dr_summary = lr_content r, dr_provider = lr_model r, dr_input_tokens = lr_input_tokens r,
                               dr_output_tokens = lr_output_tokens r, dr_cost_usd = lr_cost_usd r,
                               dr_pages_read = jget_def extraction ''pages_read'' JNull,
                               dr_total_pages = jget_def extraction ''total_pages'' JNull,
                               dr_chunks_before = int (length raw_chunks), dr_chunks_after = int (length pruned)\<rparr>, w1)))))"

subsection \<open>The handoff\<close>

lemma parse_metrics_dump:
  assumes "\<And>r. ne_pydantic ne (JFloat (ne_text ne r)) = Some r"
  shows "parse_metrics ne (map (\<lambda>(k, v). (k, JFloat (ne_text ne v))) metrics) = Some metrics"
  by (induction metrics) (auto simp: assms)

lemma parse_strings_map [simp]: "parse_strings (map JStr ss) = Some ss"
  by (induction ss) auto

lemma parse_analysis_dump:
  assumes "\<And>r. ne_pydantic ne (JFloat (ne_text ne r)) = Some r"
  shows "parse_analysis ne (JObj (analysis_dump ne a)) = Some a"
  by (simp add: parse_analysis_def analysis_dump_def jget_def jget_def_def parse_metrics_dump [OF assms])

lemma metrics_of_Cons [simp]:
  "metrics_of ne ((k, v) # rest) = (case number_of ne v of None \<Rightarrow> [] | Some r \<Rightarrow> [(k, r)]) @ metrics_of ne rest"
  by (simp add: metrics_of_def map_filter_simps split: option.splits)

lemma metrics_keys: "fst ` set (metrics_of ne payload) \<subseteq> fst ` set payload"
proof (induction payload)
  case (Cons kv rest)
  then show ?case by (cases kv) (auto split: option.splits)
qed (simp add: metrics_of_def map_filter_simps)

lemma metrics_distinct: "distinct (map fst payload) \<Longrightarrow> distinct (map fst (metrics_of ne payload))"
proof (induction payload)
  case (Cons kv rest)
  then show ?case using metrics_keys [of ne rest] by (cases kv) (auto split: option.splits)
qed (simp add: metrics_of_def map_filter_simps)

text \<open>The writer sees the analyst's result, through the store.\<close>

lemma pipeline_handoff:
  assumes "redis_store c view up" and "up s" and "distinct (map fst (at_payload task))"
    and law: "\<And>r. ne_pydantic ne (JFloat (ne_text ne r)) = Some r" "\<And>r. float_lexeme (ne_text ne r)"
  shows "\<exists>report s1 ctx1. run_pipeline ne c s task ctx = (Inr report, s1, ctx1) \<and> up s1
    \<and> rr_report_text report = py_join [newline] (report_lines ne (fst (analyst_run ne task ctx)))"
proof -
  note dumps.simps [simp del]
  obtain a c2 where a: "analyst_run ne task (ctx_log (ctx_log ctx (''orchestrator: starting pipeline for task '' @ quoted (at_name task)))
      ''orchestrator: dispatching to AnalystAgent'') = (a, c2)" by (metis prod.exhaust)
  then have same: "fst (analyst_run ne task ctx) = a" and m: "ar_metrics a = metrics_of ne (at_payload task)"
    by (auto simp: analyst_run_def Let_def)
  have "json_ok (JObj (analysis_dump ne a))"
    using metrics_distinct [OF assms(3)] law(2) by (auto simp: analysis_dump_def m comp_def case_prod_unfold)
  then have dumped: "parse_raw (Some (dumps (JObj (analysis_dump ne a)))) = Inr (Some (JObj (analysis_dump ne a)))"
    by (simp add: parse_raw_def loads_dumps del: json_ok.simps)
  obtain s1 where s1: "rc_set c s (ar_session_key a) (dumps (JObj (analysis_dump ne a))) = (Inr (), s1)" "up s1"
      "view s1 = (view s)(ar_session_key a \<mapsto> dumps (JObj (analysis_dump ne a)))"
    by (rule redis_store.set_eq [OF assms(1,2)]) (auto intro: that)
  have set: "sm_set c s (ar_session_key a) (analysis_dump ne a) = (Inr (), s1)" by (simp add: sm_set_def s1(1))
  have get: "sm_get c s1 (ar_session_key a) = Inr (Some (JObj (analysis_dump ne a)))"
    using redis_store.get_eq [OF assms(1) s1(2), of "ar_session_key a"] s1(3) dumped by (simp add: sm_get_def)
  show ?thesis unfolding same run_pipeline_def Let_def a prod.case set sum.case get option.case parse_analysis_dump [OF law(1)]
    by (simp add: writer_run_def Let_def s1(2))
qed

text \<open>
  The allow list handed to the gate contains the only field that is scrubbed, so the gate never
  stops a document: what the PDF holds reaches the language model.
\<close>

lemma document_scrub_never_blocks:
  "scrub (an_allowed env) [(''context'', JStr t)] (Some (default_allow_list (an_allowed env) \<union> {''context''}))
     = Inr [(''context'', JStr t)]"
  by (simp add: scrub_def Let_def)

lemmas scrub_context = document_scrub_never_blocks [simplified]

lemma document_context_verbatim:
  "document_context env query raw_chunks = Inr (pruned, clean) \<Longrightarrow> clean = py_join [newline, newline] pruned"
  by (auto simp: document_context_def scrub_context Let_def split: sum.splits if_splits)

end
