(* ===== verification/Gateway.thy ===== *)
theory Gateway
  imports Agents Crew MCP_Client Idempotency Auth
begin

section \<open>The gateway (gateway/service\_layer.py, sampling.py, app.py)\<close>

text \<open>
  The service layer composes the components: PII gate, router and prompt cache, knowledge base,
  key-value store, event log, and the three orchestrators, whose tool calls come back to it. The
  gateway's state is \<open>gateway_world\<close>; configuration, third-party code and the texts of exceptions
  are the fields of \<open>gateway\<close>. A tool call that orchestrates may call tools that orchestrate:
  \<open>depth\<close> bounds the nesting the Python stack admits, and a deeper call raises
  \<open>RecursionError\<close>. Tracing spans and the wiring of singletons are not modelled.
\<close>

subsection \<open>Configuration and state\<close>

text \<open>What a tool call may raise: \<open>ValueError\<close> with its subclasses, or another exception.\<close>

datatype gw_error = GwValue string | GwOther string

record ('h, 'l, 'm) models_env =
  mo_sample :: "json \<Rightarrow> 'm \<Rightarrow> (gw_error, string) result \<times> 'm"
  mo_choose :: "string \<Rightarrow> string \<Rightarrow> 'm \<Rightarrow> (string, tool_selection) result \<times> 'm"
  mo_planner :: "string \<Rightarrow> string \<Rightarrow> 'm \<Rightarrow> (string, exec_plan) result \<times> 'm"
  mo_plain :: "string \<Rightarrow> string \<Rightarrow> 'm \<Rightarrow> (string, string) result \<times> 'm"
  mo_critic :: "string \<Rightarrow> 'm \<Rightarrow> (string, verdict) result \<times> 'm"
  mo_handlers :: "'h llm_handler list option"
  mo_log :: "('l \<Rightarrow> string \<Rightarrow> event \<Rightarrow> (log_error, string) result \<times> 'l) option"
  mo_usage_event :: "token_usage \<Rightarrow> event"
  mo_analyst :: "'h analyst_env"

record text_env =
  te_py :: py_env
  te_str :: "json \<Rightarrow> string"
  te_selector :: selector
  te_show_hits :: "hit list \<Rightarrow> string"
  te_show_verdict :: "verdict \<Rightarrow> string"
  te_show_execution :: "step_result list option \<Rightarrow> string"
  te_error :: "string \<Rightarrow> json \<Rightarrow> string"
  te_float :: "string \<Rightarrow> json"
  te_trunc :: "string \<Rightarrow> int option"
  te_cost :: "rat option \<Rightarrow> json"

record ('r, 'h, 'l, 'm) gateway =
  ga_dev_mode :: bool
  ga_allowed :: string
  ga_environ :: "string \<Rightarrow> string option"
  ga_orchestrator_mode :: string
  ga_max_iterations :: int
  ga_recursion_limit :: nat
  ga_prune_threshold :: real
  ga_fresh :: "nat \<Rightarrow> string"
  ga_now :: "nat \<Rightarrow> int"
  ga_stamp :: "nat \<Rightarrow> string"
  ga_search :: "string \<Rightarrow> vector \<Rightarrow> int \<Rightarrow> (store_error, hit list) result"
  ga_embed :: "string \<Rightarrow> vector"
  ga_kv :: "('r set_client \<times> string list) option"
  ga_cache :: "('r redis_client \<times> (string \<Rightarrow> string) \<times> int) option"
  ga_models :: "('h, 'l, 'm) models_env"
  ga_text :: text_env

record ('r, 'h, 'l, 'm) gateway_world =
  gw_bus :: message_bus
  gw_redis :: 'r
  gw_router :: "('h, 'l) router_world"
  gw_models :: 'm
  gw_clock :: nat
  gw_sessions :: "(string, nat) dict"
  gw_queues :: "nat \<Rightarrow> json list"
  gw_next_queue :: nat

definition err :: "('r, 'h, 'l, 'm) gateway \<Rightarrow> string \<Rightarrow> json \<Rightarrow> string" where
  "err g = te_error (ga_text g)"

text \<open>Publishing draws the id and the time stamp of the message.\<close>

definition gw_publish ::
  "('r, 'h, 'l, 'm) gateway \<Rightarrow> string \<Rightarrow> (string \<times> json) list \<Rightarrow> ('r, 'h, 'l, 'm) gateway_world \<Rightarrow> ('r, 'h, 'l, 'm) gateway_world" where
  "gw_publish g topic content w =
     w\<lparr>gw_bus := bus_publish (gw_bus w) topic \<lparr>am_id = ga_fresh g (gw_clock w), am_topic = topic, am_sender = ''gateway'',
         am_content = content, am_timestamp = ga_stamp g (gw_clock w)\<rparr>,
       gw_clock := gw_clock w + 1\<rparr>"

text \<open>An append to the event log, if one is configured; failures are dropped.\<close>

definition gw_log_event ::
  "('r, 'h, 'l, 'm) gateway \<Rightarrow> string \<Rightarrow> event \<Rightarrow> ('r, 'h, 'l, 'm) gateway_world \<Rightarrow> bool \<times> ('r, 'h, 'l, 'm) gateway_world" where
  "gw_log_event g topic ev w =
     (case mo_log (ga_models g) of
        None \<Rightarrow> (True, w)
      | Some f \<Rightarrow>
          (case f (rw_log (gw_router w)) topic ev of
             (r, l) \<Rightarrow> (is_ok r, w\<lparr>gw_router := (gw_router w)\<lparr>rw_log := l\<rparr>, gw_clock := gw_clock w + 1\<rparr>)))"

subsection \<open>Outcomes and errors\<close>

definition text_outcome :: "json \<Rightarrow> json" where
  "text_outcome t = JObj [(''content'', JArr [JObj [(''type'', JStr ''text''), (''text'', t)]])]"

definition obj_default :: "(string \<times> json) list \<Rightarrow> string \<Rightarrow> json \<Rightarrow> json" where
  "obj_default args k d = (case map_of args k of Some v \<Rightarrow> v | None \<Rightarrow> d)"

text \<open>\<open>JSONDecodeError\<close> is a \<open>ValueError\<close>, \<open>ProviderError\<close> is not.\<close>

definition llm_failure :: "('r, 'h, 'l, 'm) gateway \<Rightarrow> llm_error \<Rightarrow> gw_error" where
  "llm_failure g e = (case e of
     ProviderError p status detail \<Rightarrow>
       GwOther (p @ '' failed (status='' @ (case status of Some n \<Rightarrow> show_nat n | None \<Rightarrow> ''None'') @ ''): '' @ detail)
   | OtherError x \<Rightarrow> (if x \<in> {''ValueError'', ''JSONDecodeError''} then GwValue else GwOther) (err g x JNull))"

definition store_failure :: "('r, 'h, 'l, 'm) gateway \<Rightarrow> store_error \<Rightarrow> gw_error" where
  "store_failure g e = (case e of
     StoreValueError \<Rightarrow> GwValue (err g ''ValueError'' JNull) | StoreRuntimeError \<Rightarrow> GwOther (err g ''RuntimeError'' JNull))"

definition kv_failure :: "('r, 'h, 'l, 'm) gateway \<Rightarrow> kv_error \<Rightarrow> gw_error" where
  "kv_failure g e = (case e of
     KvValueError topic \<Rightarrow> GwValue (err g ''Unknown topic'' (JStr topic)) | KvRedisError r \<Rightarrow> GwOther (err g ''RedisError'' JNull))"

text \<open>The values Redis takes: text and numbers.\<close>

definition redis_text :: "json \<Rightarrow> string option" where
  "redis_text v = (case v of JStr s \<Rightarrow> Some s | JInt n \<Rightarrow> Some (show_int n) | JFloat l \<Rightarrow> Some l | _ \<Rightarrow> None)"

subsection \<open>SamplingHandler\<close>

text \<open>The stub client; \<open>SamplingResult\<close> refuses a prompt that is no text.\<close>

definition stub_sampling_client :: "json \<Rightarrow> 'm \<Rightarrow> (gw_error, string) result \<times> 'm" where
  "stub_sampling_client prompt m =
     (case prompt of JStr p \<Rightarrow> Inr (''[stub] '' @ take 50 p) | _ \<Rightarrow> Inl (GwValue ''ValidationError''), m)"

text \<open>The handler passes the prompt to its client, which the environment holds.\<close>

definition sampling_handle ::
  "('h, 'l, 'm) models_env \<Rightarrow> json \<Rightarrow> ('r, 'h, 'l, 'm) gateway_world \<Rightarrow> (gw_error, string) result \<times> ('r, 'h, 'l, 'm) gateway_world" where
  "sampling_handle mo prompt w = (case mo_sample mo prompt (gw_models w) of (r, m) \<Rightarrow> (r, w\<lparr>gw_models := m\<rparr>))"

subsection \<open>The tools\<close>

type_synonym ('r, 'h, 'l, 'm) tool_step =
  "('r, 'h, 'l, 'm) gateway_world \<Rightarrow> (gw_error, json) result \<times> ('r, 'h, 'l, 'm) gateway_world"

type_synonym claims = "(string \<times> json) list option"

definition tool_echo :: "(string \<times> json) list \<Rightarrow> json" where
  "tool_echo args = text_outcome (obj_default args ''message'' (obj_default args ''text'' (JStr [])))"

definition tool_add :: "('r, 'h, 'l, 'm) gateway \<Rightarrow> (string \<times> json) list \<Rightarrow> (gw_error, json) result" where
  "tool_add g args =
     (case add_input (te_py (ga_text g)) (JObj args) of
        None \<Rightarrow> Inl (GwValue (err g ''AddInput'' (JObj args)))
      | Some (a, b) \<Rightarrow>
          (case number_text (te_py (ga_text g)) (fl_add a b) of
             Inl (ToolValueError t) \<Rightarrow> Inl (GwValue t)
           | Inl (ToolOther t) \<Rightarrow> Inl (GwOther t)
           | Inr t \<Rightarrow> Inr (text_outcome (JStr t))))"

text \<open>
  The keyword arguments handed to \<open>AgentTask\<close>, of which pydantic ignores those the model does not
  declare, and the construction of \<open>MCPContext\<close>, a dataclass without a field \<open>session_id\<close>.
\<close>

definition agent_task_of :: "string \<Rightarrow> (string \<times> json) list \<Rightarrow> agent_task option" where
  "agent_task_of fresh kwargs =
     (case (obj_default kwargs ''id'' (JStr fresh), map_of kwargs ''name'', obj_default kwargs ''payload'' (JObj []),
            obj_default kwargs ''required_capability'' (JStr ''general'')) of
        (JStr i, Some (JStr n), JObj p, JStr cap) \<Rightarrow>
          (case make_task i n p (1 / 2) cap of Inr t \<Rightarrow> Some t | Inl _ \<Rightarrow> None)
      | _ \<Rightarrow> None)"

definition tool_analyse :: "('r, 'h, 'l, 'm) gateway \<Rightarrow> (string \<times> json) list \<Rightarrow> nat \<Rightarrow> (gw_error, json) result" where
  "tool_analyse g args clock =
     (let kwargs = [(''task_id'', JStr (te_str (ga_text g) (obj_default args ''task_id'' (JStr ''gw'')))),
                    (''description'', obj_default args ''description'' (JStr [])),
                    (''context'', obj_default args ''context'' (JObj []))]
      in case agent_task_of (ga_fresh g clock) kwargs of
           None \<Rightarrow> Inl (GwValue (err g ''AgentTask'' (JObj kwargs)))
         | Some task \<Rightarrow> Inl (GwOther (err g ''MCPContext'' (JStr ''session_id''))))"

text \<open>The log the router appends its usage records to.\<close>

definition usage_append ::
  "('h, 'l, 'm) models_env \<Rightarrow> ('l \<Rightarrow> token_usage \<Rightarrow> (string, unit) result \<times> 'l) option" where
  "usage_append mo = map_option (\<lambda>f l tu. case f l ''token.usage'' (mo_usage_event mo tu) of
     (r, l') \<Rightarrow> ((case r of Inl _ \<Rightarrow> Inl [] | Inr _ \<Rightarrow> Inr ()), l')) (mo_log mo)"

text \<open>Storing in the prompt cache: Redis refuses a value it cannot encode, the guard drops the error.\<close>

definition cache_store ::
  "('r, 'h, 'l, 'm) gateway \<Rightarrow> (string \<times> json) list \<Rightarrow> json \<Rightarrow> ('r, 'h, 'l, 'm) gateway_world \<Rightarrow> ('r, 'h, 'l, 'm) gateway_world" where
  "cache_store g args t w =
     (case (ga_cache g, redis_text t) of
        (Some (c, digest, ttl), Some v) \<Rightarrow> w\<lparr>gw_redis := prompt_set c ttl (gw_redis w) (cache_key digest ''sampling_demo'' args) v\<rparr>
      | _ \<Rightarrow> w)"

definition cache_lookup :: "('r, 'h, 'l, 'm) gateway \<Rightarrow> (string \<times> json) list \<Rightarrow> ('r, 'h, 'l, 'm) gateway_world \<Rightarrow> string option" where
  "cache_lookup g args w =
     (case ga_cache g of
        None \<Rightarrow> None
      | Some (c, digest, ttl) \<Rightarrow> prompt_get c (gw_redis w) (cache_key digest ''sampling_demo'' args))"

text \<open>
  \<open>sampling_demo\<close>: a cached answer returns at once and is not logged (the flag), else the router
  answers, or the sampling client when there is no router.
\<close>

definition tool_sampling ::
  "('r, 'h, 'l, 'm) gateway \<Rightarrow> (string \<times> json) list \<Rightarrow> claims \<Rightarrow> ('r, 'h, 'l, 'm) gateway_world
     \<Rightarrow> (gw_error, json \<times> bool) result \<times> ('r, 'h, 'l, 'm) gateway_world" where
  "tool_sampling g args claims w =
     (let prompt = obj_default args ''prompt'' (JStr [])
      in case cache_lookup g args w of
           Some t \<Rightarrow> (Inr (text_outcome (JStr t), False), w)
         | None \<Rightarrow>
             (case mo_handlers (ga_models g) of
                Some handlers \<Rightarrow>
                  (case route (usage_append (ga_models g)) (ga_now g (gw_clock w)) handlers
                          \<lparr>lq_tool_name = ''sampling_demo'', lq_args = args, lq_claims = claims, lq_prompt = prompt\<rparr> (gw_router w) of
                     (Inl e, r) \<Rightarrow> (Inl (llm_failure g e), w\<lparr>gw_router := r\<rparr>)
                   | (Inr res, r) \<Rightarrow>
                       (Inr (text_outcome (lr_content res), True), cache_store g args (lr_content res) (w\<lparr>gw_router := r\<rparr>)))
              | None \<Rightarrow>
                  (case sampling_handle (ga_models g) prompt w of
                     (Inl e, w1) \<Rightarrow> (Inl e, w1)
                   | (Inr t, w1) \<Rightarrow> (Inr (text_outcome (JStr t), True), cache_store g args (JStr t) w1))))"

definition owner_of :: "('r, 'h, 'l, 'm) gateway \<Rightarrow> claims \<Rightarrow> (gw_error, string) result" where
  "owner_of g claims =
     (case claims of
        Some (c # cs) \<Rightarrow>
          (case map_of (c # cs) ''sub'' of
             Some (JStr s) \<Rightarrow> Inr s
           | Some v \<Rightarrow> Inr (te_str (ga_text g) v)
           | None \<Rightarrow> Inl (GwOther (err g ''KeyError'' (JStr ''sub''))))
      | _ \<Rightarrow> Inr ''dev'')"

text \<open>\<open>top_k\<close> is an integer; with a float, text or list the arithmetic or the slice raises.\<close>

definition tool_knowledge ::
  "('r, 'h, 'l, 'm) gateway \<Rightarrow> (string \<times> json) list \<Rightarrow> claims \<Rightarrow> ('r, 'h, 'l, 'm) tool_step" where
  "tool_knowledge g args claims w =
     (case owner_of g claims of
        Inl e \<Rightarrow> (Inl e, w)
      | Inr owner_id \<Rightarrow>
          (case (obj_default args ''query'' (JStr []), token_count (obj_default args ''top_k'' (JInt 5))) of
             (JStr query, Inr top_k) \<Rightarrow>
               (case query_knowledge_base (ga_search g) None (ga_embed g) None query owner_id top_k False of
                  Inl e \<Rightarrow> (Inl (store_failure g e), w)
                | Inr chunks \<Rightarrow>
                    (case prune (ga_prune_threshold g) (ga_embed g) query (map fst chunks) None of
                       Inl e \<Rightarrow> (Inl (store_failure g e), w)
                     | Inr kept \<Rightarrow>
                         (let final = filter (\<lambda>c. fst c \<in> set kept) chunks
                          in (Inr (text_outcome (JStr (te_show_hits (ga_text g) final))),
                              gw_publish g ''knowledge.retrieved''
                                [(''owner_id'', JStr owner_id), (''chunk_count'', JInt (int (length final))),
                                 (''source'', JStr ''vector_store'')] w))))
           | (v, _) \<Rightarrow> (Inl (GwOther (err g ''TypeError'' v)), w)))"

text \<open>
  A topic of an unhashable type raises \<open>TypeError\<close>, one of another type is unknown.
\<close>

definition kv_topic :: "('r, 'h, 'l, 'm) gateway \<Rightarrow> json \<Rightarrow> (gw_error, string) result" where
  "kv_topic g topic = (case topic of
     JStr t \<Rightarrow> Inr t
   | JArr _ \<Rightarrow> Inl (GwOther (err g ''TypeError'' topic)) | JObj _ \<Rightarrow> Inl (GwOther (err g ''TypeError'' topic))
   | _ \<Rightarrow> Inl (GwValue (err g ''Unknown topic'' topic)))"

definition kv_arguments ::
  "('r, 'h, 'l, 'm) gateway \<Rightarrow> string \<Rightarrow> (string \<times> json) list
     \<Rightarrow> (gw_error, ('r set_client \<times> string list) \<times> json \<times> json) result" where
  "kv_arguments g tool args =
     (case ga_kv g of
        None \<Rightarrow> Inl (GwValue ''KV store not configured'')
      | Some kv \<Rightarrow>
          (let topic = obj_default args ''topic'' (JStr []); phrase = obj_default args ''phrase'' (JStr [])
           in if \<not> truthy topic \<or> \<not> truthy phrase
              then Inl (GwValue (tool @ '' requires '' @ quoted ''topic'' @ '' and '' @ quoted ''phrase''))
              else Inr (kv, topic, phrase)))"

definition tool_add_phrase :: "('r, 'h, 'l, 'm) gateway \<Rightarrow> (string \<times> json) list \<Rightarrow> ('r, 'h, 'l, 'm) tool_step" where
  "tool_add_phrase g args w =
     (case kv_arguments g ''kv/add_phrase'' args of
        Inl e \<Rightarrow> (Inl e, w)
      | Inr ((c, topics), topic, phrase) \<Rightarrow>
          (case kv_topic g topic of
             Inl e \<Rightarrow> (Inl e, w)
           | Inr t \<Rightarrow>
               (case kv_phrase_key topics t of
                  Inl e \<Rightarrow> (Inl (kv_failure g e), w)
                | Inr _ \<Rightarrow>
                    (case redis_text phrase of
                       None \<Rightarrow> (Inl (GwOther (err g ''DataError'' phrase)), w)
                     | Some p \<Rightarrow>
                         (case kv_add_phrase c topics (gw_redis w) t p of
                            (Inl e, r) \<Rightarrow> (Inl (kv_failure g e), w\<lparr>gw_redis := r\<rparr>)
                          | (Inr _, r) \<Rightarrow>
                              (Inr (text_outcome (JStr (''Registered '' @ pe_repr (te_py (ga_text g)) phrase
                                 @ '' under topic '' @ pe_repr (te_py (ga_text g)) topic))), w\<lparr>gw_redis := r\<rparr>))))))"

definition tool_check_affinity :: "('r, 'h, 'l, 'm) gateway \<Rightarrow> (string \<times> json) list \<Rightarrow> ('r, 'h, 'l, 'm) tool_step" where
  "tool_check_affinity g args w =
     (case kv_arguments g ''kv/check_affinity'' args of
        Inl e \<Rightarrow> (Inl e, w)
      | Inr ((c, topics), topic, phrase) \<Rightarrow>
          (case kv_topic g topic of
             Inl e \<Rightarrow> (Inl e, w)
           | Inr t \<Rightarrow>
               (case kv_phrase_key topics t of
                  Inl e \<Rightarrow> (Inl (kv_failure g e), w)
                | Inr _ \<Rightarrow>
                    (case redis_text phrase of
                       None \<Rightarrow> (Inl (GwOther (err g ''DataError'' phrase)), w)
                     | Some p \<Rightarrow>
                         (case kv_has_affinity c topics (gw_redis w) t p of
                            Inl e \<Rightarrow> (Inl (kv_failure g e), w)
                          | Inr b \<Rightarrow> (Inr (text_outcome (JStr (if b then ''true'' else ''false''))), w))))))"

subsection \<open>Orchestration\<close>

text \<open>A language model only changes its own part of the world.\<close>

definition on_models ::
  "('m \<Rightarrow> 'a \<times> 'm) \<Rightarrow> ('r, 'h, 'l, 'm) gateway_world \<Rightarrow> 'a \<times> ('r, 'h, 'l, 'm) gateway_world" where
  "on_models f w = (case f (gw_models w) of (r, m) \<Rightarrow> (r, w\<lparr>gw_models := m\<rparr>))"

definition error_of :: "gw_error \<Rightarrow> string" where
  "error_of e = (case e of GwValue t \<Rightarrow> t | GwOther t \<Rightarrow> t)"

type_synonym ('r, 'h, 'l, 'm) tool_call_fn =
  "json \<Rightarrow> (string \<times> json) list \<Rightarrow> ('r, 'h, 'l, 'm) gateway_world \<Rightarrow> (gw_error, json) result \<times> ('r, 'h, 'l, 'm) gateway_world"

definition tool_desc_of :: "json \<Rightarrow> tool_desc" where
  "tool_desc_of j =
     (let text = (\<lambda>k. case jget j k of Some (JStr s) \<Rightarrow> s | _ \<Rightarrow> [])
      in \<lparr>td_name = text ''name'', td_description = text ''description'',
          td_args = (case jget_def (jget_def j ''inputSchema'' (JObj [])) ''properties'' (JObj []) of
                       JObj kvs \<Rightarrow> map fst kvs | _ \<Rightarrow> [])\<rparr>)"

definition gateway_graph_env ::
  "('r, 'h, 'l, 'm) gateway \<Rightarrow> ('r, 'h, 'l, 'm) tool_call_fn \<Rightarrow> ('r, 'h, 'l, 'm) gateway_world graph_env" where
  "gateway_graph_env g call =
     \<lparr>ge_str = te_str (ga_text g), ge_show_verdict = te_show_verdict (ga_text g), ge_show_execution = te_show_execution (ga_text g),
      ge_planner = (\<lambda>s p. on_models (mo_planner (ga_models g) s p)),
      ge_plain = (\<lambda>s p. on_models (mo_plain (ga_models g) s p)),
      ge_critic = (\<lambda>t. on_models (mo_critic (ga_models g) t)),
      ge_call_tool = (\<lambda>n args w. case call (JStr n) args w of
         (Inl e, w') \<Rightarrow> (TRaise (error_of e), w') | (Inr r, w') \<Rightarrow> (TOk r, w')),
      ge_step_timeout = []\<rparr>"

text \<open>
  The text of a finished or paused graph: the key \<open>error\<close> of its state is always there, so the
  default text is never used.
\<close>

definition graph_answer :: "('r, 'h, 'l, 'm) gateway \<Rightarrow> run_end \<Rightarrow> (gw_error, json) result" where
  "graph_answer g r =
     (let text = (\<lambda>st. case gs_final_result st of Some fr \<Rightarrow> fr_text fr
                        | None \<Rightarrow> (case gs_error st of Some e \<Rightarrow> JStr e | None \<Rightarrow> JNull))
      in case r of
           Finished st \<Rightarrow> Inr (text st)
         | Paused _ st \<Rightarrow> Inr (text st)
         | Raised e \<Rightarrow> Inl ((if e = ''ValidationError'' then GwValue else GwOther) (err g e JNull))
         | RecursionError \<Rightarrow> Inl (GwOther (err g ''GraphRecursionError'' JNull)))"

text \<open>The rule-based mode runs the agent on a fresh STDIO server, which ends with it.\<close>

definition legacy_answer :: "('r, 'h, 'l, 'm) gateway \<Rightarrow> string \<Rightarrow> (gw_error, json) result" where
  "legacy_answer g task =
     (case or_connect (te_py (ga_text g)) (te_str (ga_text g)) or_init of
        (Inl e, _) \<Rightarrow> Inl (GwOther (err g ''RuntimeError'' JNull))
      | (Inr _, o1) \<Rightarrow>
          (case fst (react_run (te_py (ga_text g)) (te_str (ga_text g)) (te_float (ga_text g)) o1 task) of
             Inl e \<Rightarrow> Inl ((if e = ''ValidationError'' then GwValue else GwOther) (err g e JNull))
           | Inr r \<Rightarrow> Inr (JStr (rr_answer r))))"

definition tool_orchestrate ::
  "('r, 'h, 'l, 'm) gateway \<Rightarrow> ('r, 'h, 'l, 'm) tool_call_fn \<Rightarrow> (string \<times> json) list \<Rightarrow> ('r, 'h, 'l, 'm) tool_step" where
  "tool_orchestrate g call args w =
     (let task = obj_default args ''task'' (JStr []); mode = obj_default args ''mode'' (JStr (ga_orchestrator_mode g));
          wrap = (\<lambda>(r, w'). (case r of Inl e \<Rightarrow> Inl e | Inr t \<Rightarrow> Inr (text_outcome t), w'))
      in if \<not> truthy task then (Inl (GwValue (''orchestrate requires a '' @ quoted ''task'' @ '' argument'')), w)
         else case task of
           JStr t \<Rightarrow>
             (if mode = JStr ''legacy'' then wrap (legacy_answer g t, w)
              else if mode = JStr ''pydantic_ai'' then
                (case structured_run (te_selector (ga_text g)) (\<lambda>s p. on_models (mo_choose (ga_models g) s p))
                        (\<lambda>n a w. case call (JStr n) a w of (Inl e, w') \<Rightarrow> (Inl (error_of e), w') | (Inr r, w') \<Rightarrow> (Inr r, w'))
                        t http_tools w of
                   (Inl e, w1) \<Rightarrow> (Inl ((if e = ''ValidationError'' then GwValue else GwOther) (err g e JNull)), w1)
                 | (Inr r, w1) \<Rightarrow> (Inr (text_outcome (JStr (rp_result r))), w1))
              else if mode = JStr ''langgraph'' then
                (case graph_run (gateway_graph_env g call) (ga_max_iterations g) (ga_recursion_limit g) t
                        (map tool_desc_of http_tools) w of
                   (r, w1) \<Rightarrow> wrap (graph_answer g r, w1))
              else (Inl (GwValue (''Unknown orchestrator mode: '' @ pe_repr (te_py (ga_text g)) mode
                      @ ''. Use legacy/pydantic_ai/langgraph'')), w))
         | _ \<Rightarrow> (Inl (GwOther (err g ''TypeError'' task)), w))"

subsection \<open>Dispatch of a tool call\<close>

text \<open>The branches; the flag says whether the call is logged.\<close>

definition run_tool ::
  "('r, 'h, 'l, 'm) gateway \<Rightarrow> ('r, 'h, 'l, 'm) tool_call_fn \<Rightarrow> json \<Rightarrow> (string \<times> json) list \<Rightarrow> claims
     \<Rightarrow> ('r, 'h, 'l, 'm) gateway_world \<Rightarrow> (gw_error, json \<times> bool) result \<times> ('r, 'h, 'l, 'm) gateway_world" where
  "run_tool g call tool args claims w =
     (let logged = (\<lambda>(r, w'). (case r of Inl e \<Rightarrow> Inl e | Inr out \<Rightarrow> Inr (out, True), w'))
      in if tool = JStr ''echo'' then logged (Inr (tool_echo args), w)
         else if tool = JStr ''add'' then logged (tool_add g args, w)
         else if tool = JStr ''analyse_and_report'' then logged (tool_analyse g args (gw_clock w), w)
         else if tool = JStr ''sampling_demo'' then tool_sampling g args claims w
         else if tool = JStr ''query_knowledge_base'' then logged (tool_knowledge g args claims w)
         else if tool = JStr ''kv/add_phrase'' then logged (tool_add_phrase g args w)
         else if tool = JStr ''kv/check_affinity'' then logged (tool_check_affinity g args w)
         else if tool = JStr ''orchestrate'' then logged (tool_orchestrate g call args w)
         else (Inl (GwValue (''Unknown tool: '' @ te_str (ga_text g) tool)), w))"

text \<open>\<open>_handle_inner\<close>: the PII gate, the tool, the event; \<open>call\<close> is what a nested call does.\<close>

definition service_step ::
  "('r, 'h, 'l, 'm) gateway \<Rightarrow> (json \<Rightarrow> json \<Rightarrow> claims \<Rightarrow> ('r, 'h, 'l, 'm) tool_step) \<Rightarrow> json \<Rightarrow> json \<Rightarrow> claims
     \<Rightarrow> ('r, 'h, 'l, 'm) tool_step" where
  "service_step g nested tool args claims w =
     (case args of
        JObj kvs \<Rightarrow>
          (case scrub (ga_allowed g) kvs None of
             Inl e \<Rightarrow> (Inl (GwValue e), w)
           | Inr _ \<Rightarrow>
               (case run_tool g (\<lambda>n a. nested n (JObj a) claims) tool kvs claims w of
                  (Inl e, w1) \<Rightarrow> (Inl e, w1)
                | (Inr (out, logged), w1) \<Rightarrow>
                    (Inr out, if logged then snd (gw_log_event g ''gateway.tool_calls''
                       [(''tool'', tool), (''ts'', JInt (ga_now g (gw_clock w1)))] w1) else w1)))
      | _ \<Rightarrow> (Inl (GwOther (err g ''AttributeError'' args)), w))"

primrec handle_inner ::
  "('r, 'h, 'l, 'm) gateway \<Rightarrow> nat \<Rightarrow> json \<Rightarrow> json \<Rightarrow> claims \<Rightarrow> ('r, 'h, 'l, 'm) tool_step" where
  "handle_inner g 0 = service_step g (\<lambda>_ _ _ w. (Inl (GwOther (err g ''RecursionError'' JNull)), w))"
| "handle_inner g (Suc d) = service_step g (handle_inner g d)"

subsection \<open>The JSON-RPC dispatcher (app.py)\<close>

definition provider_key_map :: "string \<Rightarrow> string option" where
  "provider_key_map = map_of [(''openai'', ''OPENAI_API_KEY''), (''anthropic'', ''ANTHROPIC_API_KEY''), (''gemini'', ''GEMINI_API_KEY'')]"

definition provider_not_configured :: "string \<Rightarrow> string \<Rightarrow> string" where
  "provider_not_configured provider env_var = env_var @ '' not set for provider '' @ quoted provider"

definition validate_provider :: "('r, 'h, 'l, 'm) gateway \<Rightarrow> string option \<Rightarrow> (string, unit) result" where
  "validate_provider g provider =
     (let resolved = py_lower (case provider of
            Some p \<Rightarrow> if p = [] then getenv (ga_environ g) ''LLM_PROVIDER'' ''anthropic'' else p
          | None \<Rightarrow> getenv (ga_environ g) ''LLM_PROVIDER'' ''anthropic'')
      in case provider_key_map resolved of
           None \<Rightarrow> Inr ()
         | Some env_var \<Rightarrow>
             (if getenv (ga_environ g) env_var '''' = '''' then Inl (provider_not_configured resolved env_var) else Inr ()))"

text \<open>\<open>int(v)\<close>.\<close>

definition py_int :: "('r, 'h, 'l, 'm) gateway \<Rightarrow> json \<Rightarrow> (gw_error, int) result" where
  "py_int g v = (case v of
     JInt n \<Rightarrow> Inr n
   | JBool b \<Rightarrow> Inr (if b then 1 else 0)
   | JFloat l \<Rightarrow> (case te_trunc (ga_text g) l of Some n \<Rightarrow> Inr n | None \<Rightarrow> Inl (GwOther (err g ''OverflowError'' v)))
   | JStr s \<Rightarrow> (case parse_int s of Some n \<Rightarrow> Inr n | None \<Rightarrow> Inl (GwValue (err g ''ValueError'' v)))
   | _ \<Rightarrow> Inl (GwOther (err g ''TypeError'' v)))"

definition analyst_profiles :: "agent_profile list" where
  "analyst_profiles = [
     \<lparr>ap_agent_id = ''analyst'', ap_capabilities = [''document_analysis'', ''knowledge_retrieval''], ap_expertise_score = 9 / 10, ap_cost_per_unit = 12 / 10\<rparr>,
     \<lparr>ap_agent_id = ''summarizer'', ap_capabilities = [''summarization''], ap_expertise_score = 7 / 10, ap_cost_per_unit = 8 / 10\<rparr>,
     \<lparr>ap_agent_id = ''extractor'', ap_capabilities = [''document_analysis'', ''extraction''], ap_expertise_score = 75 / 100, ap_cost_per_unit = 1\<rparr>]"

definition stub_analysis :: "string \<Rightarrow> json" where
  "stub_analysis query = JObj [(''summary'', JStr (''[DEV_MODE stub] '' @ query)), (''provider'', JStr ''stub''),
     (''input_tokens'', JInt 100), (''output_tokens'', JInt 50), (''cost_usd'', JFloat ''0.0''), (''pages_read'', JInt 1),
     (''total_pages'', JInt 1), (''chunks_before_pruning'', JInt 4), (''chunks_after_pruning'', JInt 3)]"

definition analysis_json :: "('r, 'h, 'l, 'm) gateway \<Rightarrow> document_result \<Rightarrow> json" where
  "analysis_json g r = JObj [(''summary'', dr_summary r), (''provider'', dr_provider r), (''input_tokens'', dr_input_tokens r),
     (''output_tokens'', dr_output_tokens r), (''cost_usd'', te_cost (ga_text g) (dr_cost_usd r)), (''pages_read'', dr_pages_read r),
     (''total_pages'', dr_total_pages r), (''chunks_before_pruning'', JInt (dr_chunks_before r)), (''chunks_after_pruning'', JInt (dr_chunks_after r))]"

text \<open>Two events; a failing first append skips the second.\<close>

definition log_analysis ::
  "('r, 'h, 'l, 'm) gateway \<Rightarrow> document_result \<Rightarrow> ('r, 'h, 'l, 'm) gateway_world \<Rightarrow> ('r, 'h, 'l, 'm) gateway_world" where
  "log_analysis g r w =
     (let usage = [(''input_tokens'', dr_input_tokens r), (''output_tokens'', dr_output_tokens r), (''cost_usd'', te_cost (ga_text g) (dr_cost_usd r))];
          ts = (\<lambda>w. (''ts'', JInt (ga_now g (gw_clock w))))
      in case gw_log_event g ''agents.analyze''
                ([(''type'', JStr ''agents.analyze''), (''provider'', dr_provider r)] @ usage @ [(''pages_read'', dr_pages_read r), ts w]) w of
           (ok, w1) \<Rightarrow>
             (if ok then snd (gw_log_event g ''token.usage'' ([(''type'', JStr ''token.usage''), (''model'', dr_provider r)] @ usage @ [ts w1]) w1)
              else w1))"

definition agent_failure :: "('r, 'h, 'l, 'm) gateway \<Rightarrow> agent_error \<Rightarrow> string" where
  "agent_failure g e = (case e of
     AePdf (FileNotFoundError p) \<Rightarrow> err g ''FileNotFoundError'' (JStr p)
   | AePdf (PdfRuntimeError t) \<Rightarrow> t
   | AeStore x \<Rightarrow> error_of (store_failure g x)
   | AePii t \<Rightarrow> t
   | AeLlm x \<Rightarrow> error_of (llm_failure g x))"

text \<open>The part of \<open>agents/analyze\<close> inside its \<open>try\<close>.\<close>

definition run_analysis ::
  "('r, 'h, 'l, 'm) gateway \<Rightarrow> json \<Rightarrow> json \<Rightarrow> int \<Rightarrow> string option \<Rightarrow> ('r, 'h, 'l, 'm) gateway_world
     \<Rightarrow> (string, json) result \<times> ('r, 'h, 'l, 'm) gateway_world" where
  "run_analysis g pdf_path query max_pages provider w =
     (case make_task (ga_fresh g (gw_clock w)) ''document_analysis'' [] (6 / 10) ''document_analysis'' of
        Inl _ \<Rightarrow> (Inl (err g ''AgentTask'' JNull), w)
      | Inr task \<Rightarrow>
          (case auction_run None None task analyst_profiles [] of
             Inl _ \<Rightarrow> (Inl (err g ''ValueError'' JNull), w)
           | Inr _ \<Rightarrow>
               (case (pdf_path, query) of
                  (JStr path, JStr q) \<Rightarrow>
                    (case analyze_document (mo_analyst (ga_models g)) (ga_now g (gw_clock w))
                            \<lparr>dt_pdf_path = path, dt_query = q, dt_max_pages = max_pages, dt_provider = provider\<rparr> (gw_router w) of
                       (Inl e, r) \<Rightarrow> (Inl (agent_failure g e), w\<lparr>gw_router := r\<rparr>)
                     | (Inr d, r) \<Rightarrow> (Inr (analysis_json g d), log_analysis g d (w\<lparr>gw_router := r\<rparr>)))
                | _ \<Rightarrow> (Inl (err g ''TypeError'' pdf_path), w))))"

text \<open>
  \<open>agents/*\<close>. A bad \<open>max_pages\<close>, or a provider that is no text, raises outside the \<open>try\<close>.
\<close>

definition agents_dispatch ::
  "('r, 'h, 'l, 'm) gateway \<Rightarrow> mcp_request \<Rightarrow> ('r, 'h, 'l, 'm) gateway_world
     \<Rightarrow> (gw_error, mcp_response) result \<times> ('r, 'h, 'l, 'm) gateway_world" where
  "agents_dispatch g req w =
     (let params = (case rq_params req of Some p \<Rightarrow> p | None \<Rightarrow> []); req_id = rq_id req
      in if rq_method req \<noteq> ''agents/analyze'' then
           (Inr (resp_err req_id (- 32601) (''Method not found: '' @ rq_method req)), w)
         else
           (let pdf_path = obj_default params ''pdf_path'' (JStr []);
                query = obj_default params ''query'' (JStr ''Identify key KPIs and risk areas'');
                provider = obj_default params ''provider'' JNull
            in case py_int g (obj_default params ''max_pages'' (JInt 20)) of
                 Inl e \<Rightarrow> (Inl e, w)
               | Inr max_pages \<Rightarrow>
                   (if \<not> truthy pdf_path then (Inr (resp_err req_id (- 32602) ''Invalid params: pdf_path is required''), w)
                    else if ga_dev_mode g then (Inr (resp_ok req_id (stub_analysis (te_str (ga_text g) query))), w)
                    else case (if truthy provider then (case provider of JStr p \<Rightarrow> Some (Some p) | _ \<Rightarrow> None) else Some None) of
                      None \<Rightarrow> (Inl (GwOther (err g ''AttributeError'' provider)), w)
                    | Some p \<Rightarrow>
                        (case validate_provider g p of
                           Inl t \<Rightarrow> (Inr (resp_err req_id (- 32602) t), w)
                         | Inr _ \<Rightarrow>
                             (case run_analysis g pdf_path query max_pages p w of
                                (Inl t, w1) \<Rightarrow> (Inr (resp_err req_id (- 32603) (''agents/analyze failed: '' @ t)), w1)
                              | (Inr res, w1) \<Rightarrow> (Inr (resp_ok req_id res), w1))))))"

text \<open>\<open>_mcp_dispatch\<close>.\<close>

definition gateway_dispatch ::
  "('r, 'h, 'l, 'm) gateway \<Rightarrow> nat \<Rightarrow> mcp_request \<Rightarrow> claims \<Rightarrow> ('r, 'h, 'l, 'm) gateway_world
     \<Rightarrow> (gw_error, mcp_response) result \<times> ('r, 'h, 'l, 'm) gateway_world" where
  "gateway_dispatch g depth req claims w =
     (let meth = rq_method req; params = (case rq_params req of Some p \<Rightarrow> p | None \<Rightarrow> []); req_id = rq_id req
      in if meth = ''initialize'' then
           (Inr (resp_ok req_id (JObj [(''protocolVersion'', JStr ''2024-11-05''), (''capabilities'', JObj [(''tools'', JObj [])]),
              (''serverInfo'', JObj [(''name'', JStr ''mcp-agent-factory''), (''version'', JStr ''1.0.0'')])])), w)
         else if meth = ''notifications/initialized'' then (Inr (resp_ok req_id (JObj [])), w)
         else if meth = ''tools/list'' then (Inr (resp_ok req_id (JObj [(''tools'', JArr http_tools)])), w)
         else if startswith meth ''agents/'' then
           (if claims = None \<and> \<not> ga_dev_mode g then
              (Inr (resp_err req_id (- 32001) ''Authentication required for agents/*''), w)
            else agents_dispatch g req w)
         else if meth = ''tools/call'' then
           (if claims = None \<and> \<not> ga_dev_mode g then
              (Inr (resp_err req_id (- 32001) ''Authentication required for tools/call''), w)
            else
              (let tool_name = obj_default params ''name'' (JStr []); args = obj_default params ''arguments'' (JObj []);
                   w1 = gw_publish g ''gateway.tool_calls'' [(''tool'', tool_name), (''args'', args)] w
               in case handle_inner g depth tool_name args claims w1 of
                    (Inr res, w2) \<Rightarrow> (Inr (resp_ok req_id res), w2)
                  | (Inl (GwValue t), w2) \<Rightarrow>
                      (Inr (resp_ok req_id (JObj [(''isError'', JBool True), (''content'', JArr [text_block t])])), w2)
                  | (Inl (GwOther t), w2) \<Rightarrow> (Inr (resp_err req_id (- 32603) t), w2)))
         else (Inr (resp_err req_id (- 32601) (''Method not found: '' @ meth)), w))"

text \<open>A response as \<open>model_dump(exclude_none=True)\<close> gives it.\<close>

definition gateway_json :: "mcp_response \<Rightarrow> json" where
  "gateway_json r = JObj ([(''jsonrpc'', JStr ''2.0'')] @ (if rs_id r = JNull then [] else [(''id'', rs_id r)])
     @ (case rs_result r of Some v \<Rightarrow> [(''result'', v)] | None \<Rightarrow> [])
     @ (case rs_error r of Some v \<Rightarrow> [(''error'', v)] | None \<Rightarrow> []))"

text \<open>
  The outcomes of the HTTP endpoints: a body, a refusal of the token check, status 500 for an
  exception, or a bare status.
\<close>

datatype http_result = HBody json | HRefused auth_error | HServerError string | HStatus nat

text \<open>\<open>POST /mcp\<close>; \<open>check\<close> is the token dependency.\<close>

definition gateway_post ::
  "('r, 'h, 'l, 'm) gateway \<Rightarrow> nat \<Rightarrow> (string option \<Rightarrow> (auth_error, claims) result) \<Rightarrow> string option \<Rightarrow> mcp_request
     \<Rightarrow> ('r, 'h, 'l, 'm) gateway_world \<Rightarrow> http_result \<times> ('r, 'h, 'l, 'm) gateway_world" where
  "gateway_post g depth check authorization req w =
     (case check authorization of
        Inl e \<Rightarrow> (HRefused e, w)
      | Inr claims \<Rightarrow>
          (case gateway_dispatch g depth req claims w of
             (Inl e, w1) \<Rightarrow> (HServerError (error_of e), w1)
           | (Inr r, w1) \<Rightarrow> (HBody (gateway_json r), w1)))"

subsection \<open>The legacy SSE sessions\<close>

definition session_open ::
  "(string option \<Rightarrow> (auth_error, claims) result) \<Rightarrow> string option \<Rightarrow> string \<Rightarrow> ('r, 'h, 'l, 'm) gateway_world
     \<Rightarrow> (auth_error, unit) result \<times> ('r, 'h, 'l, 'm) gateway_world" where
  "session_open check authorization session_id w =
     (case check authorization of
        Inl e \<Rightarrow> (Inl e, w)
      | Inr _ \<Rightarrow> (Inr (), w\<lparr>gw_sessions := AList.update session_id (gw_next_queue w) (gw_sessions w),
                       gw_queues := (gw_queues w)(gw_next_queue w := []), gw_next_queue := gw_next_queue w + 1\<rparr>))"

definition session_post ::
  "('r, 'h, 'l, 'm) gateway \<Rightarrow> nat \<Rightarrow> (string option \<Rightarrow> (auth_error, claims) result) \<Rightarrow> string option \<Rightarrow> string \<Rightarrow> mcp_request
     \<Rightarrow> ('r, 'h, 'l, 'm) gateway_world \<Rightarrow> http_result \<times> ('r, 'h, 'l, 'm) gateway_world" where
  "session_post g depth check authorization session_id req w =
     (case check authorization of
        Inl e \<Rightarrow> (HRefused e, w)
      | Inr claims \<Rightarrow>
          (case map_of (gw_sessions w) session_id of
             None \<Rightarrow> (HStatus 404, w)
           | Some q \<Rightarrow>
               (case gateway_dispatch g depth req claims w of
                  (Inl e, w1) \<Rightarrow> (HServerError (error_of e), w1)
                | (Inr r, w1) \<Rightarrow>
                    (HStatus 202, w1\<lparr>gw_queues := (gw_queues w1)(q := gw_queues w1 q @ [gateway_json r])\<rparr>))))"

text \<open>The stream after its \<open>endpoint\<close> event: the next message, or a ping after 15 seconds.\<close>

definition session_next :: "nat \<Rightarrow> ('r, 'h, 'l, 'm) gateway_world \<Rightarrow> (string \<times> string) \<times> ('r, 'h, 'l, 'm) gateway_world" where
  "session_next q w =
     (case gw_queues w q of
        [] \<Rightarrow> ((''ping'', ''''), w)
      | j # js \<Rightarrow> ((''message'', dumps j), w\<lparr>gw_queues := (gw_queues w)(q := js)\<rparr>))"

definition session_close :: "string \<Rightarrow> ('r, 'h, 'l, 'm) gateway_world \<Rightarrow> ('r, 'h, 'l, 'm) gateway_world" where
  "session_close session_id w = w\<lparr>gw_sessions := AList.delete session_id (gw_sessions w)\<rparr>"

subsection \<open>What a tool call answers\<close>

definition tool_answer :: "json \<Rightarrow> bool" where
  "tool_answer r \<longleftrightarrow> (\<exists>t. r = text_outcome t)"

lemma text_outcome_answer [simp]: "tool_answer (text_outcome t)"
  by (auto simp: tool_answer_def)

lemma tool_sampling_answer: "tool_sampling g args claims w = (Inr (r, b), w') \<Longrightarrow> tool_answer r"
  by (auto simp: tool_sampling_def Let_def split: option.splits prod.splits sum.splits)

lemma tool_orchestrate_answer: "tool_orchestrate g call args w = (Inr r, w') \<Longrightarrow> tool_answer r"
  by (auto simp: tool_orchestrate_def Let_def split: if_splits json.splits prod.splits sum.splits)

lemma run_tool_answer: "run_tool g call tool args claims w = (Inr (r, b), w') \<Longrightarrow> tool_answer r"
proof -
  assume r: "run_tool g call tool args claims w = (Inr (r, b), w')"
  have add: "tool_add g args = Inr r \<Longrightarrow> tool_answer r" by (auto simp: tool_add_def split: option.splits sum.splits prod.splits tool_error.splits)
  have an: "tool_analyse g args c \<noteq> Inr r" for c by (auto simp: tool_analyse_def Let_def split: option.splits)
  have kb: "tool_knowledge g args claims w = (Inr r, w') \<Longrightarrow> tool_answer r"
    by (auto simp: tool_knowledge_def Let_def split: sum.splits json.splits)
  have kv: "tool_add_phrase g args w = (Inr r, w') \<Longrightarrow> tool_answer r" "tool_check_affinity g args w = (Inr r, w') \<Longrightarrow> tool_answer r"
    by (auto simp: tool_add_phrase_def tool_check_affinity_def split: sum.splits prod.splits option.splits)
  show ?thesis
    using r add an kb kv tool_sampling_answer tool_orchestrate_answer
    by (fastforce simp: run_tool_def Let_def tool_echo_def split: if_splits sum.splits prod.splits)
qed

lemma handle_inner_step:
  obtains n where "handle_inner g d = service_step g n"
  by (cases d) (auto intro: that)

lemma service_step_answer: "service_step g n tool args claims w = (Inr r, w') \<Longrightarrow> tool_answer r"
  by (auto simp: service_step_def split: json.splits sum.splits prod.splits dest: run_tool_answer)

lemma handle_inner_answer: "handle_inner g d tool args claims w = (Inr r, w') \<Longrightarrow> tool_answer r"
  by (rule handle_inner_step [of g d]) (auto dest: service_step_answer)

subsection \<open>Authentication\<close>

definition protected_method :: "string \<Rightarrow> bool" where
  "protected_method meth \<longleftrightarrow> meth = ''tools/call'' \<or> startswith meth ''agents/''"

lemma tools_call_prefix [simp]: "\<not> startswith ''tools/call'' ''agents/''" "\<not> startswith ''initialize'' ''agents/''"
  "\<not> startswith ''notifications/initialized'' ''agents/''" "\<not> startswith ''tools/list'' ''agents/''"
  by (simp_all add: startswith_def)

lemma dispatch_unauthenticated:
  assumes "\<not> ga_dev_mode g"
  shows "snd (gateway_dispatch g depth req None w) = w"
    and "protected_method (rq_method req) \<Longrightarrow>
      \<exists>t. fst (gateway_dispatch g depth req None w) = Inr (resp_err (rq_id req) (- 32001) t)"
  using assms by (auto simp: gateway_dispatch_def protected_method_def Let_def)


subsection \<open>The shape of responses\<close>

lemma run_analysis_object: "run_analysis g p q m pr w = (Inr v, w') \<Longrightarrow> \<exists>kvs. v = JObj kvs"
  by (auto simp: run_analysis_def analysis_json_def split: sum.splits json.splits prod.splits)

lemma agents_answer:
  "case fst (agents_dispatch g req w) of
      Inr r \<Rightarrow> (\<exists>kvs. r = resp_ok (rq_id req) (JObj kvs)) \<or> (\<exists>n t. r = resp_err (rq_id req) n t \<and> n \<in> {- 32601, - 32602, - 32603})
    | Inl _ \<Rightarrow> rq_method req = ''agents/analyze''"
proof (cases "rq_method req = ''agents/analyze''")
  case True
  let ?params = "case rq_params req of Some p \<Rightarrow> p | None \<Rightarrow> []"
  let ?path = "obj_default ?params ''pdf_path'' (JStr [])" and ?provider = "obj_default ?params ''provider'' JNull"
    and ?query = "obj_default ?params ''query'' (JStr ''Identify key KPIs and risk areas'')"
  let ?p = "if truthy ?provider then (case ?provider of JStr p \<Rightarrow> Some (Some p) | _ \<Rightarrow> None) else Some None"
  let ?m = "py_int g (obj_default ?params ''max_pages'' (JInt 20))"
  note unfold = agents_dispatch_def Let_def True simp_thms if_False
  consider (exc) e where "?m = Inl e" | (path) m where "?m = Inr m" "\<not> truthy ?path"
    | (dev) m where "?m = Inr m" "truthy ?path" "ga_dev_mode g"
    | (prov) m where "?m = Inr m" "truthy ?path" "\<not> ga_dev_mode g" "?p = None"
    | (go) m p where "?m = Inr m" "truthy ?path" "\<not> ga_dev_mode g" "?p = Some p"
    by (cases ?m; cases ?p) auto
  then show ?thesis
  proof cases
    case go
    obtain x w1 where x: "run_analysis g ?path ?query m p w = (x, w1)" by (metis prod.exhaust)
    have ob: "x = Inr v \<Longrightarrow> \<exists>kvs. v = JObj kvs" for v using run_analysis_object x by blast
    show ?thesis
      unfolding unfold go sum.case x option.case prod.case using go
      by (cases "validate_provider g p"; cases x) (auto dest: ob)
  qed (unfold unfold, auto simp: stub_analysis_def)
qed (auto simp: agents_dispatch_def Let_def)

text \<open>
  \<^bold>\<open>C27.\<close> Every answer of the dispatcher is well-formed JSON-RPC: it carries the id of the request and
  exactly one of result and error; an error has an integer code from a fixed set and a text; the
  result of a tool call is a content list with one text block, or such a list flagged as an error.
  Only \<open>agents/analyze\<close> can raise instead of answering.
\<close>

theorem gateway_response_wellformed:
  "case fst (gateway_dispatch g depth req claims w) of
     Inr r \<Rightarrow> rs_id r = rq_id req
       \<and> (case (rs_result r, rs_error r) of
            (Some v, None) \<Rightarrow> \<exists>kvs. v = JObj kvs \<and> (rq_method req = ''tools/call'' \<longrightarrow>
               tool_answer v \<or> (\<exists>t. v = JObj [(''isError'', JBool True), (''content'', JArr [text_block t])]))
          | (None, Some e) \<Rightarrow> \<exists>n t. e = JObj [(''code'', JInt n), (''message'', JStr t)]
               \<and> n \<in> {- 32001, - 32601, - 32602, - 32603}
          | _ \<Rightarrow> False)
   | Inl _ \<Rightarrow> rq_method req = ''agents/analyze'' \<and> (claims \<noteq> None \<or> ga_dev_mode g)"
proof -
  note agents = agents_answer [where g = g and req = req and w = w]
  show ?thesis
  proof (cases "rq_method req = ''tools/call''")
    case True
    then show ?thesis
      by (auto simp: gateway_dispatch_def Let_def resp_ok_def resp_err_def tool_answer_def text_outcome_def
          split: sum.splits gw_error.splits prod.splits dest!: handle_inner_answer)
  next
    case False
    with agents show ?thesis
      by (auto simp: gateway_dispatch_def Let_def resp_ok_def resp_err_def split: sum.splits)
  qed
qed

subsection \<open>Tenants do not see each other\<close>

text \<open>Two configurations that differ in what other owners' searches return.\<close>

text \<open>What does not read \<open>ga_search\<close>.\<close>

lemma search_fields:
  "ga_dev_mode (g\<lparr>ga_search := s\<rparr>) = ga_dev_mode g" "ga_allowed (g\<lparr>ga_search := s\<rparr>) = ga_allowed g"
  "ga_environ (g\<lparr>ga_search := s\<rparr>) = ga_environ g" "ga_orchestrator_mode (g\<lparr>ga_search := s\<rparr>) = ga_orchestrator_mode g"
  "ga_max_iterations (g\<lparr>ga_search := s\<rparr>) = ga_max_iterations g" "ga_recursion_limit (g\<lparr>ga_search := s\<rparr>) = ga_recursion_limit g"
  "ga_prune_threshold (g\<lparr>ga_search := s\<rparr>) = ga_prune_threshold g" "ga_fresh (g\<lparr>ga_search := s\<rparr>) = ga_fresh g"
  "ga_now (g\<lparr>ga_search := s\<rparr>) = ga_now g" "ga_stamp (g\<lparr>ga_search := s\<rparr>) = ga_stamp g" "ga_embed (g\<lparr>ga_search := s\<rparr>) = ga_embed g"
  "ga_kv (g\<lparr>ga_search := s\<rparr>) = ga_kv g" "ga_cache (g\<lparr>ga_search := s\<rparr>) = ga_cache g" "ga_models (g\<lparr>ga_search := s\<rparr>) = ga_models g"
  "ga_text (g\<lparr>ga_search := s\<rparr>) = ga_text g" "ga_search (g\<lparr>ga_search := s\<rparr>) = s"
  by simp_all

lemma search_free:
  "err (g\<lparr>ga_search := s\<rparr>) = err g" "gw_publish (g\<lparr>ga_search := s\<rparr>) = gw_publish g"
  "gw_log_event (g\<lparr>ga_search := s\<rparr>) = gw_log_event g"
  by (simp_all add: fun_eq_iff err_def gw_publish_def gw_log_event_def)

lemma failure_free:
  "llm_failure (g\<lparr>ga_search := s\<rparr>) = llm_failure g" "store_failure (g\<lparr>ga_search := s\<rparr>) = store_failure g"
  "kv_failure (g\<lparr>ga_search := s\<rparr>) = kv_failure g" "owner_of (g\<lparr>ga_search := s\<rparr>) = owner_of g"
  "kv_topic (g\<lparr>ga_search := s\<rparr>) = kv_topic g" "kv_arguments (g\<lparr>ga_search := s\<rparr>) = kv_arguments g"
  "cache_lookup (g\<lparr>ga_search := s\<rparr>) = cache_lookup g" "cache_store (g\<lparr>ga_search := s\<rparr>) = cache_store g"
  "gateway_graph_env (g\<lparr>ga_search := s\<rparr>) = gateway_graph_env g" "graph_answer (g\<lparr>ga_search := s\<rparr>) = graph_answer g"
  "legacy_answer (g\<lparr>ga_search := s\<rparr>) = legacy_answer g"
  unfolding fun_eq_iff llm_failure_def store_failure_def kv_failure_def owner_of_def kv_topic_def kv_arguments_def cache_lookup_def
    cache_store_def gateway_graph_env_def graph_answer_def legacy_answer_def search_fields search_free by simp_all

lemma tools_free:
  "tool_add (g\<lparr>ga_search := s\<rparr>) = tool_add g" "tool_analyse (g\<lparr>ga_search := s\<rparr>) = tool_analyse g"
  "tool_sampling (g\<lparr>ga_search := s\<rparr>) = tool_sampling g" "tool_add_phrase (g\<lparr>ga_search := s\<rparr>) = tool_add_phrase g"
  "tool_check_affinity (g\<lparr>ga_search := s\<rparr>) = tool_check_affinity g" "tool_orchestrate (g\<lparr>ga_search := s\<rparr>) = tool_orchestrate g"
  unfolding fun_eq_iff tool_add_def tool_analyse_def tool_sampling_def tool_add_phrase_def tool_check_affinity_def
    tool_orchestrate_def search_fields search_free failure_free by simp_all

lemma agents_free: "agents_dispatch (g\<lparr>ga_search := s\<rparr>) = agents_dispatch g"
proof -
  have 1: "analysis_json (g\<lparr>ga_search := s\<rparr>) = analysis_json g" "log_analysis (g\<lparr>ga_search := s\<rparr>) = log_analysis g"
    "agent_failure (g\<lparr>ga_search := s\<rparr>) = agent_failure g" "py_int (g\<lparr>ga_search := s\<rparr>) = py_int g"
    "validate_provider (g\<lparr>ga_search := s\<rparr>) = validate_provider g"
    unfolding fun_eq_iff analysis_json_def log_analysis_def agent_failure_def py_int_def validate_provider_def
      search_fields search_free failure_free by simp_all
  have 2: "run_analysis (g\<lparr>ga_search := s\<rparr>) = run_analysis g"
    unfolding fun_eq_iff run_analysis_def search_fields search_free 1 by simp
  show ?thesis unfolding fun_eq_iff agents_dispatch_def search_fields search_free 1 2 by simp
qed

lemma run_tool_search:
  assumes "\<forall>o1. owner_of g claims = Inr o1 \<longrightarrow> (\<forall>q k. s1 o1 q k = s2 o1 q k)"
  shows "run_tool (g\<lparr>ga_search := s1\<rparr>) call tool args claims w = run_tool (g\<lparr>ga_search := s2\<rparr>) call tool args claims w"
proof -
  have "tool_knowledge (g\<lparr>ga_search := s1\<rparr>) args claims w = tool_knowledge (g\<lparr>ga_search := s2\<rparr>) args claims w"
    using assms unfolding tool_knowledge_def query_knowledge_base_def search_fields search_free failure_free Let_def
    by (auto split: sum.splits json.splits)
  then show ?thesis unfolding run_tool_def tools_free search_fields by (simp only:)
qed

lemma handle_inner_search:
  assumes "\<forall>o1. owner_of g claims = Inr o1 \<longrightarrow> (\<forall>q k. s1 o1 q k = s2 o1 q k)"
  shows "handle_inner (g\<lparr>ga_search := s1\<rparr>) d tool args claims w = handle_inner (g\<lparr>ga_search := s2\<rparr>) d tool args claims w"
proof -
  have step: "service_step (g\<lparr>ga_search := s1\<rparr>) n1 tool args claims w = service_step (g\<lparr>ga_search := s2\<rparr>) n2 tool args claims w"
    if "\<And>t a w. n1 t a claims w = n2 t a claims w" for n1 n2 tool args w
  proof -
    have "(\<lambda>n a. n1 n (JObj a) claims) = (\<lambda>n a. n2 n (JObj a) claims)" using that by (simp add: fun_eq_iff)
    then show ?thesis
      unfolding service_step_def search_fields search_free by (simp only: run_tool_search [OF assms])
  qed
  show ?thesis
    by (induction d arbitrary: tool args w) (simp_all add: step search_free)
qed

text \<open>
  \<^bold>\<open>C25.\<close> Tenants are isolated end to end: what the gateway answers to a caller, and everything it
  changes, is the same whatever other owners have in the knowledge base. This covers every tool and
  the tools that orchestrating agents call in turn, to any depth: nested calls keep the caller's
  claims.
\<close>

theorem gateway_noninterference:
  assumes "owner_of g claims = Inr owner" and "\<And>q k. s1 owner q k = s2 owner q k"
  shows "gateway_dispatch (g\<lparr>ga_search := s1\<rparr>) depth req claims w = gateway_dispatch (g\<lparr>ga_search := s2\<rparr>) depth req claims w"
proof -
  have inner: "handle_inner (g\<lparr>ga_search := s1\<rparr>) d tool args claims w = handle_inner (g\<lparr>ga_search := s2\<rparr>) d tool args claims w" for d tool args w
    by (rule handle_inner_search) (use assms in auto)
  show ?thesis unfolding gateway_dispatch_def search_fields search_free agents_free by (simp only: inner)
qed

subsection \<open>What reaches the key-value store\<close>

subsection \<open>What every operation of the gateway keeps\<close>

text \<open>
  A property of the gateway's world that is kept by its atomic actions (a change of the models' or the
  router's part, of the clock, an event on the bus, a phrase that passed the PII gate, an entry of the
  prompt cache) is kept by every tool call, however nested, and by the dispatcher.
\<close>

lemma structured_run_keeps:
  assumes "\<And>s p w. P w \<Longrightarrow> P (snd (llm s p w))" and "\<And>n a w. P w \<Longrightarrow> P (snd (call n a w))" and "P w"
  shows "P (snd (structured_run sl llm call task tools w))"
proof -
  show ?thesis
  proof (cases "descriptor_lines (sl_str sl) tools")
    case (Some ls)
    obtain r w1 where l: "llm (selection_prompt ls) task w = (r, w1)" by (metis prod.exhaust)
    have w1: "P w1" using assms(1) [OF assms(3), of "selection_prompt ls" task] l by simp
    show ?thesis
    proof (cases r)
      case (Inr sel)
      let ?args = "arguments_as_dict (sl_float sl) (ts_arguments sel) []"
      obtain x w2 where c: "call (ts_tool_name sel) ?args w1 = (x, w2)" by (metis prod.exhaust)
      have "P w2" using assms(2) [OF w1, of "ts_tool_name sel" ?args] c by simp
      with Some l Inr c w1 show ?thesis by (auto simp: structured_run_def Let_def split: sum.split option.split)
    qed (use Some l w1 in \<open>simp add: structured_run_def\<close>)
  qed (use assms(3) in \<open>simp add: structured_run_def\<close>)
qed

locale gateway_invariant =
  fixes g :: "('r, 'h, 'l, 'm) gateway" and P :: "('r, 'h, 'l, 'm) gateway_world \<Rightarrow> bool"
  assumes keeps_models: "P w \<Longrightarrow> P (w\<lparr>gw_models := m\<rparr>)"
    and keeps_router: "P w \<Longrightarrow> P (w\<lparr>gw_router := r\<rparr>)"
    and keeps_clock: "P w \<Longrightarrow> P (w\<lparr>gw_clock := n\<rparr>)"
    and keeps_publish: "P w \<Longrightarrow> P (gw_publish g t content w)"
    and keeps_phrase: "scrub (ga_allowed g) kvs None = Inr kept \<Longrightarrow> P w \<Longrightarrow> P (snd (tool_add_phrase g kvs w))"
    and keeps_cache: "P w \<Longrightarrow> P (cache_store g args v w)"
begin

lemma on_models_keeps: "P w \<Longrightarrow> P (snd (on_models f w))"
  by (simp add: on_models_def keeps_models split: prod.split)

lemma log_event_keeps: "P w \<Longrightarrow> P (snd (gw_log_event g t e w))"
  using keeps_clock [OF keeps_router, of w] by (simp add: gw_log_event_def split: option.split prod.split)

lemma orchestrate_keeps:
  assumes call: "\<And>n a w. P w \<Longrightarrow> P (snd (call n a w))" and w: "P w"
  shows "P (snd (tool_orchestrate g call args w))"
proof -
  have structured: "P (snd (structured_run sl (\<lambda>s p. on_models (f s p))
      (\<lambda>n a w. case call (JStr n) a w of (Inl e, w') \<Rightarrow> (Inl (error_of e), w') | (Inr r, w') \<Rightarrow> (Inr r, w')) t tools w))" for sl f t tools
  proof (rule structured_run_keeps [OF on_models_keeps _ w])
    fix n a and w0 assume "P w0"
    from call [OF this, of "JStr n" a] show "P (snd (case call (JStr n) a w0 of (Inl e, w') \<Rightarrow> (Inl (error_of e), w') | (Inr r, w') \<Rightarrow> (Inr r, w')))"
      by (auto split: prod.split sum.split)
  qed
  have env: "env_keeps (gateway_graph_env g call) P"
    by (simp add: env_keeps_def gateway_graph_env_def on_models_keeps)
  have tools: "\<forall>n args w. P w \<longrightarrow> P (snd (ge_call_tool (gateway_graph_env g call) n args w))"
  proof (intro allI impI)
    fix n args w assume "P w"
    from call [OF this, of "JStr n" args] show "P (snd (ge_call_tool (gateway_graph_env g call) n args w))"
      by (auto simp: gateway_graph_env_def split: prod.split sum.split)
  qed
  have graph: "P (snd (graph_run (gateway_graph_env g call) mx lim t ts w))" for mx lim t ts
    unfolding graph_run_def by (rule graph_loop_keeps [OF env tools w])
  show ?thesis
  proof (cases "obj_default args ''task'' (JStr [])")
    case (JStr t)
    show ?thesis
      using w structured [of "te_selector (ga_text g)" "mo_choose (ga_models g)" t http_tools]
        graph [of "ga_max_iterations g" "ga_recursion_limit g" t "map tool_desc_of http_tools"]
      unfolding tool_orchestrate_def JStr Let_def json.case
      by (auto split: prod.split sum.split)
  qed (use w in \<open>simp_all add: tool_orchestrate_def Let_def\<close>)
qed

lemma sampling_keeps:
  assumes "P w" shows "P (snd (tool_sampling g args claims w))"
proof -
  have sample: "P w'" if "sampling_handle mo prompt w = (x, w')" for mo prompt x w'
    using that keeps_models [OF assms] by (auto simp: sampling_handle_def split: prod.splits)
  show ?thesis
    using keeps_router [OF assms] sample assms keeps_cache
    by (auto simp: tool_sampling_def Let_def split: option.split prod.split sum.split)
qed

lemma run_tool_keeps:
  assumes gate: "scrub (ga_allowed g) kvs None = Inr kept" and w: "P w" and call: "\<And>n a w. P w \<Longrightarrow> P (snd (call n a w))"
  shows "P (snd (run_tool g call tool kvs claims w))"
proof -
  have kb: "P (snd (tool_knowledge g kvs claims w))"
    using w keeps_publish [OF w] by (auto simp: tool_knowledge_def Let_def split: sum.split json.split)
  have ca: "snd (tool_check_affinity g kvs w) = w"
    by (auto simp: tool_check_affinity_def split: sum.split prod.split option.split)
  have logged: "snd ((\<lambda>(r, w'). (case r of Inl e \<Rightarrow> Inl e | Inr out \<Rightarrow> Inr (out, True), w')) x) = snd x" for x
    by (simp add: case_prod_unfold)
  show ?thesis
    unfolding run_tool_def Let_def
    using w kb ca sampling_keeps [OF w, of kvs claims] keeps_phrase [OF gate w] orchestrate_keeps [where call = call and args = kvs, OF call w]
    by (auto simp: logged)
qed

lemma handle_inner_keeps: "P w \<Longrightarrow> P (snd (handle_inner g d tool args claims w))"
proof -
  have step: "P (snd (service_step g n tool args claims w))"
    if w: "P w" and n: "\<And>t a cl w. P w \<Longrightarrow> P (snd (n t a cl w))" for n tool args claims w
  proof (cases args)
    case (JObj kvs)
    show ?thesis
    proof (cases "scrub (ga_allowed g) kvs None")
      case (Inr r)
      obtain x w1 where x: "run_tool g (\<lambda>n' a. n n' (JObj a) claims) tool kvs claims w = (x, w1)" by (metis prod.exhaust)
      have "P w1"
        using run_tool_keeps [OF Inr w, of "\<lambda>n' a. n n' (JObj a) claims" tool claims] n x by simp
      then show ?thesis
        using log_event_keeps by (auto simp: service_step_def JObj Inr x split: sum.split)
    qed (simp add: service_step_def JObj w)
  qed (simp_all add: service_step_def w)
  show "P w \<Longrightarrow> P (snd (handle_inner g d tool args claims w))"
    by (induction d arbitrary: tool args claims w) (simp_all add: step)
qed

lemma run_analysis_keeps:
  assumes "P w" shows "P (snd (run_analysis g p q m pr w))"
proof -
  have log: "P (log_analysis g r (w\<lparr>gw_router := x\<rparr>))" for r x
    using log_event_keeps [OF keeps_router [OF assms]] log_event_keeps [OF log_event_keeps [OF keeps_router [OF assms]]]
    by (simp add: log_analysis_def Let_def case_prod_unfold)
  show ?thesis
    using assms log keeps_router [OF assms]
    by (auto simp: run_analysis_def split: sum.split json.split prod.split)
qed

lemma agents_keeps:
  assumes "P w" shows "P (snd (agents_dispatch g req w))"
proof -
  have fin: "P (snd (case run_analysis g p q m pr w of (Inl t, w1) \<Rightarrow> (Inr (f t), w1) | (Inr res, w1) \<Rightarrow> (Inr (h res), w1)))" for p q m pr f h
    using run_analysis_keeps [OF assms, of p q m pr] by (auto split: prod.split sum.split)
  show ?thesis
    by (simp add: agents_dispatch_def Let_def fin assms split: sum.split option.split)
qed

lemma dispatch_keeps:
  assumes w: "P w" shows "P (snd (gateway_dispatch g depth req claims w))"
proof -
  have call: "P (snd (case handle_inner g depth tool args claims (gw_publish g t content w) of
      (Inr res, w2) \<Rightarrow> (f res, w2) | (Inl (GwValue e), w2) \<Rightarrow> (h e, w2) | (Inl (GwOther e), w2) \<Rightarrow> (k e, w2)))"
    for tool args t content and f :: "json \<Rightarrow> (gw_error, mcp_response) result" and h k
    using handle_inner_keeps [OF keeps_publish [OF w], of depth tool args claims t content] by (auto split: prod.split sum.split gw_error.split)
  show ?thesis using agents_keeps [OF w, of req] call w by (simp add: gateway_dispatch_def Let_def)
qed

end

text \<open>Tool calls only add messages to the bus: they subscribe no one and take nothing from a queue.\<close>

interpretation heard: gateway_invariant g "\<lambda>w. bus_grown b (gw_bus w)" for g :: "('r, 'h, 'l, 'm) gateway" and b
proof unfold_locales
  fix kvs kept and w :: "('r, 'h, 'l, 'm) gateway_world" assume "bus_grown b (gw_bus w)"
  then show "bus_grown b (gw_bus (snd (tool_add_phrase g kvs w)))"
    by (auto simp: tool_add_phrase_def split: sum.split prod.split option.split)
next
  fix args v and w :: "('r, 'h, 'l, 'm) gateway_world" assume "bus_grown b (gw_bus w)"
  then show "bus_grown b (gw_bus (cache_store g args v w))"
    by (auto simp: cache_store_def split: option.split)
qed (auto simp: gw_publish_def intro: bus_grown_trans bus_grown_publish)

text \<open>The phrases a store holds, and the two laws of Redis the argument needs.\<close>

definition stored_phrases :: "'r set_client \<Rightarrow> 'r \<Rightarrow> string set" where
  "stored_phrases c s = {p. \<exists>k ps. st_smembers c s k = Inr ps \<and> p \<in> set ps}"

definition phrase_laws :: "('r, 'h, 'l, 'm) gateway \<Rightarrow> 'r set_client \<Rightarrow> bool" where
  "phrase_laws g c \<longleftrightarrow> (\<forall>s k v. stored_phrases c (snd (st_sadd c s k v)) \<subseteq> insert v (stored_phrases c s))
     \<and> (\<forall>c' digest ttl s k v. ga_cache g = Some (c', digest, ttl) \<longrightarrow>
          stored_phrases c (snd (rc_setex c' s k ttl v)) \<subseteq> stored_phrases c s)"

text \<open>The text of a phrase that is a number, or a text the gate found nothing in.\<close>

definition clean_phrase :: "string \<Rightarrow> bool" where
  "clean_phrase p \<longleftrightarrow> (\<exists>v. redis_text v = Some p \<and> (\<forall>s. v = JStr s \<longrightarrow> \<not> contains_pii s))"

definition phrases_within :: "'r set_client \<Rightarrow> string set \<Rightarrow> ('r, 'h, 'l, 'm) gateway_world \<Rightarrow> bool" where
  "phrases_within c old w \<longleftrightarrow> stored_phrases c (gw_redis w) \<subseteq> old \<union> Collect clean_phrase"

lemma scrub_phrase:
  assumes "scrub raw kvs None = Inr r" and "''phrase'' \<notin> default_allow_list raw" and "map_of kvs ''phrase'' = Some (JStr s)"
  shows "\<not> contains_pii s"
proof -
  have "\<forall>kv \<in> set kvs. \<not> offends (default_allow_list raw) kv"
    using assms(1) scrub_loop_Inr by (auto simp: scrub_def Let_def split: sum.splits)
  then show ?thesis using assms(2) map_of_SomeD [OF assms(3)] by (fastforce simp: offends_def)
qed

lemma add_phrase_within:
  assumes laws: "phrase_laws g c" and "ga_kv g = Some (c, topics)" and gate: "scrub (ga_allowed g) kvs None = Inr r"
    and "''phrase'' \<notin> default_allow_list (ga_allowed g)" and "phrases_within c old w"
  shows "phrases_within c old (snd (tool_add_phrase g kvs w))"
proof -
  have clean: "clean_phrase p" if "redis_text (obj_default kvs ''phrase'' (JStr [])) = Some p" "truthy (obj_default kvs ''phrase'' (JStr []))" for p
    unfolding clean_phrase_def
  proof (intro exI conjI allI impI)
    show "redis_text (obj_default kvs ''phrase'' (JStr [])) = Some p" by (rule that(1))
    fix s assume "obj_default kvs ''phrase'' (JStr []) = JStr s"
    with that(2) have "map_of kvs ''phrase'' = Some (JStr s)" by (auto simp: obj_default_def split: option.splits)
    then show "\<not> contains_pii s" by (rule scrub_phrase [OF gate assms(4)])
  qed
  have sadd: "phrases_within c old (w\<lparr>gw_redis := snd (kv_add_phrase c topics (gw_redis w) t p)\<rparr>)" if p: "clean_phrase p" for t p
  proof -
    have "snd (kv_add_phrase c topics (gw_redis w) t p) = gw_redis w
        \<or> (\<exists>k. snd (kv_add_phrase c topics (gw_redis w) t p) = snd (st_sadd c (gw_redis w) k p))"
      by (auto simp: kv_add_phrase_def split: sum.splits prod.splits) (metis snd_conv)+
    then show ?thesis using laws p assms(5) by (fastforce simp: phrases_within_def phrase_laws_def)
  qed
  let ?phrase = "obj_default kvs ''phrase'' (JStr [])"
  have "snd (tool_add_phrase g kvs w) = w \<or> (\<exists>p t. redis_text ?phrase = Some p \<and> truthy ?phrase
      \<and> snd (tool_add_phrase g kvs w) = w\<lparr>gw_redis := snd (kv_add_phrase c topics (gw_redis w) t p)\<rparr>)"
    using assms(2)
    by (auto simp: tool_add_phrase_def kv_arguments_def Let_def split: sum.split option.split prod.split) (metis snd_conv)+
  then show ?thesis using assms(5) sadd [OF clean] by auto
qed

lemma cache_store_within:
  assumes "phrase_laws g c" and "phrases_within c old w" shows "phrases_within c old (cache_store g args t w)"
proof -
  have "cache_store g args t w = w \<or> (\<exists>c' digest ttl k v. ga_cache g = Some (c', digest, ttl)
      \<and> gw_redis (cache_store g args t w) = snd (rc_setex c' (gw_redis w) k ttl v))"
    by (auto simp: cache_store_def prompt_set_def split: option.split prod.split)
  with assms show ?thesis by (fastforce simp: phrases_within_def phrase_laws_def)
qed

lemma phrases_invariant:
  assumes "phrase_laws g c" and "ga_kv g = Some (c, topics)" and "''phrase'' \<notin> default_allow_list (ga_allowed g)"
  shows "gateway_invariant g (phrases_within c old)"
  by unfold_locales
    (use assms in \<open>auto simp: phrases_within_def [of _ _ "_\<lparr>gw_models := _\<rparr>"] phrases_within_def [of _ _ "_\<lparr>gw_router := _\<rparr>"]
       phrases_within_def [of _ _ "_\<lparr>gw_clock := _\<rparr>"] phrases_within_def [of _ _ "gw_publish _ _ _ _"] gw_publish_def
       intro: add_phrase_within cache_store_within simp flip: phrases_within_def\<close>)

text \<open>A sequence of requests, each with its Authorization header.\<close>

fun gateway_run ::
  "('r, 'h, 'l, 'm) gateway \<Rightarrow> nat \<Rightarrow> (string option \<Rightarrow> (auth_error, claims) result) \<Rightarrow> (string option \<times> mcp_request) list
     \<Rightarrow> ('r, 'h, 'l, 'm) gateway_world \<Rightarrow> ('r, 'h, 'l, 'm) gateway_world" where
  "gateway_run g depth check [] w = w"
| "gateway_run g depth check ((hdr, req) # rs) w = gateway_run g depth check rs (snd (gateway_post g depth check hdr req w))"


subsection \<open>A concrete gateway\<close>

definition list_sets :: "(string \<Rightarrow> string list) set_client" where
  "list_sets = \<lparr>st_keys = (\<lambda>s k. Inr []), st_sadd = (\<lambda>s k v. (Inr (), s(k := s k @ [v]))),
     st_sismember = (\<lambda>s k v. Inr (v \<in> set (s k))), st_smembers = (\<lambda>s k. Inr (s k))\<rparr>"

definition demo_models :: "(unit, unit, unit) models_env" where
  "demo_models = \<lparr>mo_sample = stub_sampling_client, mo_choose = (\<lambda>_ _ m. (Inl [], m)), mo_planner = (\<lambda>_ _ m. (Inl [], m)),
     mo_plain = (\<lambda>_ _ m. (Inl [], m)), mo_critic = (\<lambda>_ m. (Inl [], m)), mo_handlers = None, mo_log = None,
     mo_usage_event = (\<lambda>_. []),
     mo_analyst = \<lparr>an_pdf = \<lparr>pe_exists = (\<lambda>_. False), pe_installed = False, pe_pages = (\<lambda>_. Inr []), pe_abspath = (\<lambda>p. p)\<rparr>,
       an_stub = (\<lambda>_. [1]), an_threshold = 0, an_allowed = [], an_environ = (\<lambda>_. None), an_str = (\<lambda>_. []),
       an_http = (\<lambda>_ _ _ h. (HConnect [] [], h)), an_boto = None\<rparr>\<rparr>"

definition demo_text :: text_env where
  "demo_text = \<lparr>te_py = \<lparr>pe_float = (\<lambda>_. None), pe_repr_float = (\<lambda>_. []), pe_repr = dumps, pe_invalid = (\<lambda>c _. c)\<rparr>, te_str = dumps,
     te_selector = \<lparr>sl_str = dumps, sl_repr = (\<lambda>s. s), sl_show_set = (\<lambda>_. []), sl_float = (\<lambda>_. None)\<rparr>,
     te_show_hits = (\<lambda>hs. concat (map fst hs)), te_show_verdict = (\<lambda>_. []), te_show_execution = (\<lambda>_. []), te_error = (\<lambda>c _. c),
     te_float = (\<lambda>t. JFloat t), te_trunc = (\<lambda>_. None), te_cost = (\<lambda>_. JNull)\<rparr>"

definition demo_gateway :: "bool \<Rightarrow> (string \<Rightarrow> string list, unit, unit, unit) gateway" where
  "demo_gateway dev = \<lparr>ga_dev_mode = dev, ga_allowed = [], ga_environ = (\<lambda>_. None), ga_orchestrator_mode = ''legacy'',
     ga_max_iterations = 15, ga_recursion_limit = 25, ga_prune_threshold = 0, ga_fresh = show_nat, ga_now = int, ga_stamp = show_nat,
     ga_search = (\<lambda>_ _ _. Inr []), ga_embed = (\<lambda>_. [1]), ga_kv = Some (list_sets, [''default'']), ga_cache = None,
     ga_models = demo_models, ga_text = demo_text\<rparr>"

definition demo_world :: "(string \<Rightarrow> string list, unit, unit, unit) gateway_world" where
  "demo_world = \<lparr>gw_bus = bus_init, gw_redis = (\<lambda>_. []),
     gw_router = \<lparr>rw_http = (), rw_log = (), rw_cost = (\<lambda>_. 0), rw_input = (\<lambda>_. 0), rw_output = (\<lambda>_. 0)\<rparr>,
     gw_models = (), gw_clock = 0, gw_sessions = [], gw_queues = (\<lambda>_. []), gw_next_queue = 0\<rparr>"

definition add_phrase_request :: "string \<Rightarrow> mcp_request" where
  "add_phrase_request p = \<lparr>rq_method = ''tools/call'', rq_params = Some [(''name'', JStr ''kv/add_phrase''),
     (''arguments'', JObj [(''topic'', JStr ''default''), (''phrase'', JStr p)])], rq_id = JInt 1\<rparr>"

lemma demo_phrase_laws: "phrase_laws (demo_gateway dev) list_sets"
  by (auto simp: phrase_laws_def stored_phrases_def list_sets_def demo_gateway_def split: if_splits)

lemma demo_scrub: "scrub [] [(''topic'', JStr ''default''), (''phrase'', JStr ''blue'')] None
    = Inr [(''topic'', JStr ''default''), (''phrase'', JStr ''blue'')]"
  by code_simp

lemma demo_blue_stored:
  "''blue'' \<in> stored_phrases list_sets (gw_redis (gateway_run (demo_gateway True) 0 (\<lambda>_. Inr None) [(None, add_phrase_request ''blue'')] demo_world))"
  by (simp add: gateway_post_def gateway_dispatch_def add_phrase_request_def obj_default_def gw_publish_def demo_gateway_def demo_world_def
      startswith_def service_step_def demo_scrub run_tool_def tool_add_phrase_def kv_arguments_def kv_topic_def kv_phrase_key_def kv_key_def
      kv_prefix_def redis_text_def kv_add_phrase_def list_sets_def stored_phrases_def gw_log_event_def demo_models_def Let_def)



lemma gateway_response_wellformed_witness:
  "\<exists>r v. fst (gateway_dispatch (demo_gateway True) 0 (add_phrase_request ''blue'') None demo_world) = Inr r \<and> rs_result r = Some v
     \<and> rs_id r = JInt 1 \<and> (tool_answer v \<or> (\<exists>t. v = JObj [(''isError'', JBool True), (''content'', JArr [text_block t])]))"
proof -
  have "\<exists>r v. fst (gateway_dispatch (demo_gateway True) 0 (add_phrase_request ''blue'') None demo_world) = Inr r \<and> rs_result r = Some v
      \<and> rs_error r = None"
    by (simp add: gateway_dispatch_def add_phrase_request_def obj_default_def gw_publish_def demo_gateway_def demo_world_def
        startswith_def service_step_def demo_scrub run_tool_def tool_add_phrase_def kv_arguments_def kv_topic_def kv_phrase_key_def kv_key_def
        kv_prefix_def redis_text_def kv_add_phrase_def list_sets_def gw_log_event_def demo_models_def Let_def resp_ok_def)
  then obtain r v where "fst (gateway_dispatch (demo_gateway True) 0 (add_phrase_request ''blue'') None demo_world) = Inr r"
    "rs_result r = Some v" "rs_error r = None" by blast
  with gateway_response_wellformed [where g = "demo_gateway True" and depth = 0 and req = "add_phrase_request ''blue''"
      and claims = None and w = demo_world]
  show ?thesis by (auto simp: add_phrase_request_def)
qed

definition query_request :: mcp_request where
  "query_request = \<lparr>rq_method = ''tools/call'', rq_params = Some [(''name'', JStr ''query_knowledge_base''),
     (''arguments'', JObj [(''query'', JStr ''plans'')])], rq_id = JInt 1\<rparr>"

text \<open>Two stores that differ for another owner.\<close>

lemma gateway_noninterference_witness:
  "gateway_dispatch (demo_gateway False\<lparr>ga_search := (\<lambda>o1 q k. Inr (if o1 = ''bob'' then [(''secret'', 1)] else []))\<rparr>) 3
       query_request (Some [(''sub'', JStr ''alice'')]) demo_world
   = gateway_dispatch (demo_gateway False\<lparr>ga_search := (\<lambda>o1 q k. Inr [])\<rparr>) 3
       query_request (Some [(''sub'', JStr ''alice'')]) demo_world"
  by (rule gateway_noninterference [where owner = "''alice''"]) (simp_all add: owner_of_def)

subsection \<open>Behaviours worth knowing\<close>

text \<open>
  \<open>analyse_and_report\<close> never runs: the keyword arguments it builds have no \<open>name\<close>, which
  \<open>AgentTask\<close> requires. Every call is answered as a validation error.
\<close>

lemma analyse_never_runs:
  "\<exists>e. tool_analyse g args clock = Inl (GwValue e)"
  by (simp add: tool_analyse_def agent_task_of_def obj_default_def split: json.split)

text \<open>
  The arguments of a call are published before the PII gate sees them: a call the gate rejects
  still puts its data on the bus.
\<close>

lemma rejected_arguments_published:
  assumes "ga_dev_mode g \<or> claims \<noteq> None" and "scrub (ga_allowed g) kvs None = Inl e"
    and "rq_method req = ''tools/call''" and "rq_params req = Some [(''name'', JStr t), (''arguments'', JObj kvs)]"
    and "bus_inv (gw_bus w)" and "q \<in> set (bus_subs (gw_bus w) ''gateway.tool_calls'')"
  shows "\<exists>m. snd (gateway_dispatch g depth req claims w) = gw_publish g ''gateway.tool_calls'' [(''tool'', JStr t), (''args'', JObj kvs)] w
    \<and> m \<in> set (bus_queues (gw_bus (snd (gateway_dispatch g depth req claims w))) q)
    \<and> am_content m = [(''tool'', JStr t), (''args'', JObj kvs)]"
proof -
  have inner: "handle_inner g depth (JStr t) (JObj kvs) claims w1 = (Inl (GwValue e), w1)" for w1
    using assms(2) by (cases depth) (simp_all add: service_step_def)
  have d: "snd (gateway_dispatch g depth req claims w) = gw_publish g ''gateway.tool_calls'' [(''tool'', JStr t), (''args'', JObj kvs)] w"
    using assms(1,3,4) by (auto simp: gateway_dispatch_def Let_def obj_default_def inner)
  let ?m = "\<lparr>am_id = ga_fresh g (gw_clock w), am_topic = ''gateway.tool_calls'', am_sender = ''gateway'',
    am_content = [(''tool'', JStr t), (''args'', JObj kvs)], am_timestamp = ga_stamp g (gw_clock w)\<rparr>"
  show ?thesis unfolding d
    by (rule exI [of _ ?m]) (use bus_publish_queue [OF assms(5)] assms(6) in \<open>simp add: gw_publish_def\<close>)
qed

end
