(* ===== verification/Eval_Metrics.thy ===== *)
theory Eval_Metrics
  imports Pattern MCP_Client Graph_Orchestrator Complex_Main
begin

section \<open>Evaluation metrics (evals/metrics)\<close>

text \<open>
  The ranking metrics of retrieval, the Wilson interval and McNemar's test, answer matching,
  groundedness and schema conformance. Floats are reals; \<open>round(x, 4)\<close> and the complementary error
  function are arguments.
\<close>

subsection \<open>Ranking (ranking.py)\<close>

definition recall_at_k :: "string list \<Rightarrow> string set \<Rightarrow> int \<Rightarrow> real" where
  "recall_at_k retrieved relevant k =
     (if relevant = {} then 1
      else real (length (filter (\<lambda>c. c \<in> relevant) (slice_to retrieved k))) / real (card relevant))"

fun reciprocal_from :: "nat \<Rightarrow> string list \<Rightarrow> string set \<Rightarrow> real" where
  "reciprocal_from i [] relevant = 0"
| "reciprocal_from i (c # cs) relevant = (if c \<in> relevant then 1 / real i else reciprocal_from (i + 1) cs relevant)"

definition reciprocal_rank :: "string list \<Rightarrow> string set \<Rightarrow> real" where
  "reciprocal_rank retrieved relevant = reciprocal_from 1 retrieved relevant"

fun dcg_from :: "nat \<Rightarrow> string list \<Rightarrow> string set \<Rightarrow> real" where
  "dcg_from i [] relevant = 0"
| "dcg_from i (c # cs) relevant = (if c \<in> relevant then 1 / log 2 (real (i + 1)) else 0) + dcg_from (i + 1) cs relevant"

definition dcg_at_k :: "string list \<Rightarrow> string set \<Rightarrow> int \<Rightarrow> real" where
  "dcg_at_k retrieved relevant k = dcg_from 1 (slice_to retrieved k) relevant"

definition ideal_dcg :: "nat \<Rightarrow> real" where
  "ideal_dcg n = (\<Sum>i = 1..n. 1 / log 2 (real (i + 1)))"

definition ndcg_at_k :: "string list \<Rightarrow> string set \<Rightarrow> int \<Rightarrow> real" where
  "ndcg_at_k retrieved relevant k =
     (let actual = dcg_at_k retrieved relevant k; ideal = ideal_dcg (nat (min (int (card relevant)) k))
      in if ideal = 0 then (if actual = 0 then 1 else 0) else min (actual / ideal) 1)"

definition context_precision :: "string list \<Rightarrow> string set \<Rightarrow> real" where
  "context_precision retrieved relevant =
     (if retrieved = [] then 0 else real (length (filter (\<lambda>c. c \<in> relevant) retrieved)) / real (length retrieved))"

record ranking_result =
  rk_query_id :: string
  rk_relevant :: "string set"
  rk_retrieved :: "string list"
  rk_recall_1 :: real
  rk_recall_3 :: real
  rk_recall_5 :: real
  rk_recall_10 :: real
  rk_mrr :: real
  rk_ndcg_10 :: real
  rk_context_precision :: real

definition evaluate_retrieval :: "string \<Rightarrow> string list \<Rightarrow> string list \<Rightarrow> ranking_result" where
  "evaluate_retrieval query_id retrieved relevant =
     (let rel = set relevant
      in \<lparr>rk_query_id = query_id, rk_relevant = rel, rk_retrieved = retrieved,
          rk_recall_1 = recall_at_k retrieved rel 1, rk_recall_3 = recall_at_k retrieved rel 3,
          rk_recall_5 = recall_at_k retrieved rel 5, rk_recall_10 = recall_at_k retrieved rel 10,
          rk_mrr = reciprocal_rank retrieved rel, rk_ndcg_10 = ndcg_at_k retrieved rel 10,
          rk_context_precision = context_precision retrieved rel\<rparr>)"

datatype metric = Text string | Score real | Count int

definition ranking_dict :: "(real \<Rightarrow> real) \<Rightarrow> ranking_result \<Rightarrow> (string \<times> metric) list" where
  "ranking_dict rnd r = [(''query_id'', Text (rk_query_id r)),
     (''recall@1'', Score (rnd (rk_recall_1 r))), (''recall@3'', Score (rnd (rk_recall_3 r))),
     (''recall@5'', Score (rnd (rk_recall_5 r))), (''recall@10'', Score (rnd (rk_recall_10 r))),
     (''mrr'', Score (rnd (rk_mrr r))), (''ndcg@10'', Score (rnd (rk_ndcg_10 r))),
     (''context_precision'', Score (rnd (rk_context_precision r))),
     (''n_relevant'', Count (int (card (rk_relevant r)))), (''n_retrieved'', Count (int (length (rk_retrieved r))))]"

definition mean_of :: "(real \<Rightarrow> real) \<Rightarrow> (ranking_result \<Rightarrow> real) \<Rightarrow> ranking_result list \<Rightarrow> metric" where
  "mean_of rnd f rs = Score (rnd (sum_list (map f rs) / real (length rs)))"

definition aggregate_retrieval_metrics :: "(real \<Rightarrow> real) \<Rightarrow> ranking_result list \<Rightarrow> (string \<times> metric) list" where
  "aggregate_retrieval_metrics rnd rs =
     (if rs = [] then []
      else [(''n'', Count (int (length rs))), (''recall@1'', mean_of rnd rk_recall_1 rs), (''recall@3'', mean_of rnd rk_recall_3 rs),
            (''recall@5'', mean_of rnd rk_recall_5 rs), (''recall@10'', mean_of rnd rk_recall_10 rs), (''mrr'', mean_of rnd rk_mrr rs),
            (''ndcg@10'', mean_of rnd rk_ndcg_10 rs), (''context_precision'', mean_of rnd rk_context_precision rs)])"

subsection \<open>Statistics (statistics.py)\<close>

record wilson_interval =
  wi_proportion :: real
  wi_lower :: real
  wi_upper :: real
  wi_n :: int
  wi_successes :: int
  wi_z :: real

text \<open>
  Other confidence levels than the three of the table fall through to \<open>math.erfinv\<close>, which does
  not exist: the import raises.
\<close>

definition z_score :: "real \<Rightarrow> (string, real) result" where
  "z_score confidence =
     (if confidence = 90 / 100 then Inr (1645 / 1000)
      else if confidence = 95 / 100 then Inr (196 / 100)
      else if confidence = 99 / 100 then Inr (2576 / 1000)
      else Inl ''ImportError: cannot import name erfinv from math'')"

definition wilson_ci :: "int \<Rightarrow> int \<Rightarrow> real \<Rightarrow> (string, wilson_interval) result" where
  "wilson_ci successes n confidence =
     (if n = 0 then
        Inr \<lparr>wi_proportion = 0, wi_lower = 0, wi_upper = 1, wi_n = 0, wi_successes = 0, wi_z = 0\<rparr>
      else case z_score confidence of
        Inl e \<Rightarrow> Inl e
      | Inr z \<Rightarrow>
          (let p_hat = of_int successes / of_int n;
               denominator = 1 + z * z / of_int n;
               centre = p_hat + z * z / (2 * of_int n);
               radicand = (p_hat * (1 - p_hat) + z * z / (4 * of_int n)) / of_int n
           in if radicand < 0 then Inl ''ValueError: math domain error''
              else (let spread = z * sqrt radicand
                in Inr \<lparr>wi_proportion = p_hat, wi_lower = max 0 ((centre - spread) / denominator),
                       wi_upper = min 1 ((centre + spread) / denominator), wi_n = n, wi_successes = successes, wi_z = z\<rparr>)))"

definition minimum_detectable_effect :: "int \<Rightarrow> real \<Rightarrow> (string, real) result" where
  "minimum_detectable_effect n confidence =
     (if n = 0 then Inr 1
      else case z_score confidence of
        Inl e \<Rightarrow> Inl e
      | Inr z \<Rightarrow> (if n < 0 then Inl ''ValueError: math domain error'' else Inr (z * sqrt ((1 / 4) / of_int n) * 2)))"

record mcnemar_result =
  mc_chi2 :: real
  mc_p_value :: real
  mc_significant :: bool
  mc_n_discordant :: int

definition chi2_survival :: "(real \<Rightarrow> real) \<Rightarrow> real \<Rightarrow> int \<Rightarrow> (string, real) result" where
  "chi2_survival erfc x df =
     (if df \<noteq> 1 then Inl ''Only df=1 supported''
      else if x < 0 then Inl ''ValueError: math domain error'' else Inr (erfc (sqrt (x / 2))))"

definition mcnemar_test :: "(real \<Rightarrow> real) \<Rightarrow> (real \<Rightarrow> real) \<Rightarrow> int \<Rightarrow> int \<Rightarrow> (string, mcnemar_result) result" where
  "mcnemar_test rnd erfc wins_a wins_b =
     (let total = wins_a + wins_b
      in if total = 0 then Inr \<lparr>mc_chi2 = 0, mc_p_value = 1, mc_significant = False, mc_n_discordant = 0\<rparr>
         else (let chi2 = (\<bar>of_int (wins_a - wins_b)\<bar> - 1)\<^sup>2 / of_int total
           in case chi2_survival erfc chi2 1 of
                Inl e \<Rightarrow> Inl e
              | Inr p \<Rightarrow> Inr \<lparr>mc_chi2 = rnd chi2, mc_p_value = rnd p, mc_significant = p < 5 / 100, mc_n_discordant = total\<rparr>))"

subsection \<open>Answer matching (retrieval.py)\<close>

record match_result =
  mr_exact :: bool
  mr_fuzzy :: real
  mr_keyword_recall :: real
  mr_matched :: "string list"
  mr_missed :: "string list"

definition opt_char :: "(char \<Rightarrow> bool) \<Rightarrow> regex" where
  "opt_char p = Rep 0 (Some 1) True p"

definition optional :: "regex \<Rightarrow> regex" where
  "optional r = Alt r Eps"

definition spaces :: regex where
  "spaces = Plus is_space"

fun alts :: "regex list \<Rightarrow> regex" where
  "alts [] = Cls (\<lambda>_. False)"
| "alts [r] = r"
| "alts (r # rs) = Alt r (alts rs)"

definition normalize :: "string \<Rightarrow> string" where
  "normalize t =
     (let kept = re_sub (Cls (\<lambda>c. \<not> is_word c \<and> \<not> is_space c \<and> c \<notin> set ''%.$,/-'')) [] (py_strip (py_lower t))
      in re_sub spaces '' '' kept)"

definition amount_re :: regex where
  "amount_re = seqs [optional (Seq (Lit ''USD'') (Star is_space)), opt_char (\<lambda>c. c = CHR ''$''), Cls is_digit,
     Star (\<lambda>c. is_digit c \<or> c = CHR '',''), opt_char (\<lambda>c. c = CHR ''.''), Star is_digit,
     opt_char (\<lambda>c. c \<in> set ''MBKmk''), opt_char (\<lambda>c. c = CHR ''%'')]"

definition percent_re :: regex where
  "percent_re = seqs [Plus is_digit, opt_char (\<lambda>c. c = CHR ''.''), Star is_digit, Lit ''%'']"

definition stop_words :: "string list" where
  "stop_words = [''the'', ''and'', ''was'', ''were'', ''for'', ''from'', ''with'', ''that'', ''this'',
     ''has'', ''have'', ''had'', ''are'', ''but'', ''not'', ''also'', ''its'', ''than'',
     ''compared'', ''which'', ''while'', ''about'', ''over'', ''each'', ''due'']"

definition extract_keywords :: "string \<Rightarrow> string list" where
  "extract_keywords t = remdups
     (map normalize (re_findall amount_re t) @ re_findall percent_re t
      @ filter (\<lambda>w. w \<notin> set stop_words) (map py_lower (re_findall (Rep 3 None True is_letter) t)))"

definition check_match :: "string \<Rightarrow> string \<Rightarrow> match_result" where
  "check_match actual expected =
     (let norm_actual = normalize actual; norm_expected = normalize expected;
          actual_tokens = set (py_split norm_actual); expected_tokens = set (py_split norm_expected);
          fuzzy = (if expected_tokens \<noteq> {} then real (card (actual_tokens \<inter> expected_tokens)) / real (max (card expected_tokens) 1)
                   else if actual_tokens = {} then 1 else 0);
          expected_kw = extract_keywords expected; actual_kw = extract_keywords actual;
          matched = sort (filter (\<lambda>k. k \<in> set actual_kw) expected_kw);
          missed = sort (filter (\<lambda>k. k \<notin> set actual_kw) expected_kw)
      in \<lparr>mr_exact = (norm_actual = norm_expected), mr_fuzzy = min fuzzy 1,
          mr_keyword_recall = real (length matched) / real (max (length expected_kw) 1),
          mr_matched = matched, mr_missed = missed\<rparr>)"

definition lits :: "string list \<Rightarrow> regex" where
  "lits ws = alts (map Lit ws)"

definition refusal_patterns :: "regex list" where
  "refusal_patterns = [
     seqs [optional (Seq (Lit ''i'') spaces),
       alts [Lit ''cannot'', Lit (''can'' @ [CHR 0x27] @ ''t''), Lit (''don'' @ [CHR 0x27] @ ''t''), Lit ''do not''], spaces,
       lits [''find'', ''determine'', ''answer'', ''provide'', ''confirm'']],
     seqs [Lit ''not'', spaces, lits [''available'', ''mentioned'', ''stated'', ''provided'', ''included'', ''present''], spaces, Lit ''in''],
     seqs [lits [''no'', ''insufficient''], spaces, lits [''information'', ''data'', ''evidence'', ''details'']],
     seqs [optional (Seq (Lit ''the'') spaces), lits [''report'', ''document'', ''corpus'', ''context''], spaces, Lit ''does'', spaces,
       Lit ''not'', spaces, lits [''contain'', ''mention'', ''include'', ''provide'', ''state'']],
     seqs [Lit ''unable'', spaces, Lit ''to'', spaces, lits [''determine'', ''answer'', ''find'', ''provide'']],
     seqs [lits [''beyond'', ''outside''], spaces, optional (Seq (Lit ''the'') spaces),
       alts [Lit ''scope'', seqs [Lit ''available'', spaces, Lit ''data''], seqs [Lit ''provided'', spaces, Lit ''context'']]],
     seqs [Lit ''this'', spaces, lits [''information'', ''data''], spaces, Lit ''is'', spaces, Lit ''not'']]"

definition check_refusal :: "string \<Rightarrow> bool" where
  "check_refusal actual = list_ex (\<lambda>p. re_found p (py_lower actual)) refusal_patterns"

subsection \<open>Groundedness (groundedness.py)\<close>

record groundedness_result =
  gr_score :: real
  gr_supported :: nat
  gr_total :: nat
  gr_unsupported :: "string list"

text \<open>\<open>re.split\<close> at white space that follows a full stop, an exclamation or a question mark.\<close>

function split_at_stops :: "char option \<Rightarrow> string \<Rightarrow> string \<Rightarrow> string list" where
  "split_at_stops prev acc [] = [acc]"
| "split_at_stops prev acc (c # cs) =
     (if is_space c \<and> (case prev of Some p \<Rightarrow> p \<in> set ''.!?'' | None \<Rightarrow> False)
      then acc # split_at_stops (Some c) [] (dropWhile is_space cs)
      else split_at_stops (Some c) (acc @ [c]) cs)"
  by pat_completeness auto
termination by (relation "measure (\<lambda>(_, _, s). length s)") (auto simp: le_imp_less_Suc length_dropWhile_le)

definition fact_re :: regex where
  "fact_re = alts [Cls is_digit, Lit ''%'', Lit ''$'', Lit ''USD'', Lit ''EUR'', Seq (Lit ''Q'') (Cls (\<lambda>c. c \<in> set ''1234''))]"

definition is_claim :: "string \<Rightarrow> bool" where
  "is_claim s \<longleftrightarrow> s \<noteq> [] \<and> (re_found fact_re s \<or> 5 \<le> length (py_split s))"

definition extract_claims :: "string \<Rightarrow> string list" where
  "extract_claims t =
     (let claims = filter is_claim (map py_strip (split_at_stops None [] (py_strip t)))
      in if claims = [] then [py_strip t] else claims)"

definition word_tokens :: "string \<Rightarrow> string set" where
  "word_tokens t = set (re_findall (Plus is_word) (py_lower t))"

definition claim_supported :: "string set \<Rightarrow> real \<Rightarrow> string \<Rightarrow> bool" where
  "claim_supported context_tokens threshold claim =
     (let claim_tokens = word_tokens claim
      in claim_tokens = {} \<or> threshold \<le> real (card (claim_tokens \<inter> context_tokens)) / real (card claim_tokens))"

definition check_groundedness :: "string \<Rightarrow> string list \<Rightarrow> real \<Rightarrow> groundedness_result" where
  "check_groundedness answer chunks threshold =
     (let claims = extract_claims answer; total = length claims
      in if chunks = [] then \<lparr>gr_score = 0, gr_supported = 0, gr_total = total, gr_unsupported = claims\<rparr>
         else (let ok = claim_supported (word_tokens (py_join '' '' chunks)) threshold;
                   supported = length (filter ok claims)
               in \<lparr>gr_score = (if 0 < total then real supported / real total else 0), gr_supported = supported, gr_total = total,
                   gr_unsupported = filter (\<lambda>c. \<not> ok c) claims\<rparr>))"

subsection \<open>Schema conformance (schema\_conformance.py)\<close>

text \<open>The messages of a validation error are \<open>msgs\<close>.\<close>

definition check_plan_conformance ::
  "(json \<Rightarrow> json \<Rightarrow> bool) \<Rightarrow> (string \<Rightarrow> string) \<Rightarrow> (string \<Rightarrow> string list) \<Rightarrow> json \<Rightarrow> bool \<times> string list" where
  "check_plan_conformance py_eq py_repr msgs raw =
     (case or_plan py_eq py_repr raw of Inr _ \<Rightarrow> (True, []) | Inl e \<Rightarrow> (False, msgs e))"

definition check_graph_plan_conformance :: "(string \<Rightarrow> string list) \<Rightarrow> json \<Rightarrow> bool \<times> string list" where
  "check_graph_plan_conformance msgs raw =
     (case parse_plan raw of Some _ \<Rightarrow> (True, []) | None \<Rightarrow> (False, msgs ''ExecutionPlan''))"

subsection \<open>Bounds of the ranking metrics\<close>

definition found :: "string list \<Rightarrow> string set \<Rightarrow> nat" where
  "found cs relevant = length (filter (\<lambda>c. c \<in> relevant) cs)"

lemma found_card:
  assumes "distinct cs" and "finite relevant" shows "found cs relevant \<le> card relevant"
proof -
  have "found cs relevant = card (set cs \<inter> relevant)"
    using assms(1) by (simp add: found_def distinct_length_filter Int_commute)
  also have "\<dots> \<le> card relevant" by (rule card_mono) (use assms(2) in auto)
  finally show ?thesis .
qed

lemma gain_pos: "1 \<le> i \<Longrightarrow> 0 < 1 / log 2 (real (i + 1))"
  by (simp add: zero_less_log_cancel_iff)

lemma gain_antimono: "1 \<le> i \<Longrightarrow> i \<le> j \<Longrightarrow> 1 / log 2 (real (j + 1)) \<le> 1 / log 2 (real (i + 1))"
  by (rule divide_left_mono) (simp_all add: zero_less_log_cancel_iff)

lemma dcg_from_nonneg: "1 \<le> i \<Longrightarrow> 0 \<le> dcg_from i cs relevant"
proof (induction cs arbitrary: i)
  case (Cons c cs)
  then show ?case using gain_pos [of i] by (auto intro!: add_nonneg_nonneg)
qed simp

lemma dcg_from_snoc:
  "dcg_from i (cs @ [c]) relevant = dcg_from i cs relevant
     + (if c \<in> relevant then 1 / log 2 (real (i + length cs + 1)) else 0)"
  by (induction cs arbitrary: i) auto

text \<open>A list's gain is at most that of the same number of hits at the top.\<close>

lemma dcg_le_ideal: "dcg_from 1 cs relevant \<le> ideal_dcg (found cs relevant)"
proof (induction cs rule: rev_induct)
  case (snoc c cs)
  have "found cs relevant \<le> length cs" by (simp add: found_def)
  then have "1 / log 2 (real (length cs + 1 + 1)) \<le> 1 / log 2 (real (found cs relevant + 1 + 1))"
    by (intro gain_antimono) auto
  with snoc show ?case by (auto simp: dcg_from_snoc found_def ideal_dcg_def add.commute)
qed (simp add: found_def ideal_dcg_def)

lemma ideal_dcg_mono: "m \<le> n \<Longrightarrow> ideal_dcg m \<le> ideal_dcg n"
  unfolding ideal_dcg_def by (rule sum_mono2) (auto intro: less_imp_le gain_pos)

lemma ideal_dcg_pos: "0 < n \<Longrightarrow> 0 < ideal_dcg n"
  unfolding ideal_dcg_def by (rule sum_pos) (auto intro: gain_pos)

lemma slice_to_take: "0 \<le> k \<Longrightarrow> slice_to xs k = take (nat k) xs"
  by (simp add: slice_to_def)

lemma nat_min_int: "0 \<le> k \<Longrightarrow> nat (min (int a) k) = min a (nat k)"
  by (auto simp: min_def)

lemma reciprocal_from_bounds: "1 \<le> i \<Longrightarrow> 0 \<le> reciprocal_from i cs relevant \<and> reciprocal_from i cs relevant \<le> 1 / real i"
proof (induction cs arbitrary: i)
  case (Cons c cs)
  have "reciprocal_from (i + 1) cs relevant \<le> 1 / real (i + 1)" "0 \<le> reciprocal_from (i + 1) cs relevant"
    using Cons.IH [of "i + 1"] by simp_all
  moreover have "1 / real (i + 1) \<le> 1 / real i" using Cons.prems by (simp add: frac_le)
  ultimately show ?case by auto
qed simp

lemma dcg_from_append: "dcg_from i (xs @ ys) relevant = dcg_from i xs relevant + dcg_from (i + length xs) ys relevant"
  by (induction xs arbitrary: i) auto

lemma dcg_from_none: "set cs \<inter> relevant = {} \<Longrightarrow> dcg_from i cs relevant = 0"
  by (induction cs arbitrary: i) auto

lemma dcg_from_all: "set cs \<subseteq> relevant \<Longrightarrow> dcg_from 1 cs relevant = ideal_dcg (length cs)"
  by (induction cs rule: rev_induct) (auto simp: dcg_from_snoc ideal_dcg_def add.commute)

lemma dcg_perfect:
  assumes "distinct retrieved" and "finite relevant" and "relevant \<subseteq> set (take (card relevant) retrieved)"
  shows "dcg_from 1 (take m retrieved) relevant = ideal_dcg (min (card relevant) m)"
proof -
  let ?top = "take (card relevant) retrieved" and ?rest = "drop (card relevant) retrieved"
  have "card (set ?top) \<le> card relevant" by (rule order_trans [OF card_length]) simp
  then have top: "set ?top = relevant" using assms(2,3) by (metis card_seteq finite_set)
  then have len: "length ?top = card relevant" using assms(1) by (metis distinct_card distinct_take)
  have rest: "set ?rest \<inter> relevant = {}"
  proof -
    have "distinct (?top @ ?rest)" using assms(1) by simp
    then have "set ?top \<inter> set ?rest = {}" by (simp only: distinct_append)
    with top show ?thesis by blast
  qed
  have "take m retrieved = take m ?top @ take (m - card relevant) ?rest"
    by (metis append_take_drop_id len take_append)
  moreover have "set (take m ?top) \<subseteq> relevant" using top set_take_subset by fastforce
  moreover have "set (take (m - card relevant) ?rest) \<inter> relevant = {}" using rest set_take_subset by fastforce
  ultimately show ?thesis using dcg_from_all [of "take m ?top" relevant] len
    by (simp add: dcg_from_append dcg_from_none min.commute)
qed

text \<open>
  For a result list without repetitions every ranking metric is a proportion: recall at any
  cut-off, reciprocal rank, nDCG and precision lie between 0 and 1, recall grows with the cut-off,
  and the clipping in nDCG never acts: the gain of a ranking is at most the ideal gain. nDCG is 1 when
  the relevant documents come first.
\<close>

theorem ranking_metrics_bounded:
  assumes "distinct retrieved" and "0 < k" and "k \<le> k'"
  shows "recall_at_k retrieved (set relevant) k \<in> {0..1}
    \<and> recall_at_k retrieved (set relevant) k \<le> recall_at_k retrieved (set relevant) k'
    \<and> reciprocal_rank retrieved (set relevant) \<in> {0..1} \<and> context_precision retrieved (set relevant) \<in> {0..1}
    \<and> ndcg_at_k retrieved (set relevant) k \<in> {0..1}
    \<and> (set relevant \<noteq> {} \<longrightarrow> ndcg_at_k retrieved (set relevant) k
         = dcg_at_k retrieved (set relevant) k / ideal_dcg (nat (min (int (card (set relevant))) k)))
    \<and> (set relevant \<subseteq> set (take (card (set relevant)) retrieved) \<longrightarrow> ndcg_at_k retrieved (set relevant) k = 1)"
proof -
  let ?rel = "set relevant" and ?n = "nat (min (int (card (set relevant))) k)"
  have cut: "found (take m retrieved) ?rel \<le> min (card ?rel) m" for m
    using found_card [of "take m retrieved" ?rel] assms(1) by (auto simp: found_def intro: order_trans [OF length_filter_le])
  have recall: "recall_at_k retrieved ?rel j \<in> {0..1}" if "0 < j" for j
    using cut [of "nat j"] that by (auto simp: recall_at_k_def slice_to_take found_def divide_le_eq_1 card_gt_0_iff)
  have mono: "recall_at_k retrieved ?rel k \<le> recall_at_k retrieved ?rel k'"
  proof -
    have "take (nat k') retrieved = take (nat k) retrieved @ take (nat k' - nat k) (drop (nat k) retrieved)"
      using assms(3) by (metis le_add_diff_inverse nat_mono take_add)
    then show ?thesis using assms(2,3) by (auto simp: recall_at_k_def slice_to_take intro!: divide_right_mono)
  qed
  have dcg: "0 \<le> dcg_at_k retrieved ?rel k" "dcg_at_k retrieved ?rel k \<le> ideal_dcg ?n"
  proof -
    show "0 \<le> dcg_at_k retrieved ?rel k" by (simp add: dcg_at_k_def dcg_from_nonneg)
    have "found (take (nat k) retrieved) ?rel \<le> ?n" using cut [of "nat k"] assms(2) by (simp add: nat_min_int)
    from order_trans [OF dcg_le_ideal ideal_dcg_mono [OF this]]
    show "dcg_at_k retrieved ?rel k \<le> ideal_dcg ?n" using assms(2) by (simp add: dcg_at_k_def slice_to_take)
  qed
  have empty: "?rel = {} \<Longrightarrow> ndcg_at_k retrieved ?rel k = 1"
    using dcg assms(2) by (simp add: ndcg_at_k_def ideal_dcg_def)
  have ideal: "0 < ideal_dcg ?n" if "?rel \<noteq> {}"
    using that assms(2) by (intro ideal_dcg_pos) (simp add: card_gt_0_iff)
  have exact: "ndcg_at_k retrieved ?rel k = dcg_at_k retrieved ?rel k / ideal_dcg ?n" if "?rel \<noteq> {}"
    using ideal [OF that] dcg by (simp add: ndcg_at_k_def Let_def min_def divide_le_eq_1)
  have perfect: "ndcg_at_k retrieved ?rel k = 1" if "?rel \<subseteq> set (take (card ?rel) retrieved)"
  proof (cases "?rel = {}")
    case False
    have "dcg_at_k retrieved ?rel k = ideal_dcg ?n"
      using dcg_perfect [OF assms(1) _ that, of "nat k"] assms(2) by (simp add: dcg_at_k_def slice_to_take nat_min_int)
    with exact [OF False] ideal [OF False] show ?thesis by simp
  qed (rule empty)
  have "ndcg_at_k retrieved ?rel k \<in> {0..1}"
  proof (cases "?rel = {}")
    case False
    with exact ideal dcg show ?thesis by (simp add: divide_le_eq_1)
  qed (use empty in simp)
  moreover have "reciprocal_rank retrieved ?rel \<in> {0..1}" using reciprocal_from_bounds [of 1] by (simp add: reciprocal_rank_def)
  moreover have "context_precision retrieved ?rel \<in> {0..1}" by (auto simp: context_precision_def divide_le_eq_1)
  ultimately show ?thesis using recall [OF assms(2)] mono exact perfect by blast
qed

lemma ranking_metrics_bounded_witness:
  "recall_at_k [''b'', ''a''] (set [''a'']) 1 \<in> {0..1}
    \<and> recall_at_k [''b'', ''a''] (set [''a'']) 1 \<le> recall_at_k [''b'', ''a''] (set [''a'']) 2"
  using ranking_metrics_bounded [of "[''b'', ''a'']" 1 2 "[''a'']"] by simp

text \<open>
  The retriever may return a document twice; recall then counts it twice and leaves the range.
\<close>

lemma recall_exceeds_one: "recall_at_k [''a'', ''a''] {''a''} 3 = 2"
  by (simp add: recall_at_k_def slice_to_def)

subsection \<open>Bounds of the Wilson interval\<close>

lemma sqrt_dominates:
  fixes x y :: real
  assumes "x\<^sup>2 \<le> y" shows "x \<le> sqrt y"
  using assms real_le_rsqrt by blast

text \<open>With \<open>a = z\<^sup>2 / n\<close>: the half-width squared exceeds the squared distance of the centre from the scaled proportion.\<close>

lemma wilson_brackets:
  fixes p a :: real
  assumes "0 \<le> p" and "p \<le> 1" and "0 \<le> a"
  shows "p + a / 2 - sqrt (a * (p * (1 - p) + a / 4)) \<le> p * (1 + a)"
    and "p * (1 + a) \<le> p + a / 2 + sqrt (a * (p * (1 - p) + a / 4))"
proof -
  have "0 \<le> a * (p * (1 - p)) * (1 + a)" using assms by (intro mult_nonneg_nonneg) auto
  moreover have "a * (p * (1 - p) + a / 4) - (a * (1 / 2 - p))\<^sup>2 = a * (p * (1 - p)) * (1 + a)"
    by (simp add: power2_eq_square field_simps)
  ultimately have sq: "(a * (1 / 2 - p))\<^sup>2 \<le> a * (p * (1 - p) + a / 4)" by linarith
  then have "(a * (p - 1 / 2))\<^sup>2 \<le> a * (p * (1 - p) + a / 4)" by (simp add: power2_eq_square algebra_simps)
  with sq have "a * (1 / 2 - p) \<le> sqrt (a * (p * (1 - p) + a / 4))" "a * (p - 1 / 2) \<le> sqrt (a * (p * (1 - p) + a / 4))"
    by (auto intro: sqrt_dominates)
  then show "p + a / 2 - sqrt (a * (p * (1 - p) + a / 4)) \<le> p * (1 + a)"
    and "p * (1 + a) \<le> p + a / 2 + sqrt (a * (p * (1 - p) + a / 4))"
    by (simp_all add: algebra_simps)
qed

lemma wilson_lower_nonneg:
  fixes p a :: real
  assumes "0 \<le> p" and "0 \<le> a"
  shows "sqrt (a * (p * (1 - p) + a / 4)) \<le> p + a / 2"
proof (rule real_le_lsqrt)
  have "0 \<le> p\<^sup>2 * (1 + a)" using assms by simp
  moreover have "(p + a / 2)\<^sup>2 - a * (p * (1 - p) + a / 4) = p\<^sup>2 * (1 + a)"
    by (simp add: power2_eq_square field_simps)
  ultimately show "a * (p * (1 - p) + a / 4) \<le> (p + a / 2)\<^sup>2" by linarith
qed (use assms in auto)

lemma wilson_upper_le:
  fixes p a :: real
  assumes "p \<le> 1" and "0 \<le> a"
  shows "p + a / 2 + sqrt (a * (p * (1 - p) + a / 4)) \<le> 1 + a"
  using wilson_lower_nonneg [of "1 - p" a] assms by (simp add: algebra_simps)

lemma wilson_spread:
  fixes z n p :: real
  assumes "0 < z" and "0 < n"
  shows "z * sqrt ((p * (1 - p) + z * z / (4 * n)) / n) = sqrt ((z * z / n) * (p * (1 - p) + (z * z / n) / 4))"
proof -
  have "z * sqrt r = sqrt (z * z * r)" for r using assms(1) by (simp add: real_sqrt_mult)
  then show ?thesis using assms(2) by (simp add: field_simps)
qed

lemma z_score_pos: "z_score confidence = Inr z \<Longrightarrow> 0 < z"
  by (auto simp: z_score_def split: if_splits)

lemma wilson_ci_value:
  assumes "0 \<le> successes" and "successes \<le> n" and "0 < n" and "z_score confidence = Inr z"
  defines "p \<equiv> real_of_int successes / of_int n" and "a \<equiv> z * z / of_int n"
  defines "s \<equiv> sqrt (a * (p * (1 - p) + a / 4))"
  shows "wilson_ci successes n confidence =
    Inr \<lparr>wi_proportion = p, wi_lower = (p + a / 2 - s) / (1 + a), wi_upper = (p + a / 2 + s) / (1 + a),
      wi_n = n, wi_successes = successes, wi_z = z\<rparr>"
proof -
  have z: "0 < z" by (rule z_score_pos [OF assms(4)])
  have n: "0 < real_of_int n" using assms(3) by simp
  have p: "0 \<le> p" "p \<le> 1" using assms(1-3) by (simp_all add: p_def divide_le_eq_1)
  have a: "0 \<le> a" using n by (simp add: a_def)
  have half: "z * z / (2 * of_int n) = a / 2" by (simp add: a_def)
  have "0 \<le> p * (1 - p) + z * z / (4 * of_int n)" using p n by (intro add_nonneg_nonneg mult_nonneg_nonneg) auto
  then have radicand: "\<not> (p * (1 - p) + z * z / (4 * of_int n)) / of_int n < 0"
    using n by (simp add: not_less)
  have lower: "max 0 ((p + a / 2 - s) / (1 + a)) = (p + a / 2 - s) / (1 + a)"
    using wilson_lower_nonneg [OF p(1) a] a by (simp add: s_def max_def)
  have upper: "min 1 ((p + a / 2 + s) / (1 + a)) = (p + a / 2 + s) / (1 + a)"
    using wilson_upper_le [OF p(2) a] a by (simp add: s_def min_def divide_le_eq_1)
  have spread: "z * sqrt ((p * (1 - p) + z * z / (4 * of_int n)) / of_int n) = s"
    unfolding s_def a_def by (rule wilson_spread [OF z n])
  show ?thesis
    using assms(3,4) radicand unfolding wilson_ci_def Let_def p_def [symmetric]
    by (simp add: half spread lower upper a_def [symmetric])
qed

lemma wilson_ci_bounds:
  assumes "0 \<le> successes" and "successes \<le> n" and "0 < n" and "z_score confidence = Inr z"
  shows "\<exists>w. wilson_ci successes n confidence = Inr w \<and> wi_proportion w = of_int successes / of_int n
    \<and> 0 \<le> wi_lower w \<and> wi_lower w \<le> wi_proportion w \<and> wi_proportion w \<le> wi_upper w \<and> wi_upper w \<le> 1"
proof -
  define p where "p = real_of_int successes / of_int n"
  define a where "a = z * z / of_int n"
  define s where "s = sqrt (a * (p * (1 - p) + a / 4))"
  note w = wilson_ci_value [OF assms, folded p_def a_def, folded s_def]
  have p: "0 \<le> p" "p \<le> 1" using assms(1-3) by (simp_all add: p_def divide_le_eq_1)
  have a: "0 \<le> a" using assms(3) by (simp add: a_def)
  have "0 \<le> (p + a / 2 - s) / (1 + a)" using wilson_lower_nonneg [OF p(1) a] a by (simp add: s_def)
  moreover have "(p + a / 2 - s) / (1 + a) \<le> p" "p \<le> (p + a / 2 + s) / (1 + a)"
    using wilson_brackets [OF p a] a by (simp_all add: s_def pos_divide_le_eq pos_le_divide_eq)
  moreover have "(p + a / 2 + s) / (1 + a) \<le> 1" using wilson_upper_le [OF p(2) a] a by (simp add: s_def divide_le_eq_1)
  ultimately show ?thesis using w by (simp add: p_def [symmetric])
qed

text \<open>
  On a sample of n > 0 with a supported confidence level the Wilson interval exists, lies in
  [0, 1] without its clipping ever acting (the bounds are the formula's own), brackets the observed
  proportion, and mirrors: failures get the interval of successes reflected at one half.
\<close>

theorem wilson_interval_sound:
  assumes "0 \<le> successes" and "successes \<le> n" and "0 < n" and "z_score confidence = Inr z"
  shows "\<exists>w w'. wilson_ci successes n confidence = Inr w \<and> wilson_ci (n - successes) n confidence = Inr w'
    \<and> wi_proportion w = of_int successes / of_int n
    \<and> 0 \<le> wi_lower w \<and> wi_lower w \<le> wi_proportion w \<and> wi_proportion w \<le> wi_upper w \<and> wi_upper w \<le> 1
    \<and> wi_lower w + wi_upper w = (2 * wi_proportion w + z * z / of_int n) / (1 + z * z / of_int n)
    \<and> wi_lower w' = 1 - wi_upper w \<and> wi_upper w' = 1 - wi_lower w"
proof -
  define p where "p = real_of_int successes / of_int n"
  define a where "a = z * z / of_int n"
  define s where "s = sqrt (a * (p * (1 - p) + a / 4))"
  have a: "0 \<le> a" using assms(3) by (simp add: a_def)
  have mirror: "real_of_int (n - successes) / of_int n = 1 - p"
    using assms(3) by (simp add: p_def diff_divide_distrib)
  have s': "sqrt (a * ((1 - p) * (1 - (1 - p)) + a / 4)) = s" by (simp add: s_def mult.commute)
  note w = wilson_ci_value [OF assms, folded p_def a_def, folded s_def]
  have w': "wilson_ci (n - successes) n confidence =
    Inr \<lparr>wi_proportion = 1 - p, wi_lower = (1 - p + a / 2 - s) / (1 + a), wi_upper = (1 - p + a / 2 + s) / (1 + a),
      wi_n = n, wi_successes = n - successes, wi_z = z\<rparr>"
    using wilson_ci_value [of "n - successes" n confidence z] assms by (simp only: mirror a_def [symmetric] s')
  obtain v where "wilson_ci successes n confidence = Inr v" "wi_proportion v = of_int successes / of_int n"
      "0 \<le> wi_lower v" "wi_lower v \<le> wi_proportion v" "wi_proportion v \<le> wi_upper v" "wi_upper v \<le> 1"
    using wilson_ci_bounds [OF assms] by blast
  moreover have "(1 - p + a / 2 - s) / (1 + a) = 1 - (p + a / 2 + s) / (1 + a)"
    "(1 - p + a / 2 + s) / (1 + a) = 1 - (p + a / 2 - s) / (1 + a)"
    using a by (simp_all add: field_simps)
  moreover have "(p + a / 2 - s) / (1 + a) + (p + a / 2 + s) / (1 + a) = (2 * p + a) / (1 + a)"
    by (simp add: add_divide_distrib [symmetric])
  ultimately show ?thesis using w w' by (auto simp: p_def [symmetric] a_def [symmetric])
qed

lemma wilson_interval_sound_witness:
  "\<exists>w. wilson_ci 3 10 (95 / 100) = Inr w \<and> 0 \<le> wi_lower w \<and> wi_lower w \<le> 3 / 10 \<and> 3 / 10 \<le> wi_upper w \<and> wi_upper w \<le> 1"
  using wilson_interval_sound [of 3 10 "95 / 100" "196 / 100"] by (auto simp: z_score_def)

text \<open>McNemar's correction is not clamped at zero: a tie yields a positive statistic.\<close>

lemma mcnemar_tie: "0 < k \<Longrightarrow> \<exists>r. mcnemar_test (\<lambda>x. x) erfc k k = Inr r \<and> 0 < mc_chi2 r"
  by (simp add: mcnemar_test_def chi2_survival_def Let_def)

end
