(* ===== verification/Evaluator.thy ===== *)
theory Evaluator
  imports Pattern Json Prelude
begin

section \<open>The critic (evaluator.py)\<close>

text \<open>
  \<open>CriticActorEvaluator\<close>: the deterministic check of an output against its contract and the two-pass
  evaluation with a language model as judge. \<open>str\<close> of a dict, \<open>repr\<close> and the truncation of a float
  are arguments (\<open>eval_env\<close>); the judge is an argument that may raise. Last, the contract stated
  without the findings (\<open>meets\<close>) and the verdict it determines.
\<close>

subsection \<open>Contract and verdict\<close>

record contract =
  ct_task_description :: string
  ct_input_constraints :: "(string \<times> json) list"
  ct_actor_output :: json

datatype evaluation_score = PASS | PARTIAL | FAIL

record evaluation_verdict =
  ev_score :: evaluation_score
  ev_passed :: bool
  ev_findings :: "string list"
  ev_revision_notes :: string

definition from_findings :: "string list \<Rightarrow> evaluation_verdict" where
  "from_findings findings =
     (case findings of
        [] \<Rightarrow> \<lparr>ev_score = PASS, ev_passed = True, ev_findings = [], ev_revision_notes = []\<rparr>
      | [f] \<Rightarrow> \<lparr>ev_score = PARTIAL, ev_passed = False, ev_findings = findings, ev_revision_notes = f\<rparr>
      | _ \<Rightarrow> \<lparr>ev_score = FAIL, ev_passed = False, ev_findings = findings, ev_revision_notes = py_join ''; '' findings\<rparr>)"

subsection \<open>Deterministic checks\<close>

datatype eval_error = EvTypeError | EvValueError | EvOverflowError | EvAttributeError

record eval_env =
  ee_str :: "json \<Rightarrow> string"
  ee_repr :: "json \<Rightarrow> string"
  ee_trunc :: "string \<Rightarrow> int option"

text \<open>\<open>int(x)\<close>.\<close>

definition int_of_json :: "eval_env \<Rightarrow> json \<Rightarrow> (eval_error, int) result" where
  "int_of_json env v = (case v of
     JInt n \<Rightarrow> Inr n
   | JBool b \<Rightarrow> Inr (if b then 1 else 0)
   | JFloat l \<Rightarrow> (case ee_trunc env l of Some n \<Rightarrow> Inr n | None \<Rightarrow> Inl EvOverflowError)
   | JStr s \<Rightarrow> (case parse_int s of Some n \<Rightarrow> Inr n | None \<Rightarrow> Inl EvValueError)
   | _ \<Rightarrow> Inl EvTypeError)"

text \<open>What \<open>for x in v\<close> runs over: a string gives its characters, a dict its keys.\<close>

definition loop_items :: "json \<Rightarrow> (eval_error, json list) result" where
  "loop_items v = (case v of
     JArr xs \<Rightarrow> Inr xs
   | JStr s \<Rightarrow> Inr (map (\<lambda>c. JStr [c]) s)
   | JObj kvs \<Rightarrow> Inr (map (\<lambda>(k, _). JStr k) kvs)
   | _ \<Rightarrow> Inl EvTypeError)"

definition output_text :: "eval_env \<Rightarrow> json \<Rightarrow> string" where
  "output_text env out = (case out of JStr s \<Rightarrow> s | _ \<Rightarrow> ee_str env out)"

definition word_re :: regex where
  "word_re = Plus (\<lambda>c. \<not> is_space c)"

definition word_count :: "string \<Rightarrow> int" where
  "word_count txt' = int (length (re_findall word_re txt'))"

definition max_words_check :: "eval_env \<Rightarrow> (string \<times> json) list \<Rightarrow> int \<Rightarrow> (eval_error, string list) result" where
  "max_words_check env cs words =
     (case map_of cs ''max_words'' of
        None \<Rightarrow> Inr []
      | Some v \<Rightarrow>
          (case int_of_json env v of
             Inl e \<Rightarrow> Inl e
           | Inr limit \<Rightarrow> Inr (if limit < words
               then [''Output is '' @ show_int words @ '' words; max allowed is '' @ show_int limit @ ''.''] else [])))"

definition min_words_check :: "eval_env \<Rightarrow> (string \<times> json) list \<Rightarrow> int \<Rightarrow> (eval_error, string list) result" where
  "min_words_check env cs words =
     (case map_of cs ''min_words'' of
        None \<Rightarrow> Inr []
      | Some v \<Rightarrow>
          (case int_of_json env v of
             Inl e \<Rightarrow> Inl e
           | Inr floor' \<Rightarrow> Inr (if words < floor'
               then [''Output is '' @ show_int words @ '' words; minimum required is '' @ show_int floor' @ ''.''] else [])))"

text \<open>The loops over terms; \<open>wanted\<close> tells whether a present term is fine.\<close>

fun term_findings :: "eval_env \<Rightarrow> bool \<Rightarrow> string \<Rightarrow> json list \<Rightarrow> (eval_error, string list) result" where
  "term_findings env wanted txt' [] = Inr []"
| "term_findings env wanted txt' (v # vs) =
     (case v of
        JStr t \<Rightarrow>
          (case term_findings env wanted txt' vs of
             Inl e \<Rightarrow> Inl e
           | Inr found \<Rightarrow> Inr
               ((if str_in (py_lower t) (py_lower txt') = wanted then []
                 else if wanted then [''Required term '' @ ee_repr env v @ '' is absent from the output.'']
                 else [''Forbidden term '' @ ee_repr env v @ '' appears in the output.'']) @ found))
      | _ \<Rightarrow> Inl EvAttributeError)"

definition terms_check ::
  "eval_env \<Rightarrow> (string \<times> json) list \<Rightarrow> string \<Rightarrow> bool \<Rightarrow> string \<Rightarrow> (eval_error, string list) result" where
  "terms_check env cs key wanted txt' =
     (case loop_items (case map_of cs key of Some v \<Rightarrow> v | None \<Rightarrow> JArr []) of
        Inl e \<Rightarrow> Inl e
      | Inr vs \<Rightarrow> term_findings env wanted txt' vs)"

fun field_findings :: "eval_env \<Rightarrow> string list \<Rightarrow> json list \<Rightarrow> (eval_error, string list) result" where
  "field_findings env keys [] = Inr []"
| "field_findings env keys (v # vs) =
     (case v of
        JArr _ \<Rightarrow> Inl EvTypeError
      | JObj _ \<Rightarrow> Inl EvTypeError
      | _ \<Rightarrow>
          (case field_findings env keys vs of
             Inl e \<Rightarrow> Inl e
           | Inr found \<Rightarrow> Inr ((if v \<in> JStr ` set keys then []
               else [''Required field '' @ ee_repr env v @ '' missing from output dict.'']) @ found)))"

definition fields_check :: "eval_env \<Rightarrow> (string \<times> json) list \<Rightarrow> json \<Rightarrow> (eval_error, string list) result" where
  "fields_check env cs out =
     (case out of
        JObj kvs \<Rightarrow>
          (case loop_items (case map_of cs ''required_fields'' of Some v \<Rightarrow> v | None \<Rightarrow> JArr []) of
             Inl e \<Rightarrow> Inl e
           | Inr vs \<Rightarrow> field_findings env (map fst kvs) vs)
      | _ \<Rightarrow> Inr [])"

text \<open>The checks in their order; the first exception ends the evaluation.\<close>

fun collect :: "(eval_error, string list) result list \<Rightarrow> (eval_error, string list) result" where
  "collect [] = Inr []"
| "collect (r # rs) =
     (case r of
        Inl e \<Rightarrow> Inl e
      | Inr found \<Rightarrow> (case collect rs of Inl e \<Rightarrow> Inl e | Inr more' \<Rightarrow> Inr (found @ more')))"

definition evaluate :: "eval_env \<Rightarrow> contract \<Rightarrow> (eval_error, evaluation_verdict) result" where
  "evaluate env c =
     (let out = ct_actor_output c; cs = ct_input_constraints c; txt' = output_text env out; words = word_count txt'
      in case collect [max_words_check env cs words, min_words_check env cs words,
             terms_check env cs ''must_include'' True txt', terms_check env cs ''must_exclude'' False txt',
             fields_check env cs out] of
           Inl e \<Rightarrow> Inl e
         | Inr findings \<Rightarrow> Inr (from_findings findings))"

subsection \<open>Two passes\<close>

record judgement =
  jm_passed :: bool
  jm_findings :: "string list"
  jm_revision_notes :: string

type_synonym 'w judge = "string \<Rightarrow> string \<Rightarrow> 'w \<Rightarrow> (string, judgement) result \<times> 'w"

definition critic_model :: "(string \<Rightarrow> string option) \<Rightarrow> string option \<Rightarrow> string" where
  "critic_model environ model =
     (case model of
        Some (m # rest) \<Rightarrow> m # rest
      | _ \<Rightarrow> (case environ ''CRITIC_MODEL'' of Some m \<Rightarrow> m | None \<Rightarrow> ''google-gla:gemini-2.5-flash''))"

definition judge_prompt :: "eval_env \<Rightarrow> contract \<Rightarrow> string" where
  "judge_prompt env c =
     ''Task: '' @ ct_task_description c @ [CHR 0x0A] @ ''Constraints: '' @ ee_str env (JObj (ct_input_constraints c)) @ [CHR 0x0A]
     @ ''Output to evaluate: '' @ output_text env (ct_actor_output c)"

definition evaluate_with_llm ::
  "eval_env \<Rightarrow> (string \<Rightarrow> string option) \<Rightarrow> 'w judge \<Rightarrow> contract \<Rightarrow> string option \<Rightarrow> 'w
     \<Rightarrow> (eval_error, evaluation_verdict) result \<times> 'w" where
  "evaluate_with_llm env environ judge c model w =
     (case evaluate env c of
        Inl e \<Rightarrow> (Inl e, w)
      | Inr det_verdict \<Rightarrow>
          (if ev_score det_verdict = FAIL then (Inr det_verdict, w)
           else case judge (critic_model environ model) (judge_prompt env c) w of
                  (Inl _, w') \<Rightarrow> (Inr det_verdict, w')
                | (Inr j, w') \<Rightarrow>
                    (if jm_passed j then (Inr (from_findings (ev_findings det_verdict)), w')
                     else (let all_findings = ev_findings det_verdict @ jm_findings j
                             @ (if jm_revision_notes j \<noteq> [] then [jm_revision_notes j] else [])
                       in (Inr (from_findings (if all_findings = [] then [''LLM judge rejected output''] else all_findings)), w')))))"

subsection \<open>The contract without the findings\<close>

record requirements =
  rq_max_words :: "int option"
  rq_min_words :: "int option"
  rq_must_include :: "string list"
  rq_must_exclude :: "string list"
  rq_required_fields :: "string list"

text \<open>Constraints of the documented types.\<close>

definition requires :: "(string \<times> json) list \<Rightarrow> requirements \<Rightarrow> bool" where
  "requires cs rq \<longleftrightarrow> map_of cs ''max_words'' = map_option JInt (rq_max_words rq)
     \<and> map_of cs ''min_words'' = map_option JInt (rq_min_words rq)
     \<and> (\<forall>(key, ts) \<in> {(''must_include'', rq_must_include rq), (''must_exclude'', rq_must_exclude rq),
            (''required_fields'', rq_required_fields rq)}.
          (case map_of cs key of Some v \<Rightarrow> v | None \<Rightarrow> JArr []) = JArr (map JStr ts))"

definition mentions_term :: "string \<Rightarrow> string \<Rightarrow> bool" where
  "mentions_term txt' t = sublist (py_lower t) (py_lower txt')"

definition too_long :: "requirements \<Rightarrow> string \<Rightarrow> bool" where
  "too_long rq txt' \<longleftrightarrow> (\<exists>n. rq_max_words rq = Some n \<and> n < word_count txt')"

definition too_short :: "requirements \<Rightarrow> string \<Rightarrow> bool" where
  "too_short rq txt' \<longleftrightarrow> (\<exists>n. rq_min_words rq = Some n \<and> word_count txt' < n)"

definition lacking_fields :: "requirements \<Rightarrow> json \<Rightarrow> string list" where
  "lacking_fields rq out = (case out of JObj kvs \<Rightarrow> filter (\<lambda>f. f \<notin> fst ` set kvs) (rq_required_fields rq) | _ \<Rightarrow> [])"

definition violations :: "requirements \<Rightarrow> string \<Rightarrow> json \<Rightarrow> nat" where
  "violations rq txt' out = of_bool (too_long rq txt') + of_bool (too_short rq txt')
     + length (filter (\<lambda>t. \<not> mentions_term txt' t) (rq_must_include rq))
     + length (filter (mentions_term txt') (rq_must_exclude rq)) + length (lacking_fields rq out)"

definition meets :: "requirements \<Rightarrow> string \<Rightarrow> json \<Rightarrow> bool" where
  "meets rq txt' out \<longleftrightarrow> \<not> too_long rq txt' \<and> \<not> too_short rq txt'
     \<and> (\<forall>t \<in> set (rq_must_include rq). mentions_term txt' t) \<and> (\<forall>t \<in> set (rq_must_exclude rq). \<not> mentions_term txt' t)
     \<and> (\<forall>kvs. out = JObj kvs \<longrightarrow> set (rq_required_fields rq) \<subseteq> fst ` set kvs)"

lemma from_findings_facts:
  "ev_findings (from_findings fs) = fs" "ev_passed (from_findings fs) \<longleftrightarrow> fs = []"
  "ev_score (from_findings fs) = (if fs = [] then PASS else if length fs = 1 then PARTIAL else FAIL)"
  "ev_revision_notes (from_findings fs) = py_join ''; '' fs"
  by (auto simp: from_findings_def split: list.splits)

lemma term_findings_typed:
  "\<exists>fs. term_findings env wanted txt' (map JStr ts) = Inr fs
     \<and> length fs = length (filter (\<lambda>t. mentions_term txt' t \<noteq> wanted) ts)"
  by (induction ts) (auto simp: mentions_term_def str_in_sublist)

lemma field_findings_typed:
  "\<exists>fs. field_findings env keys (map JStr ts) = Inr fs \<and> length fs = length (filter (\<lambda>f. f \<notin> set keys) ts)"
  by (induction ts) auto

lemma loop_items_arr [simp]: "loop_items (JArr vs) = Inr vs"
  by (simp add: loop_items_def)

lemma violations_none: "violations rq txt' out = 0 \<longleftrightarrow> meets rq txt' out"
  by (auto simp: violations_def meets_def lacking_fields_def filter_empty_conv split: json.splits)

text \<open>
  \<^bold>\<open>C28.\<close> For constraints of the documented types the critic always returns a verdict, with exactly one
  finding per violated requirement: it passes if and only if the output meets every requirement (word
  bounds, terms present and absent regardless of case, fields of a dict), is partial for a single
  violation and fails from two on, and its revision notes are the findings.
\<close>

theorem critic_verdict_correct:
  fixes env :: eval_env
  assumes "requires (ct_input_constraints c) rq"
  defines "txt' \<equiv> output_text env (ct_actor_output c)"
  shows "\<exists>v. evaluate env c = Inr v \<and> length (ev_findings v) = violations rq txt' (ct_actor_output c)
    \<and> (ev_passed v \<longleftrightarrow> meets rq txt' (ct_actor_output c))
    \<and> ev_score v = (if meets rq txt' (ct_actor_output c) then PASS
         else if violations rq txt' (ct_actor_output c) = 1 then PARTIAL else FAIL)
    \<and> ev_revision_notes v = py_join ''; '' (ev_findings v)"
proof -
  let ?cs = "ct_input_constraints c" and ?out = "ct_actor_output c" and ?words = "word_count txt'"
  obtain a where a: "max_words_check env ?cs ?words = Inr a" "length a = of_bool (too_long rq txt')"
    using assms(1) by (cases "rq_max_words rq") (auto simp: requires_def max_words_check_def int_of_json_def too_long_def)
  obtain b where b: "min_words_check env ?cs ?words = Inr b" "length b = of_bool (too_short rq txt')"
    using assms(1) by (cases "rq_min_words rq") (auto simp: requires_def min_words_check_def int_of_json_def too_short_def)
  obtain i where i: "terms_check env ?cs ''must_include'' True txt' = Inr i"
      "length i = length (filter (\<lambda>t. \<not> mentions_term txt' t) (rq_must_include rq))"
    using term_findings_typed [of env True txt' "rq_must_include rq"] assms(1) by (auto simp: requires_def terms_check_def)
  obtain x where x: "terms_check env ?cs ''must_exclude'' False txt' = Inr x"
      "length x = length (filter (mentions_term txt') (rq_must_exclude rq))"
    using term_findings_typed [of env False txt' "rq_must_exclude rq"] assms(1) by (auto simp: requires_def terms_check_def)
  obtain f where f: "fields_check env ?cs ?out = Inr f" "length f = length (lacking_fields rq ?out)"
  proof (cases ?out)
    case (JObj kvs)
    then show ?thesis
      using that field_findings_typed [of env "map fst kvs" "rq_required_fields rq"] assms(1)
      by (auto simp: requires_def fields_check_def lacking_fields_def)
  qed (use that in \<open>auto simp: fields_check_def lacking_fields_def\<close>)
  let ?fs = "a @ b @ i @ x @ f"
  have ev: "evaluate env c = Inr (from_findings ?fs)"
    by (simp add: evaluate_def Let_def txt'_def [symmetric] a b i x f)
  have len: "length ?fs = violations rq txt' ?out" by (simp add: violations_def a b i x f)
  then have "?fs = [] \<longleftrightarrow> meets rq txt' ?out" using violations_none [of rq txt' ?out] by (metis length_0_conv)
  then show ?thesis using ev len by (simp add: from_findings_facts)
qed

lemma critic_verdict_correct_witness:
  "\<exists>v. evaluate \<lparr>ee_str = dumps, ee_repr = dumps, ee_trunc = (\<lambda>_. None)\<rparr>
      \<lparr>ct_task_description = ''t'', ct_input_constraints = [(''must_include'', JArr [JStr ''Q3'']), (''min_words'', JInt 9)],
       ct_actor_output = JStr ''revenue in q3''\<rparr> = Inr v \<and> ev_score v = PARTIAL"
proof -
  let ?rq = "\<lparr>rq_max_words = None, rq_min_words = Some 9, rq_must_include = [''Q3''], rq_must_exclude = [], rq_required_fields = []\<rparr>"
  let ?c = "\<lparr>ct_task_description = ''t'', ct_input_constraints = [(''must_include'', JArr [JStr ''Q3'']), (''min_words'', JInt 9)],
       ct_actor_output = JStr ''revenue in q3''\<rparr>"
  have "word_count ''revenue in q3'' = 3" by code_simp
  moreover have "mentions_term ''revenue in q3'' ''Q3''"
    unfolding mentions_term_def str_in_sublist [symmetric] by code_simp
  ultimately have "violations ?rq ''revenue in q3'' (JStr ''revenue in q3'') = 1"
    by (simp add: violations_def too_long_def too_short_def lacking_fields_def)
  moreover from this have "\<not> meets ?rq ''revenue in q3'' (JStr ''revenue in q3'')"
    by (metis violations_none zero_neq_one)
  ultimately show ?thesis
    using critic_verdict_correct [of ?c ?rq "\<lparr>ee_str = dumps, ee_repr = dumps, ee_trunc = (\<lambda>_. None)\<rparr>"]
    by (auto simp: requires_def output_text_def)
qed

text \<open>
  The judge can only tighten the deterministic verdict: the two-pass evaluation passes if and
  only if the deterministic one does and the judge, unless it fails, accepts; the deterministic
  findings stay first; a failing output is never shown to the judge; and no exception of the judge
  gets out.
\<close>

theorem judge_only_tightens:
  assumes "evaluate env c = Inr d"
    and "judge (critic_model environ model) (judge_prompt env c) w = (opinion, w1)"
  shows "\<exists>v w'. evaluate_with_llm env environ judge c model w = (Inr v, w')
    \<and> (ev_passed v \<longleftrightarrow> ev_passed d \<and> (\<forall>j. opinion = Inr j \<longrightarrow> jm_passed j))
    \<and> prefix (ev_findings d) (ev_findings v)
    \<and> (ev_score d = FAIL \<longrightarrow> v = d \<and> w' = w) \<and> (ev_score d \<noteq> FAIL \<longrightarrow> w' = w1)"
proof -
  have d: "\<exists>fs. d = from_findings fs"
    using assms(1) by (auto simp: evaluate_def Let_def simp del: collect.simps split: sum.splits)
  then show ?thesis
    using assms by (auto simp: evaluate_with_llm_def from_findings_facts Let_def split: sum.splits if_splits)
qed

lemma judge_only_tightens_witness:
  "\<exists>v w'. evaluate_with_llm \<lparr>ee_str = dumps, ee_repr = dumps, ee_trunc = (\<lambda>_. None)\<rparr> (\<lambda>_. None)
      (\<lambda>m p n. (Inr \<lparr>jm_passed = False, jm_findings = [], jm_revision_notes = []\<rparr>, n + 1))
      \<lparr>ct_task_description = ''t'', ct_input_constraints = [], ct_actor_output = JStr ''x''\<rparr> None (0 :: nat) = (Inr v, w')
    \<and> \<not> ev_passed v \<and> w' = 1"
proof -
  let ?env = "\<lparr>ee_str = dumps, ee_repr = dumps, ee_trunc = (\<lambda>_. None)\<rparr>"
  let ?c = "\<lparr>ct_task_description = ''t'', ct_input_constraints = [], ct_actor_output = JStr ''x''\<rparr>"
  let ?judge = "\<lambda>(m :: string) (p :: string) (n :: nat).
      (Inr \<lparr>jm_passed = False, jm_findings = [], jm_revision_notes = []\<rparr> :: (string, judgement) result, n + 1)"
  have "evaluate ?env ?c = Inr (from_findings [])"
    by (simp add: evaluate_def max_words_check_def min_words_check_def terms_check_def fields_check_def)
  from judge_only_tightens [where judge = ?judge and environ = "\<lambda>_. None" and model = None and w = 0, OF this refl]
  show ?thesis by (fastforce simp: from_findings_facts)
qed

text \<open>A contract without constraints accepts every text, and a word limit that is no number raises.\<close>

lemma no_constraints_pass: "ct_input_constraints c = [] \<Longrightarrow> \<exists>v. evaluate env c = Inr v \<and> ev_passed v"
  by (auto simp: evaluate_def max_words_check_def min_words_check_def terms_check_def fields_check_def
      from_findings_def Let_def split: json.splits)

lemma bad_limit_raises:
  "map_of (ct_input_constraints c) ''max_words'' = Some (JStr ''many'') \<Longrightarrow> evaluate env c = Inl EvValueError"
proof -
  assume "map_of (ct_input_constraints c) ''max_words'' = Some (JStr ''many'')"
  moreover have "parse_int ''many'' = None" by code_simp
  ultimately show ?thesis by (simp add: evaluate_def max_words_check_def int_of_json_def Let_def)
qed

end
