(* ===== verification/Adapters.thy ===== *)
theory Adapters
  imports Json Prelude
begin

section \<open>Function-calling adapters (adapters.py)\<close>

text \<open>
  The translation of MCP tool descriptors into the function formats of Claude, OpenAI and Gemini, and
  the factory. A descriptor is a JSON object; a missing name and a schema that is no dict raise. Last,
  what the three formats keep of a descriptor.
\<close>

datatype adapter_error = KeyError string | AttributeError | UnknownProvider string

text \<open>\<open>tool.get(key, default)\<close> and \<open>tool["name"]\<close>.\<close>

definition tool_name :: "json \<Rightarrow> (adapter_error, json) result" where
  "tool_name tool = (case jget tool ''name'' of Some n \<Rightarrow> Inr n | None \<Rightarrow> Inl (KeyError ''name''))"

definition claude_entry :: "json \<Rightarrow> (adapter_error, json) result" where
  "claude_entry tool =
     (let schema = jget_def tool ''inputSchema'' (JObj [])
      in case tool_name tool of
           Inl e \<Rightarrow> Inl e
         | Inr n \<Rightarrow> Inr (JObj [(''name'', n), (''description'', jget_def tool ''description'' (JStr [])), (''input_schema'', schema)]))"

definition openai_entry :: "json \<Rightarrow> (adapter_error, json) result" where
  "openai_entry tool =
     (let schema = jget_def tool ''inputSchema'' (JObj [])
      in case tool_name tool of
           Inl e \<Rightarrow> Inl e
         | Inr n \<Rightarrow> Inr (JObj [(''type'', JStr ''function''),
             (''function'', JObj [(''name'', n), (''description'', jget_def tool ''description'' (JStr [])), (''parameters'', schema)])]))"

text \<open>Gemini: types in upper case, at the top and in the properties, recursively.\<close>

definition type_map :: "(string \<times> string) list" where
  "type_map = [(''string'', ''STRING''), (''number'', ''NUMBER''), (''integer'', ''INTEGER''),
     (''boolean'', ''BOOLEAN''), (''array'', ''ARRAY''), (''object'', ''OBJECT'')]"

definition gemini_type :: "string \<Rightarrow> string" where
  "gemini_type t = (case map_of type_map (py_lower t) of Some u \<Rightarrow> u | None \<Rightarrow> py_upper t)"

fun convert_schema :: "json \<Rightarrow> (adapter_error, json) result"
and convert_items :: "(string \<times> json) list \<Rightarrow> (adapter_error, (string \<times> json) list) result"
and convert_value :: "string \<Rightarrow> json \<Rightarrow> (adapter_error, json) result"
and convert_properties :: "(string \<times> json) list \<Rightarrow> (adapter_error, (string \<times> json) list) result" where
  "convert_schema schema =
     (case schema of
        JObj kvs \<Rightarrow> (case convert_items kvs of Inl e \<Rightarrow> Inl e | Inr converted \<Rightarrow> Inr (JObj converted))
      | _ \<Rightarrow> Inl AttributeError)"
| "convert_items [] = Inr []"
| "convert_items ((key, v) # rest) =
     (case convert_value key v of
        Inl e \<Rightarrow> Inl e
      | Inr v' \<Rightarrow> (case convert_items rest of Inl e \<Rightarrow> Inl e | Inr converted \<Rightarrow> Inr ((key, v') # converted)))"
| "convert_value key v =
     (case v of
        JStr t \<Rightarrow> Inr (JStr (if key = ''type'' then gemini_type t else t))
      | JObj kvs \<Rightarrow>
          (if key = ''properties'' then (case convert_properties kvs of Inl e \<Rightarrow> Inl e | Inr ps \<Rightarrow> Inr (JObj ps)) else Inr v)
      | _ \<Rightarrow> Inr v)"
| "convert_properties [] = Inr []"
| "convert_properties ((k, v) # rest) =
     (case convert_schema v of
        Inl e \<Rightarrow> Inl e
      | Inr v' \<Rightarrow> (case convert_properties rest of Inl e \<Rightarrow> Inl e | Inr ps \<Rightarrow> Inr ((k, v') # ps)))"

definition gemini_entry :: "json \<Rightarrow> (adapter_error, json) result" where
  "gemini_entry tool =
     (let schema = jget_def tool ''inputSchema'' (JObj [])
      in case tool_name tool of
           Inl e \<Rightarrow> Inl e
         | Inr n \<Rightarrow>
             (case convert_schema schema of
                Inl e \<Rightarrow> Inl e
              | Inr ps \<Rightarrow> Inr (JObj [(''name'', n), (''description'', jget_def tool ''description'' (JStr [])), (''parameters'', ps)])))"

fun adapt :: "(json \<Rightarrow> (adapter_error, json) result) \<Rightarrow> json list \<Rightarrow> (adapter_error, json list) result" where
  "adapt entry [] = Inr []"
| "adapt entry (tool # tools) =
     (case entry tool of
        Inl e \<Rightarrow> Inl e
      | Inr x \<Rightarrow> (case adapt entry tools of Inl e \<Rightarrow> Inl e | Inr xs \<Rightarrow> Inr (x # xs)))"

definition adapter_registry :: "(string \<times> (json \<Rightarrow> (adapter_error, json) result)) list" where
  "adapter_registry = [(''claude'', claude_entry), (''openai'', openai_entry), (''gemini'', gemini_entry)]"

definition get_adapter ::
  "(string \<Rightarrow> string) \<Rightarrow> string \<Rightarrow> (adapter_error, json list \<Rightarrow> (adapter_error, json list) result) result" where
  "get_adapter py_repr provider =
     (case map_of adapter_registry (py_lower provider) of
        Some entry \<Rightarrow> Inr (adapt entry)
      | None \<Rightarrow> Inl (UnknownProvider (''Unknown LLM provider: '' @ py_repr provider @ ''. Supported: ['' @
          py_join '', '' (map py_repr (sort (map fst adapter_registry))) @ '']'')))"

subsection \<open>What the formats keep\<close>

lemma upper_lower: "py_upper (py_lower t) = py_upper t" "py_lower (py_upper t) = py_lower t"
  by (auto simp: py_upper_def py_lower_def upper_char_def lower_char_def code_def)

lemma gemini_type_upper: "gemini_type t = py_upper t"
proof -
  have all: "\<forall>(k, u) \<in> set type_map. py_upper k = u" unfolding type_map_def by code_simp
  have hit: "py_upper k = u" if "map_of type_map k = Some u" for k u
    using bspec [OF all map_of_SomeD [OF that]] by simp
  show ?thesis
  proof (cases "map_of type_map (py_lower t)")
    case (Some u)
    then show ?thesis using hit [OF Some] upper_lower(1) [of t] unfolding gemini_type_def by simp
  qed (simp add: gemini_type_def)
qed

text \<open>Reading a declaration back: the same walk with the types in lower case.\<close>

fun lower_schema :: "json \<Rightarrow> json"
and lower_items :: "(string \<times> json) list \<Rightarrow> (string \<times> json) list"
and lower_value :: "string \<Rightarrow> json \<Rightarrow> json"
and lower_properties :: "(string \<times> json) list \<Rightarrow> (string \<times> json) list" where
  "lower_schema schema = (case schema of JObj kvs \<Rightarrow> JObj (lower_items kvs) | _ \<Rightarrow> schema)"
| "lower_items [] = []"
| "lower_items ((key, v) # rest) = (key, lower_value key v) # lower_items rest"
| "lower_value key v =
     (case v of
        JStr t \<Rightarrow> JStr (if key = ''type'' then py_lower t else t)
      | JObj kvs \<Rightarrow> (if key = ''properties'' then JObj (lower_properties kvs) else v)
      | _ \<Rightarrow> v)"
| "lower_properties [] = []"
| "lower_properties ((k, v) # rest) = (k, lower_schema v) # lower_properties rest"

text \<open>An MCP schema: objects whose types, down the properties, are in lower case.\<close>

fun mcp_schema :: "json \<Rightarrow> bool"
and mcp_items :: "(string \<times> json) list \<Rightarrow> bool"
and mcp_value :: "string \<Rightarrow> json \<Rightarrow> bool"
and mcp_properties :: "(string \<times> json) list \<Rightarrow> bool" where
  "mcp_schema schema = (case schema of JObj kvs \<Rightarrow> mcp_items kvs | _ \<Rightarrow> False)"
| "mcp_items [] = True"
| "mcp_items ((key, v) # rest) = (mcp_value key v \<and> mcp_items rest)"
| "mcp_value key v =
     (case v of
        JStr t \<Rightarrow> key = ''type'' \<longrightarrow> py_lower t = t
      | JObj kvs \<Rightarrow> key = ''properties'' \<longrightarrow> mcp_properties kvs
      | _ \<Rightarrow> True)"
| "mcp_properties [] = True"
| "mcp_properties ((k, v) # rest) = (mcp_schema v \<and> mcp_properties rest)"

lemma convert_lossless:
  "mcp_schema s \<Longrightarrow> \<exists>t. convert_schema s = Inr t \<and> lower_schema t = s"
  "mcp_items kvs \<Longrightarrow> \<exists>r. convert_items kvs = Inr r \<and> lower_items r = kvs"
  "mcp_value key v \<Longrightarrow> \<exists>t. convert_value key v = Inr t \<and> lower_value key t = v"
  "mcp_properties ps \<Longrightarrow> \<exists>r. convert_properties ps = Inr r \<and> lower_properties r = ps"
proof (induction s and kvs and key v and ps rule: convert_schema_convert_items_convert_value_convert_properties.induct)
  case (3 key v rest)
  then obtain t where "convert_value key v = Inr t" "lower_value key t = v"
    by (auto simp del: convert_value.simps lower_value.simps mcp_value.simps)
  with 3 show ?case by (auto simp del: convert_value.simps lower_value.simps mcp_value.simps)
next
  case (4 key v)
  then show ?case by (cases v) (auto simp: gemini_type_upper upper_lower)
next
  case (6 k v rest)
  then obtain t where "convert_schema v = Inr t" "lower_schema t = v"
    by (auto simp del: convert_schema.simps lower_schema.simps mcp_schema.simps)
  with 6 show ?case by (auto simp del: convert_schema.simps lower_schema.simps mcp_schema.simps)
qed (auto split: json.splits)

type_synonym descriptor = "json option \<times> json \<times> json"

definition tool_descriptor :: "json \<Rightarrow> descriptor" where
  "tool_descriptor tool = (jget tool ''name'', jget_def tool ''description'' (JStr []), jget_def tool ''inputSchema'' (JObj []))"

definition read_back :: "string \<Rightarrow> json \<Rightarrow> descriptor" where
  "read_back provider out =
     (let body = (if provider = ''openai'' then jget_def out ''function'' JNull else out);
          schema = jget_def body (if provider = ''claude'' then ''input_schema'' else ''parameters'') JNull
      in (jget body ''name'', jget_def body ''description'' JNull, if provider = ''gemini'' then lower_schema schema else schema))"

lemma claude_entry_reads: "jget tool ''name'' \<noteq> None \<Longrightarrow> \<exists>out. claude_entry tool = Inr out \<and> read_back ''claude'' out = tool_descriptor tool"
  by (auto simp: claude_entry_def tool_name_def tool_descriptor_def read_back_def jget_def jget_def_def)

lemma openai_entry_reads: "jget tool ''name'' \<noteq> None \<Longrightarrow> \<exists>out. openai_entry tool = Inr out \<and> read_back ''openai'' out = tool_descriptor tool"
  by (auto simp: openai_entry_def tool_name_def tool_descriptor_def read_back_def jget_def jget_def_def)

lemma gemini_entry_reads:
  assumes "jget tool ''name'' \<noteq> None" and "mcp_schema (jget_def tool ''inputSchema'' (JObj []))"
  shows "\<exists>out. gemini_entry tool = Inr out \<and> read_back ''gemini'' out = tool_descriptor tool"
proof -
  obtain n where n: "jget tool ''name'' = Some n" using assms(1) by auto
  obtain t where "convert_schema (jget_def tool ''inputSchema'' (JObj [])) = Inr t"
      "lower_schema t = jget_def tool ''inputSchema'' (JObj [])"
    using assms(2) convert_lossless(1) by blast
  with n show ?thesis
    by (simp add: gemini_entry_def tool_name_def tool_descriptor_def read_back_def jget_def jget_def_def
        del: convert_schema.simps lower_schema.simps)
qed

lemma adapt_all:
  assumes "\<And>tool. tool \<in> set tools \<Longrightarrow> \<exists>out. entry tool = Inr out \<and> P tool out"
  shows "\<exists>outs. adapt entry tools = Inr outs \<and> list_all2 P tools outs"
  using assms by (induction tools) fastforce+

text \<open>
  \<^bold>\<open>C29.\<close> The adapters lose nothing: for every supported provider, named in any case, and tool descriptors
  with a name and an MCP schema, the adapter answers one declaration per tool, in order, from which the
  name, the description and the whole input schema can be read back; for Gemini after lowering the
  types it put in upper case.
\<close>

theorem adapters_lossless:
  assumes "py_lower provider \<in> {''claude'', ''openai'', ''gemini''}"
    and "\<forall>tool \<in> set tools. jget tool ''name'' \<noteq> None \<and> mcp_schema (jget_def tool ''inputSchema'' (JObj []))"
  shows "\<exists>adapter outs. get_adapter py_repr provider = Inr adapter \<and> adapter tools = Inr outs
    \<and> map (read_back (py_lower provider)) outs = map tool_descriptor tools"
proof -
  let ?p = "py_lower provider"
  obtain entry where entry: "map_of adapter_registry ?p = Some entry"
    using assms(1) by (auto simp: adapter_registry_def)
  have "\<exists>out. entry tool = Inr out \<and> read_back ?p out = tool_descriptor tool" if "tool \<in> set tools" for tool
  proof -
    have tool: "jget tool ''name'' \<noteq> None" "mcp_schema (jget_def tool ''inputSchema'' (JObj []))"
      using assms(2) that by blast+
    consider "?p = ''claude''" "entry = claude_entry" | "?p = ''openai''" "entry = openai_entry" | "?p = ''gemini''" "entry = gemini_entry"
      using assms(1) entry by (auto simp: adapter_registry_def)
    then show ?thesis using claude_entry_reads openai_entry_reads gemini_entry_reads tool by cases (simp_all del: mcp_schema.simps)
  qed
  from adapt_all [of tools entry "\<lambda>tool out. read_back ?p out = tool_descriptor tool", OF this]
  obtain outs where "adapt entry tools = Inr outs" "list_all2 (\<lambda>tool out. read_back ?p out = tool_descriptor tool) tools outs"
    by blast
  then show ?thesis
    using entry by (auto simp: get_adapter_def list_all2_conv_all_nth intro!: nth_equalityI)
qed

lemma adapters_lossless_witness:
  "\<exists>adapter outs. get_adapter (\<lambda>s. s) ''Gemini'' = Inr adapter
    \<and> adapter [JObj [(''name'', JStr ''f''), (''inputSchema'', JObj [(''type'', JStr ''object'')])]] = Inr outs
    \<and> map (read_back ''gemini'') outs = [(Some (JStr ''f''), JStr [], JObj [(''type'', JStr ''object'')])]"
proof -
  have "py_lower ''Gemini'' = ''gemini''" "py_lower ''object'' = ''object''" by code_simp+
  then show ?thesis
    using adapters_lossless [of "''Gemini''" "[JObj [(''name'', JStr ''f''), (''inputSchema'', JObj [(''type'', JStr ''object'')])]]"]
    by (simp add: jget_def jget_def_def tool_descriptor_def)
qed

text \<open>The conversion does not reach the schema of array items.\<close>

lemma items_not_converted:
  "convert_schema (JObj [(''type'', JStr ''array''), (''items'', JObj [(''type'', JStr ''string'')])])
     = Inr (JObj [(''type'', JStr ''ARRAY''), (''items'', JObj [(''type'', JStr ''string'')])])"
proof -
  have "py_upper ''array'' = ''ARRAY''" by code_simp
  then show ?thesis by (simp add: gemini_type_upper)
qed

end
