(* ===== verification/Bridge.thy ===== *)
theory Bridge
  imports Auth Prelude
begin

section \<open>The gateway client (bridge/oauth_middleware.py, gateway_client.py, __main__.py)\<close>

text \<open>
  The OAuth middleware with its token cache, the client of the gateway and the choice of credentials
  of the command-line entry. The HTTP library is the record \<open>http_client\<close>: a request gives an
  exception or a status with the text of the body (a stream: its lines). \<open>be_time\<close> is \<open>time.time()\<close>
  in a world; log lines are not modelled.
\<close>

datatype bridge_error =
    HttpError string
  | HTTPStatusError nat
  | BrJSONDecodeError
  | BrKeyError string
  | BrTypeError
  | BrAttributeError
  | BrRuntimeError string
  | BrAuth auth_error

type_synonym headers = "(string \<times> string) list"

record 'w http_client =
  hc_post :: "string \<Rightarrow> string \<Rightarrow> headers \<Rightarrow> json \<Rightarrow> 'w \<Rightarrow> (string, nat \<times> string) result \<times> 'w"
  hc_stream :: "string \<Rightarrow> string \<Rightarrow> headers \<Rightarrow> 'w \<Rightarrow> (string, nat \<times> string list) result \<times> 'w"

record 'w bridge_env =
  be_http :: "'w http_client"
  be_time :: "'w \<Rightarrow> real"
  be_str :: "json \<Rightarrow> string"
  be_float :: "string \<Rightarrow> real"

type_synonym 'w token_factory = "'w \<Rightarrow> (bridge_error, json \<times> real) result \<times> 'w"

text \<open>\<open>int(time.time())\<close>.\<close>

definition int_time :: "'w bridge_env \<Rightarrow> 'w \<Rightarrow> int" where
  "int_time env w = \<lfloor>be_time env w\<rfloor>"

text \<open>\<open>url.rstrip("/")\<close>.\<close>

definition rstrip_slash :: "string \<Rightarrow> string" where
  "rstrip_slash url = rev (dropWhile (\<lambda>c. c = CHR ''/'') (rev url))"

text \<open>\<open>resp.raise_for_status()\<close> followed by \<open>resp.json()\<close>.\<close>

definition json_answer :: "(string, nat \<times> string) result \<Rightarrow> (bridge_error, json) result" where
  "json_answer answer =
     (case answer of
        Inl e \<Rightarrow> Inl (HttpError e)
      | Inr (status, body) \<Rightarrow>
          (if status < 200 \<or> 300 \<le> status then Inl (HTTPStatusError status)
           else case loads body of None \<Rightarrow> Inl BrJSONDecodeError | Some v \<Rightarrow> Inr v))"

text \<open>\<open>body[key]\<close>.\<close>

definition item :: "json \<Rightarrow> string \<Rightarrow> (bridge_error, json) result" where
  "item body key =
     (case body of
        JObj kvs \<Rightarrow> (case map_of kvs key of Some v \<Rightarrow> Inr v | None \<Rightarrow> Inl (BrKeyError key))
      | _ \<Rightarrow> Inl BrTypeError)"

subsection \<open>The OAuth middleware\<close>

text \<open>The value added to \<open>int(time.time())\<close>.\<close>

definition seconds :: "'w bridge_env \<Rightarrow> json \<Rightarrow> (bridge_error, real) result" where
  "seconds env v =
     (case v of
        JInt n \<Rightarrow> Inr (of_int n)
      | JBool b \<Rightarrow> Inr (of_bool b)
      | JFloat l \<Rightarrow> Inr (be_float env l)
      | _ \<Rightarrow> Inl BrTypeError)"

definition token_answer :: "'w bridge_env \<Rightarrow> int \<Rightarrow> json \<Rightarrow> (bridge_error, json \<times> real) result" where
  "token_answer env now data =
     (case data of
        JObj kvs \<Rightarrow>
          (case seconds env (case map_of kvs ''expires_in'' of Some v \<Rightarrow> v | None \<Rightarrow> JInt 3600) of
             Inl e \<Rightarrow> Inl e
           | Inr n \<Rightarrow>
               (case map_of kvs ''access_token'' of
                  Some t \<Rightarrow> Inr (t, of_int now + n)
                | None \<Rightarrow> Inl (BrKeyError ''access_token'')))
      | _ \<Rightarrow> Inl BrAttributeError)"

definition client_credentials_factory :: "'w bridge_env \<Rightarrow> string \<Rightarrow> string \<Rightarrow> string \<Rightarrow> string \<Rightarrow> 'w token_factory" where
  "client_credentials_factory env auth_server_url client_id client_secret scope w =
     (case hc_post (be_http env) [] (rstrip_slash auth_server_url @ ''/token'') []
             (JObj [(''grant_type'', JStr ''client_credentials''), (''client_id'', JStr client_id),
                    (''client_secret'', JStr client_secret), (''scope'', JStr scope)]) w of
        (answer, w') \<Rightarrow>
          (case json_answer answer of
             Inl e \<Rightarrow> (Inl e, w')
           | Inr data \<Rightarrow> (token_answer env (int_time env w') data, w')))"

record 'w middleware =
  om_factory :: "'w token_factory"
  om_token :: json
  om_expires_at :: real

definition om_init :: "'w token_factory \<Rightarrow> 'w middleware" where
  "om_init factory = \<lparr>om_factory = factory, om_token = JNull, om_expires_at = 0\<rparr>"

definition om_is_valid :: "'w middleware \<Rightarrow> real \<Rightarrow> bool" where
  "om_is_valid m now \<longleftrightarrow> om_token m \<noteq> JNull \<and> now < om_expires_at m - 60"

definition get_token :: "'w bridge_env \<Rightarrow> 'w middleware \<Rightarrow> 'w \<Rightarrow> (bridge_error, json) result \<times> 'w middleware \<times> 'w" where
  "get_token env m w =
     (if om_is_valid m (be_time env w) then (Inr (om_token m), m, w)
      else case om_factory m w of
             (Inl e, w') \<Rightarrow> (Inl e, m, w')
           | (Inr (token, expires_at), w') \<Rightarrow>
               (Inr token, m\<lparr>om_token := token, om_expires_at := expires_at\<rparr>, w'))"

definition bearer :: "'w bridge_env \<Rightarrow> json \<Rightarrow> string" where
  "bearer env token = ''Bearer '' @ (case token of JStr t \<Rightarrow> t | _ \<Rightarrow> be_str env token)"

definition inject :: "'w bridge_env \<Rightarrow> 'w middleware \<Rightarrow> headers \<Rightarrow> 'w \<Rightarrow> (bridge_error, headers) result \<times> 'w middleware \<times> 'w" where
  "inject env m hdrs w =
     (case get_token env m w of
        (Inl e, m', w') \<Rightarrow> (Inl e, m', w')
      | (Inr token, m', w') \<Rightarrow>
          (Inr (if truthy token then AList.update ''Authorization'' (bearer env token) hdrs else hdrs), m', w'))"

subsection \<open>The client of the gateway\<close>

record 'w gateway_client =
  gc_base_url :: string
  gc_middleware :: "'w middleware"

definition gc_init :: "string \<Rightarrow> 'w middleware \<Rightarrow> 'w gateway_client" where
  "gc_init base_url m = \<lparr>gc_base_url = rstrip_slash base_url, gc_middleware = m\<rparr>"

type_synonym ('w, 'a) client_step = "'w gateway_client \<Rightarrow> 'w \<Rightarrow> (bridge_error, 'a) result \<times> 'w gateway_client \<times> 'w"

definition mcp_error_text :: "'w bridge_env \<Rightarrow> json \<Rightarrow> (bridge_error, string) result" where
  "mcp_error_text env e =
     (case e of
        JObj kvs \<Rightarrow>
          (let shown = (\<lambda>v. case v of JStr s \<Rightarrow> s | _ \<Rightarrow> be_str env v)
           in Inr (''MCP error '' @ shown (case map_of kvs ''code'' of Some v \<Rightarrow> v | None \<Rightarrow> JStr ''?'') @ '': ''
                @ shown (case map_of kvs ''message'' of Some v \<Rightarrow> v | None \<Rightarrow> e)))
      | _ \<Rightarrow> Inl BrAttributeError)"

text \<open>\<open>"error" in body\<close> is a test of keys, elements or of containment, by the type of the body.\<close>

definition check_body :: "'w bridge_env \<Rightarrow> json \<Rightarrow> (bridge_error, json) result" where
  "check_body env body =
     (case body of
        JObj kvs \<Rightarrow>
          (case map_of kvs ''error'' of
             None \<Rightarrow> Inr body
           | Some e \<Rightarrow> (case mcp_error_text env e of Inl x \<Rightarrow> Inl x | Inr t \<Rightarrow> Inl (BrRuntimeError t)))
      | JArr xs \<Rightarrow> (if JStr ''error'' \<in> set xs then Inl BrTypeError else Inr body)
      | JStr s \<Rightarrow> (if str_in ''error'' s then Inl BrTypeError else Inr body)
      | _ \<Rightarrow> Inl BrTypeError)"

definition post_mcp :: "'w bridge_env \<Rightarrow> json \<Rightarrow> ('w, json) client_step" where
  "post_mcp env payload c w =
     (case inject env (gc_middleware c) [(''Content-Type'', ''application/json'')] w of
        (Inl e, m, w1) \<Rightarrow> (Inl e, c\<lparr>gc_middleware := m\<rparr>, w1)
      | (Inr hdrs, m, w1) \<Rightarrow>
          (case hc_post (be_http env) (gc_base_url c) ''/mcp'' hdrs payload w1 of
             (answer, w2) \<Rightarrow>
               (case json_answer answer of
                  Inl e \<Rightarrow> (Inl e, c\<lparr>gc_middleware := m\<rparr>, w2)
                | Inr body \<Rightarrow> (check_body env body, c\<lparr>gc_middleware := m\<rparr>, w2))))"

definition list_payload :: json where
  "list_payload = JObj [(''jsonrpc'', JStr ''2.0''), (''method'', JStr ''tools/list''), (''id'', JInt 1)]"

definition call_payload :: "string \<Rightarrow> (string \<times> json) list \<Rightarrow> json" where
  "call_payload tool arguments = JObj [(''jsonrpc'', JStr ''2.0''), (''method'', JStr ''tools/call''),
     (''params'', JObj [(''name'', JStr tool), (''arguments'', JObj arguments)]), (''id'', JInt 2)]"

definition gc_list_tools :: "'w bridge_env \<Rightarrow> ('w, json) client_step" where
  "gc_list_tools env c w =
     (case post_mcp env list_payload c w of
        (Inl e, c', w') \<Rightarrow> (Inl e, c', w')
      | (Inr body, c', w') \<Rightarrow>
          ((case item body ''result'' of Inl e \<Rightarrow> Inl e | Inr r \<Rightarrow> item r ''tools''), c', w'))"

definition gc_call_tool :: "'w bridge_env \<Rightarrow> string \<Rightarrow> (string \<times> json) list \<Rightarrow> ('w, json) client_step" where
  "gc_call_tool env tool arguments c w =
     (case post_mcp env (call_payload tool arguments) c w of
        (Inl e, c', w') \<Rightarrow> (Inl e, c', w')
      | (Inr body, c', w') \<Rightarrow> (item body ''result'', c', w'))"

text \<open>
  The events of a stream, up to the end of its lines or to \<open>max_events\<close>; \<open>seen\<close> of them have been
  yielded before.
\<close>

fun stream_lines :: "int option \<Rightarrow> int \<Rightarrow> string list \<Rightarrow> json list" where
  "stream_lines max_events seen [] = []"
| "stream_lines max_events seen (line # rest) =
     (let l = py_strip line; raw = py_strip (drop 5 l)
      in if startswith l ''data:'' \<and> raw \<noteq> [] then
           (case loads raw of
              None \<Rightarrow> stream_lines max_events seen rest
            | Some v \<Rightarrow>
                (if (case max_events of Some n \<Rightarrow> n \<le> seen + 1 | None \<Rightarrow> False) then [v]
                 else v # stream_lines max_events (seen + 1) rest))
         else stream_lines max_events seen rest)"

definition gc_stream_events :: "'w bridge_env \<Rightarrow> string \<Rightarrow> int option \<Rightarrow> ('w, json list) client_step" where
  "gc_stream_events env topic max_events c w =
     (case inject env (gc_middleware c) [] w of
        (Inl e, m, w1) \<Rightarrow> (Inl e, c\<lparr>gc_middleware := m\<rparr>, w1)
      | (Inr hdrs, m, w1) \<Rightarrow>
          (case hc_stream (be_http env) (gc_base_url c) (''/sse/v1/events?topic='' @ topic) hdrs w1 of
             (Inl e, w2) \<Rightarrow> (Inl (HttpError e), c\<lparr>gc_middleware := m\<rparr>, w2)
           | (Inr (status, stream), w2) \<Rightarrow>
               (if status < 200 \<or> 300 \<le> status then Inl (HTTPStatusError status) else Inr (stream_lines max_events 0 stream),
                c\<lparr>gc_middleware := m\<rparr>, w2)))"

subsection \<open>The command-line entry\<close>

text \<open>\<open>fresh\<close> is the random part of a session id in a world, \<open>encode\<close> the JOSE library.\<close>

definition self_signed_factory ::
  "'w bridge_env \<Rightarrow> ('k \<Rightarrow> (string \<times> json) list \<Rightarrow> string) \<Rightarrow> 'k \<Rightarrow> ('w \<Rightarrow> string) \<Rightarrow> string \<Rightarrow> 'w token_factory" where
  "self_signed_factory env encode key fresh client_id w =
     (let now = int_time env w; exp = now + 3600
      in case generate_session_id (fresh w) client_id of
           Inl e \<Rightarrow> (Inl (BrAuth e), w)
         | Inr session_id \<Rightarrow>
             (Inr (JStr (encode key [(''sub'', JStr client_id), (''aud'', JStr ''mcp-server''), (''scope'', JStr ''tools:call''),
                  (''session_id'', JStr session_id), (''iat'', JInt now), (''exp'', JInt exp)]), of_int exp), w))"

definition static_factory :: "'w bridge_env \<Rightarrow> string \<Rightarrow> 'w token_factory" where
  "static_factory env token w = (Inr (JStr token, of_int (int_time env w + 3600)), w)"

definition is_set :: "(string \<Rightarrow> string option) \<Rightarrow> string \<Rightarrow> bool" where
  "is_set environ name \<longleftrightarrow> environ name \<noteq> None \<and> environ name \<noteq> Some []"

definition build_middleware ::
  "'w bridge_env \<Rightarrow> (string \<Rightarrow> string option) \<Rightarrow> (string \<Rightarrow> 'k) \<Rightarrow> ('k \<Rightarrow> (string \<times> json) list \<Rightarrow> string) \<Rightarrow> ('w \<Rightarrow> string)
     \<Rightarrow> 'w middleware" where
  "build_middleware env environ import_key encode fresh =
     om_init
       (if is_set environ ''BRIDGE_CLIENT_ID'' \<and> is_set environ ''BRIDGE_CLIENT_SECRET'' then
          client_credentials_factory env
            (case environ ''AUTH_SERVER_URL'' of Some u \<Rightarrow> u | None \<Rightarrow> ''http://localhost:8001'')
            (the (environ ''BRIDGE_CLIENT_ID'')) (the (environ ''BRIDGE_CLIENT_SECRET'')) ''tools:call''
        else if is_set environ ''GATEWAY_TOKEN'' then static_factory env (the (environ ''GATEWAY_TOKEN''))
        else if is_set environ ''JWT_SECRET'' then
          self_signed_factory env encode (import_key (the (environ ''JWT_SECRET''))) fresh ''bridge''
        else static_factory env [])"

text \<open>Each listed tool is printed with its name and description; any exception ends the process with 1.\<close>

definition printable :: "json \<Rightarrow> bool" where
  "printable tools = (case tools of
     JArr ts \<Rightarrow> list_all (\<lambda>t. is_ok (item t ''name'')) ts | JObj kvs \<Rightarrow> kvs = [] | JStr s \<Rightarrow> s = [] | _ \<Rightarrow> False)"

definition bridge_main :: "'w bridge_env \<Rightarrow> string \<Rightarrow> 'w middleware \<Rightarrow> 'w \<Rightarrow> int \<times> 'w" where
  "bridge_main env gateway_url m w =
     (case gc_list_tools env (gc_init gateway_url m) w of
        (Inl _, c1, w1) \<Rightarrow> (1, w1)
      | (Inr tools, c1, w1) \<Rightarrow>
          (if \<not> printable tools then (1, w1)
           else case gc_call_tool env ''echo'' [(''message'', JStr ''hello from bridge'')] c1 w1 of
                  (Inl _, c2, w2) \<Rightarrow> (1, w2)
                | (Inr _, c2, w2) \<Rightarrow> (0, w2)))"

subsection \<open>Tokens stay fresh\<close>

text \<open>
  The states of a middleware and the world between uses: time passes arbitrarily, and anything else
  may happen in the world.
\<close>

inductive bridge_reach :: "'w bridge_env \<Rightarrow> 'w token_factory \<Rightarrow> 'w middleware \<Rightarrow> 'w \<Rightarrow> bool" for env factory where
  start: "bridge_reach env factory (om_init factory) w"
| use_token: "bridge_reach env factory m w \<Longrightarrow> get_token env m w = (r, m', w1) \<Longrightarrow> be_time env w \<le> be_time env w2
    \<Longrightarrow> be_time env w1 \<le> be_time env w2 \<Longrightarrow> bridge_reach env factory m' w2"

text \<open>
  A factory is honest with slack \<open>d\<close> if its tokens are accepted from the moment it returns until \<open>d\<close>
  seconds before the expiry it reports, which is at least a minute away.
\<close>

definition honest :: "'w bridge_env \<Rightarrow> (int \<Rightarrow> json \<Rightarrow> bool) \<Rightarrow> real \<Rightarrow> 'w token_factory \<Rightarrow> bool" where
  "honest env accepts d factory \<longleftrightarrow>
     (\<forall>w t e w'. factory w = (Inr (t, e), w') \<longrightarrow> be_time env w' + 60 \<le> e \<and>
        (\<forall>later. be_time env w' \<le> of_int later \<longrightarrow> of_int later < e - d \<longrightarrow> accepts later t))"

definition cached_from :: "'w bridge_env \<Rightarrow> 'w token_factory \<Rightarrow> 'w middleware \<Rightarrow> 'w \<Rightarrow> bool" where
  "cached_from env factory m w \<longleftrightarrow> om_factory m = factory
     \<and> (om_token m = JNull \<or> (\<exists>w0 w1. factory w0 = (Inr (om_token m, om_expires_at m), w1) \<and> be_time env w1 \<le> be_time env w))"

lemma reach_cached: "bridge_reach env factory m w \<Longrightarrow> cached_from env factory m w"
proof (induction rule: bridge_reach.induct)
  case (start w)
  show ?case by (simp add: cached_from_def om_init_def)
next
  case (use_token m w r m' w1 w2)
  show ?case
  proof (cases "om_is_valid m (be_time env w)")
    case True
    with use_token show ?thesis by (fastforce simp: cached_from_def get_token_def)
  next
    case False
    obtain x w' where x: "factory w = (x, w')" by (metis prod.exhaust)
    show ?thesis
    proof (cases x)
      case (Inl e)
      with False x use_token show ?thesis by (fastforce simp: cached_from_def get_token_def)
    next
      case (Inr te)
      obtain t e where "te = (t, e)" by (metis prod.exhaust)
      with False x Inr use_token show ?thesis by (fastforce simp: cached_from_def get_token_def)
    qed
  qed
qed

lemma served_token_live:
  assumes "honest env accepts d factory" and "0 \<le> d" and "bridge_reach env factory m w"
    and "get_token env m w = (Inr t, m', w')"
    and "be_time env w' \<le> of_int later" and "of_int later < be_time env w + 60 - d" and "be_time env w \<le> be_time env w'"
  shows "accepts later t"
proof (cases "om_is_valid m (be_time env w)")
  case True
  then have t: "t = om_token m" "w' = w" "om_token m \<noteq> JNull" "be_time env w < om_expires_at m - 60"
    using assms(4) by (auto simp: get_token_def om_is_valid_def)
  then obtain w0 w1 where "factory w0 = (Inr (t, om_expires_at m), w1)" "be_time env w1 \<le> be_time env w"
    using reach_cached [OF assms(3)] by (auto simp: cached_from_def)
  then show ?thesis using assms(1,5,6) t unfolding honest_def by (smt (verit))
next
  case False
  moreover have "om_factory m = factory" using reach_cached [OF assms(3)] by (simp add: cached_from_def)
  ultimately obtain e where "factory w = (Inr (t, e), w')"
    using assms(4) by (auto simp: get_token_def split: prod.splits sum.splits)
  then show ?thesis using assms(1,5,6,7) unfolding honest_def by (smt (verit))
qed

subsection \<open>Honest factories\<close>

definition admitted ::
  "'w bridge_env \<Rightarrow> ('k \<Rightarrow> string \<Rightarrow> (string, (string \<times> json) list) result) \<Rightarrow> (int \<Rightarrow> (string \<times> json) list \<Rightarrow> bool)
     \<Rightarrow> 'k \<Rightarrow> string \<Rightarrow> int \<Rightarrow> json \<Rightarrow> bool" where
  "admitted env decode valid key sub later t \<longleftrightarrow> truthy t \<and>
     (\<exists>claims. verify_token decode (valid later) (Inr key) ''tools:call'' True (Some (bearer env t)) = Inr (Some claims)
        \<and> map_of claims ''sub'' = Some (JStr sub))"

lemma signed_admitted:
  assumes "jwt_law encode decode valid" and "i \<le> later" and "later < e"
    and "''tools:call'' \<in> set (py_split scope)"
  shows "admitted env decode valid key sub later (JStr (encode key [(''sub'', JStr sub), (''aud'', JStr ''mcp-server''),
     (''scope'', JStr scope), (''session_id'', JStr sid), (''iat'', JInt i), (''exp'', JInt e)]))"
proof -
  let ?claims = "[(''sub'', JStr sub), (''aud'', JStr ''mcp-server''), (''scope'', JStr scope),
      (''session_id'', JStr sid), (''iat'', JInt i), (''exp'', JInt e)]"
  have "json_ok (JObj ?claims)" by simp
  then have tok: "decode key (encode key ?claims) = Inr ?claims" "encode key ?claims \<noteq> []"
      "\<forall>ch \<in> set (encode key ?claims). \<not> is_space ch"
    using assms(1) unfolding jwt_law_def by blast+
  have "valid later ?claims" using assms(1-3) unfolding jwt_law_def by simp
  then show ?thesis
    using tok(1,2) assms(4) verify_bearer [OF tok(2,3), of decode "valid later" "Inr key" "''tools:call''" True]
    by (simp add: admitted_def bearer_def)
qed

lemma self_signed_honest:
  assumes "jwt_law encode decode valid"
  shows "honest env (admitted env decode valid key sub) 0 (self_signed_factory env encode key fresh sub)"
proof -
  have "''tools:call'' \<in> set (py_split ''tools:call'')" by code_simp
  then show ?thesis
    unfolding honest_def
    by (auto simp: self_signed_factory_def Let_def int_time_def floor_le_iff split: sum.splits
        intro!: signed_admitted [OF assms]) linarith+
qed

subsection \<open>Client credentials over the authorization server\<close>

text \<open>What \<open>POST /token\<close> puts on the wire.\<close>

definition token_json :: "token_response \<Rightarrow> json" where
  "token_json r = JObj [(''access_token'', JStr (tp_access_token r)), (''token_type'', JStr ''bearer''),
     (''expires_in'', JInt (tp_expires_in r)), (''scope'', JStr (tp_scope r))]"

definition token_http :: "(auth_error, token_response) result \<Rightarrow> nat \<times> string" where
  "token_http answer =
     (case answer of
        Inr r \<Rightarrow> (200, dumps (token_json r))
      | Inl (HTTPException status detail) \<Rightarrow> (status, dumps (JObj [(''detail'', JStr detail)]))
      | Inl _ \<Rightarrow> (500, ''Internal Server Error''))"

definition m2m_request :: "string \<Rightarrow> string \<Rightarrow> token_request" where
  "m2m_request cid secret = \<lparr>tr_client_id = cid, tr_client_secret = secret, tr_grant_type = ''client_credentials'',
     tr_code = None, tr_code_verifier = None\<rparr>"

definition registered_scope :: "json \<Rightarrow> string" where
  "registered_scope client = (case jget client ''scope'' of Some (JStr v) \<Rightarrow> v | _ \<Rightarrow> ''tools:call'')"

text \<open>
  The deployment: a post to the token URL fails or is answered by \<open>token_endpoint\<close> on some state of
  its store, at most \<open>d\<close> seconds before the answer arrives, and the client's registered scope covers
  \<open>tools:call\<close>.
\<close>

definition auth_server_at ::
  "'w bridge_env \<Rightarrow> string \<Rightarrow> string \<Rightarrow> string \<Rightarrow> 'r redis_client \<Rightarrow> ('k \<Rightarrow> (string \<times> json) list \<Rightarrow> string)
     \<Rightarrow> (string \<Rightarrow> nat list) \<Rightarrow> 'k \<Rightarrow> real \<Rightarrow> bool" where
  "auth_server_at env url cid secret c encode digest key d \<longleftrightarrow>
     (\<forall>w answer w'. hc_post (be_http env) [] (rstrip_slash url @ ''/token'') []
          (JObj [(''grant_type'', JStr ''client_credentials''), (''client_id'', JStr cid),
                 (''client_secret'', JStr secret), (''scope'', JStr ''tools:call'')]) w = (Inr answer, w') \<longrightarrow>
        (\<exists>part now s. answer = token_http (fst (token_endpoint c encode digest key part now s (m2m_request cid secret)))
           \<and> of_int now \<le> be_time env w' \<and> be_time env w' \<le> of_int now + d
           \<and> (\<forall>client. load_client c s cid = Inr (Some client)
                \<longrightarrow> ''tools:call'' \<in> set (expand_scope (registered_scope client)))))"

lemma m2m_token:
  assumes "fst (token_endpoint c encode digest key part now s (m2m_request cid secret)) = Inr r"
  shows "\<exists>client sid. load_client c s cid = Inr (Some client) \<and> r = \<lparr>tp_access_token = encode key
     [(''sub'', JStr cid), (''aud'', JStr ''mcp-server''), (''scope'', JStr (py_join '' '' (sorted_scopes (registered_scope client)))),
      (''session_id'', JStr sid), (''iat'', JInt now), (''exp'', JInt (now + 3600))],
     tp_expires_in = 3600, tp_scope = py_join '' '' (sorted_scopes (registered_scope client))\<rparr>"
proof -
  obtain client where client: "load_client c s cid = Inr (Some client)"
    using assms by (auto simp: token_endpoint_def m2m_request_def split: sum.splits option.splits)
  with assms have issued: "issue_token encode key part now (registered_scope client) cid = Inr r"
    by (simp add: token_endpoint_def m2m_request_def registered_scope_def split: sum.splits if_splits)
  then obtain sid where sid: "generate_session_id part cid = Inr sid"
    by (auto simp: issue_token_def split: sum.splits)
  with issued have "r = \<lparr>tp_access_token = encode key
     [(''sub'', JStr cid), (''aud'', JStr ''mcp-server''), (''scope'', JStr (py_join '' '' (sorted_scopes (registered_scope client)))),
      (''session_id'', JStr sid), (''iat'', JInt now), (''exp'', JInt (now + 3600))],
     tp_expires_in = 3600, tp_scope = py_join '' '' (sorted_scopes (registered_scope client))\<rparr>"
    by (simp add: issue_token_def Let_def)
  with client show ?thesis by blast
qed

lemma token_answer_json:
  "json_answer (Inr (200, dumps (token_json r))) = Inr (token_json r)"
  "token_answer env now (token_json r) = Inr (JStr (tp_access_token r), of_int now + of_int (tp_expires_in r))"
proof -
  have "json_ok (token_json r)" by (simp add: token_json_def)
  then show "json_answer (Inr (200, dumps (token_json r))) = Inr (token_json r)"
    by (simp add: json_answer_def loads_dumps)
qed (simp add: token_answer_def token_json_def seconds_def)

lemma m2m_refused:
  assumes "fst (token_endpoint c encode digest key part now s (m2m_request cid secret)) = Inl e"
  shows "\<exists>x. json_answer (Inr (token_http (Inl e))) = Inl x"
proof (cases e)
  case (HTTPException n t)
  then have "n = 401"
    using assms
    by (auto simp: token_endpoint_def m2m_request_def issue_token_def load_client_def decode_stored_def json_str_def
        generate_session_id_def Let_def split: sum.splits option.splits if_splits json.splits)
  with HTTPException show ?thesis by (simp add: token_http_def json_answer_def)
qed (simp_all add: token_http_def json_answer_def)

lemma client_credentials_honest:
  assumes "jwt_law encode decode valid" and "auth_server_at env url cid secret c encode digest key d"
    and "0 \<le> d" and "d \<le> 3000"
  shows "honest env (admitted env decode valid key cid) (d + 1) (client_credentials_factory env url cid secret ''tools:call'')"
  unfolding honest_def
proof (intro allI impI)
  fix w t e w'
  let ?post = "hc_post (be_http env) [] (rstrip_slash url @ ''/token'') []
          (JObj [(''grant_type'', JStr ''client_credentials''), (''client_id'', JStr cid),
                 (''client_secret'', JStr secret), (''scope'', JStr ''tools:call'')]) w"
  assume fetched: "client_credentials_factory env url cid secret ''tools:call'' w = (Inr (t, e), w')"
  obtain answer w1 where post: "?post = (answer, w1)" by (metis prod.exhaust)
  obtain data where data: "json_answer answer = Inr data" "token_answer env (int_time env w1) data = Inr (t, e)" "w1 = w'"
    using fetched post by (auto simp: client_credentials_factory_def split: sum.splits)
  then obtain http where answer: "answer = Inr http" by (cases answer) (auto simp: json_answer_def)
  obtain part now s where served: "http = token_http (fst (token_endpoint c encode digest key part now s (m2m_request cid secret)))"
      "of_int now \<le> be_time env w'" "be_time env w' \<le> of_int now + d"
      "\<forall>client. load_client c s cid = Inr (Some client) \<longrightarrow> ''tools:call'' \<in> set (expand_scope (registered_scope client))"
    using assms(2) post answer data(3) unfolding auth_server_at_def by blast
  obtain r where r: "fst (token_endpoint c encode digest key part now s (m2m_request cid secret)) = Inr r"
    using m2m_refused [of c encode digest key part now s cid secret] served(1) data(1) answer
    by (cases "fst (token_endpoint c encode digest key part now s (m2m_request cid secret))") force+
  obtain client sid where client: "load_client c s cid = Inr (Some client)" "r = \<lparr>tp_access_token = encode key
     [(''sub'', JStr cid), (''aud'', JStr ''mcp-server''), (''scope'', JStr (py_join '' '' (sorted_scopes (registered_scope client)))),
      (''session_id'', JStr sid), (''iat'', JInt now), (''exp'', JInt (now + 3600))],
     tp_expires_in = 3600, tp_scope = py_join '' '' (sorted_scopes (registered_scope client))\<rparr>"
    using m2m_token [OF r] by blast
  have "http = (200, dumps (token_json r))" using served(1) r by (simp add: token_http_def)
  then have t: "t = JStr (tp_access_token r)" "e = of_int (int_time env w') + 3600"
    using data answer token_answer_json(1) [of r] token_answer_json(2) [of env "int_time env w'" r] client(2) by auto
  have scope: "''tools:call'' \<in> set (py_split (py_join '' '' (sorted_scopes (registered_scope client))))"
    using served(4) client(1) by (simp add: split_granted)
  have floor: "be_time env w' - 1 < of_int (int_time env w')" "of_int (int_time env w') \<le> be_time env w'"
    unfolding int_time_def by linarith+
  have "admitted env decode valid key cid later t" if "be_time env w' \<le> of_int later" "of_int later < e - (d + 1)" for later
  proof -
    have "now \<le> later" using that(1) served(2) by linarith
    moreover have "later < now + 3600" using that(2) t(2) floor(2) served(3) by linarith
    ultimately show ?thesis
      using signed_admitted [OF assms(1) _ _ scope] t(1) client(2) by simp
  qed
  moreover have "be_time env w' + 60 \<le> e" using t(2) floor(1) by linarith
  ultimately show "be_time env w' + 60 \<le> e \<and>
      (\<forall>later. be_time env w' \<le> of_int later \<longrightarrow> of_int later < e - (d + 1) \<longrightarrow> admitted env decode valid key cid later t)"
    by blast
qed

subsection \<open>Admission\<close>

text \<open>
  The bridge has credentials the gateway honours: a registered client of the authorization server, or
  else (with no token handed in) the secret the gateway's key is made of. \<open>sub\<close> is who it acts as.
\<close>

definition provisioned ::
  "'w bridge_env \<Rightarrow> (string \<Rightarrow> string option) \<Rightarrow> (string \<Rightarrow> 'k) \<Rightarrow> ('k \<Rightarrow> (string \<times> json) list \<Rightarrow> string)
     \<Rightarrow> 'r redis_client \<Rightarrow> (string \<Rightarrow> nat list) \<Rightarrow> 'k \<Rightarrow> real \<Rightarrow> string \<Rightarrow> bool" where
  "provisioned env environ import_key encode c digest key d sub \<longleftrightarrow>
     (if is_set environ ''BRIDGE_CLIENT_ID'' \<and> is_set environ ''BRIDGE_CLIENT_SECRET'' then
        environ ''BRIDGE_CLIENT_ID'' = Some sub
        \<and> auth_server_at env (case environ ''AUTH_SERVER_URL'' of Some u \<Rightarrow> u | None \<Rightarrow> ''http://localhost:8001'')
            sub (the (environ ''BRIDGE_CLIENT_SECRET'')) c encode digest key d
      else \<not> is_set environ ''GATEWAY_TOKEN'' \<and> is_set environ ''JWT_SECRET''
        \<and> import_key (the (environ ''JWT_SECRET'')) = key \<and> sub = ''bridge'')"

lemma honest_slack:
  assumes "honest env accepts d factory" and "d \<le> d'" shows "honest env accepts d' factory"
  using assms unfolding honest_def by (smt (verit))

lemma provisioned_honest:
  assumes "jwt_law encode decode valid" and "provisioned env environ import_key encode c digest key d sub"
    and "0 \<le> d" and "d \<le> 3000"
  shows "honest env (admitted env decode valid key sub) (d + 1) (om_factory (build_middleware env environ import_key encode fresh))"
proof (cases "is_set environ ''BRIDGE_CLIENT_ID'' \<and> is_set environ ''BRIDGE_CLIENT_SECRET''")
  case True
  with assms(2) have id: "environ ''BRIDGE_CLIENT_ID'' = Some sub"
    and server: "auth_server_at env (case environ ''AUTH_SERVER_URL'' of Some u \<Rightarrow> u | None \<Rightarrow> ''http://localhost:8001'')
        sub (the (environ ''BRIDGE_CLIENT_SECRET'')) c encode digest key d"
    by (simp_all add: provisioned_def)
  from client_credentials_honest [OF assms(1) server assms(3,4)] True show ?thesis
    by (simp only: build_middleware_def om_init_def middleware.simps id option.sel if_True simp_thms)
next
  case False
  with assms(2) have jwt: "\<not> is_set environ ''GATEWAY_TOKEN''" "is_set environ ''JWT_SECRET''"
      "import_key (the (environ ''JWT_SECRET'')) = key" "sub = ''bridge''"
    by (simp_all add: provisioned_def)
  have "honest env (admitted env decode valid key sub) (d + 1) (self_signed_factory env encode key fresh sub)"
    by (rule honest_slack [OF self_signed_honest [OF assms(1)]]) (use assms(3) in simp)
  with False jwt show ?thesis
    by (simp only: build_middleware_def om_init_def middleware.simps if_False if_True)
qed

text \<open>A header injected less than a minute (less the slack) after the token was checked is admitted.\<close>

lemma injected_admitted:
  assumes "jwt_law encode decode valid" and "provisioned env environ import_key encode c digest key d sub"
    and "0 \<le> d" and "d \<le> 3000"
    and "bridge_reach env (om_factory (build_middleware env environ import_key encode fresh)) m w"
    and "inject env m hdrs w = (Inr hdrs', m', w')"
    and "be_time env w \<le> be_time env w'" and "be_time env w' \<le> of_int later" and "of_int later < be_time env w + 59 - d"
  shows "\<exists>claims. verify_token decode (valid later) (Inr key) ''tools:call'' True (map_of hdrs' ''Authorization'') = Inr (Some claims)
    \<and> map_of claims ''sub'' = Some (JStr sub)"
proof -
  obtain r mr wr where got: "get_token env m w = (r, mr, wr)" by (metis prod.exhaust)
  then obtain t where t: "get_token env m w = (Inr t, m', w')"
      "hdrs' = (if truthy t then AList.update ''Authorization'' (bearer env t) hdrs else hdrs)"
    using assms(6) by (cases r) (auto simp: inject_def)
  have "admitted env decode valid key sub later t"
    by (rule served_token_live [OF provisioned_honest [OF assms(1-4)] _ assms(5) t(1) assms(8) _ assms(7)])
      (use assms(3,9) in simp_all)
  then show ?thesis using t(2) by (simp add: admitted_def)
qed

text \<open>A limit of zero events still yields one.\<close>

lemma zero_events_yield_one: "stream_lines (Some 0) 0 [''data: 1'', ''data: 2''] = [JInt 1]"
  by code_simp

end
