(* ===== verification/Eval_Runner.thy ===== *)
theory Eval_Runner
  imports Eval_Metrics Idempotency Optimizer
begin

section \<open>The evaluation harness (evals/judge/judge.py, compare.py, runner.py)\<close>

text \<open>
  The judge and its agreement with human labels, the comparison of two runs, the evaluation of the
  data sets and the report. Examples and runs are JSON objects; \<open>None\<close> stands for an exception
  (a missing key, a value of a wrong type). \<open>round(x, 4)\<close>, \<open>str\<close>, the value of a number and the language
  model are arguments; files, the clock and the commit's hash are read outside of the model.
\<close>

subsection \<open>Judge (judge.py)\<close>

record judge_verdict =
  jv_score :: real
  jv_grounded :: bool
  jv_explanation :: string
  jv_claims_checked :: nat
  jv_claims_supported :: nat

record judge_output =
  jo_verdicts :: "string list"
  jo_overall_grounded :: bool
  jo_explanation :: string

definition nl2 :: "string list \<Rightarrow> string" where
  "nl2 lines = py_join [CHR 0x0A] lines"

definition judge_text :: "string \<Rightarrow> string \<Rightarrow> string list \<Rightarrow> string option \<Rightarrow> string list \<Rightarrow> string" where
  "judge_text question answer chunks expected options =
     nl2 [''You are an independent evaluation judge. Your task is to verify whether'',
       ''the answer is grounded in the provided context.'', [],
       ''CONTEXT:'', (if chunks \<noteq> [] then py_join (nl2 [[], ''---'', []]) chunks else ''(no context provided)''), [],
       ''QUESTION: '' @ question, [],
       ''ANSWER TO EVALUATE: '' @ answer, [],
       (case expected of Some (c # cs) \<Rightarrow> ''REFERENCE ANSWER: '' @ c # cs | _ \<Rightarrow> []), [],
       ''Instructions:'',
       ''1. Break the answer into individual factual claims.'',
       ''2. For each claim, determine if it is '' @ py_join '' / '' options @ '' by the context.'',
       ''3. A claim is SUPPORTED only if the context explicitly states or directly implies it.'',
       ''4. Do NOT use your own knowledge '' @ em_dash @ '' only the provided context.'', [],
       ''Respond in this exact JSON format:'', ''{'', '' \"claims\": ['',
       ''  {\"claim\": \"...\", \"verdict\": \"SUPPORTED\" or \"NOT SUPPORTED\", \"evidence\": \"...\"}'',
       '' ],'', '' \"overall_grounded\": true/false,'', '' \"explanation\": \"one sentence summary\"'', ''}'']"

text \<open>\<open>shuffled\<close> is the outcome of \<open>random.shuffle\<close>, \<open>ask\<close> the agent for a model; \<open>default_model\<close> is \<open>JUDGE_MODEL\<close>.\<close>

definition judge_answer ::
  "(string \<Rightarrow> string \<Rightarrow> 'w \<Rightarrow> (string, judge_output) result \<times> 'w) \<Rightarrow> string \<Rightarrow> string list \<Rightarrow> string \<Rightarrow> string \<Rightarrow> string list
     \<Rightarrow> string option \<Rightarrow> string option \<Rightarrow> 'w \<Rightarrow> judge_verdict \<times> 'w" where
  "judge_answer ask default_model shuffled question answer chunks expected model w =
     (case ask (case model of Some (c # cs) \<Rightarrow> c # cs | _ \<Rightarrow> default_model)
             (judge_text question answer chunks expected shuffled) w of
        (Inr data, w') \<Rightarrow>
          (let total = length (jo_verdicts data);
               supported = length (filter (\<lambda>v. py_upper v = ''SUPPORTED'') (jo_verdicts data))
           in (\<lparr>jv_score = (if 0 < total then real supported / real total else 0), jv_grounded = jo_overall_grounded data,
                jv_explanation = jo_explanation data, jv_claims_checked = total, jv_claims_supported = supported\<rparr>, w'))
      | (Inl e, w') \<Rightarrow>
          (\<lparr>jv_score = 0, jv_grounded = False, jv_explanation = ''Judge error: '' @ e, jv_claims_checked = 0,
             jv_claims_supported = 0\<rparr>, w'))"

record agreement =
  ag_accuracy :: real
  ag_kappa :: real
  ag_n :: nat
  ag_matrix :: "(nat \<times> nat \<times> nat \<times> nat) option"

definition count_pairs :: "(bool \<Rightarrow> bool \<Rightarrow> bool) \<Rightarrow> bool list \<Rightarrow> bool list \<Rightarrow> nat" where
  "count_pairs f js hs = length (filter (\<lambda>(j, h). f j h) (zip js hs))"

definition share_true :: "bool list \<Rightarrow> nat \<Rightarrow> real" where
  "share_true bs n = real (length (filter id bs)) / real n"

definition cohens_kappa :: "real \<Rightarrow> real \<Rightarrow> real" where
  "cohens_kappa p_o p_e = (if p_e < 1 then (p_o - p_e) / (1 - p_e) else 1)"

definition judge_human_agreement :: "(real \<Rightarrow> real) \<Rightarrow> bool list \<Rightarrow> bool list \<Rightarrow> agreement" where
  "judge_human_agreement rnd js hs =
     (let n = length js
      in if n = 0 then \<lparr>ag_accuracy = 0, ag_kappa = 0, ag_n = 0, ag_matrix = None\<rparr>
         else (let accuracy = real (count_pairs (=) js hs) / real n;
                   p_yes_judge = share_true js n; p_yes_human = share_true hs n;
                   p_e = p_yes_judge * p_yes_human + (1 - p_yes_judge) * (1 - p_yes_human)
               in \<lparr>ag_accuracy = rnd accuracy, ag_kappa = rnd (cohens_kappa accuracy p_e), ag_n = n,
                   ag_matrix = Some (count_pairs (\<and>) js hs, count_pairs (\<lambda>j h. j \<and> \<not> h) js hs,
                     count_pairs (\<lambda>j h. \<not> j \<and> h) js hs, count_pairs (\<lambda>j h. \<not> j \<and> \<not> h) js hs)\<rparr>))"

subsection \<open>Comparison of two runs (compare.py)\<close>

text \<open>
  The stored runs: \<open>stems\<close> are the names of the files of the results directory without their suffix.
  The first file in order of the names (suffix included) that begins with the tag is taken if there is
  no exact match. The tag has no wildcard characters.
\<close>

definition find_run :: "string list \<Rightarrow> string \<Rightarrow> string option" where
  "find_run stems tag =
     (if tag \<in> set stems then Some tag
      else case sort_key (\<lambda>s. s @ ''.json'') (filter (\<lambda>s. startswith s tag) stems) of [] \<Rightarrow> None | s # _ \<Rightarrow> Some s)"

text \<open>\<open>d.get(key, default)\<close> and the items of a list or dict; other types raise.\<close>

definition get_or :: "json \<Rightarrow> string \<Rightarrow> json \<Rightarrow> json option" where
  "get_or d key dflt = (case d of JObj kvs \<Rightarrow> Some (case map_of kvs key of Some v \<Rightarrow> v | None \<Rightarrow> dflt) | _ \<Rightarrow> None)"

definition list_items :: "json \<Rightarrow> json list option" where
  "list_items d = (case d of JArr xs \<Rightarrow> Some xs | JObj kvs \<Rightarrow> Some (map (\<lambda>(k, _). JStr k) kvs) | JStr s \<Rightarrow> Some (map (\<lambda>c. JStr [c]) s) | _ \<Rightarrow> None)"

text \<open>The ids of examples are strings; \<open>results[eid] = r.get("pass", False)\<close>.\<close>

fun extract_results :: "json list \<Rightarrow> (string, json) dict \<Rightarrow> (string, json) dict option" where
  "extract_results [] acc = Some acc"
| "extract_results (r # rs) acc =
     (case (get_or r ''id'' (JStr []), get_or r ''pass'' (JBool False)) of
        (Some (JStr eid), Some p) \<Rightarrow> extract_results rs (AList.update eid p acc)
      | _ \<Rightarrow> None)"

fun extract_datasets :: "(string \<times> json) list \<Rightarrow> (string, json) dict \<Rightarrow> (string, json) dict option" where
  "extract_datasets [] acc = Some acc"
| "extract_datasets ((_, ds_data) # rest) acc =
     (case get_or ds_data ''results'' (JArr []) of
        None \<Rightarrow> None
      | Some rs \<Rightarrow>
          (case list_items rs of
             None \<Rightarrow> None
           | Some xs \<Rightarrow> (case extract_results xs acc of None \<Rightarrow> None | Some acc' \<Rightarrow> extract_datasets rest acc')))"

definition extract_per_example :: "json \<Rightarrow> (string, json) dict option" where
  "extract_per_example run =
     (case get_or run ''datasets'' (JObj []) of
        Some (JObj kvs) \<Rightarrow> extract_datasets kvs []
      | _ \<Rightarrow> None)"

record run_diff =
  rd_tags :: "string \<times> string"
  rd_shas :: "json \<times> json"
  rd_rates :: "json \<times> json"
  rd_delta :: real
  rd_regressions :: "string list"
  rd_improvements :: "string list"
  rd_unchanged_pass :: nat
  rd_unchanged_fail :: nat
  rd_only_in_a :: "string list"
  rd_only_in_b :: "string list"
  rd_mcnemar :: mcnemar_result

text \<open>One pass over the ids; an id that is in both runs is in one of four classes.\<close>

record id_classes =
  ic_regressions :: "string list"
  ic_improvements :: "string list"
  ic_unchanged_pass :: "string list"
  ic_unchanged_fail :: "string list"
  ic_only_in_a :: "string list"
  ic_only_in_b :: "string list"

definition no_ids :: id_classes where
  "no_ids = \<lparr>ic_regressions = [], ic_improvements = [], ic_unchanged_pass = [], ic_unchanged_fail = [],
     ic_only_in_a = [], ic_only_in_b = []\<rparr>"

definition classify :: "(string, json) dict \<Rightarrow> (string, json) dict \<Rightarrow> string \<Rightarrow> id_classes \<Rightarrow> id_classes" where
  "classify a b eid c =
     (case (map_of a eid, map_of b eid) of
        (Some _, None) \<Rightarrow> c\<lparr>ic_only_in_a := ic_only_in_a c @ [eid]\<rparr>
      | (None, Some _) \<Rightarrow> c\<lparr>ic_only_in_b := ic_only_in_b c @ [eid]\<rparr>
      | (Some pa, Some pb) \<Rightarrow>
          (if truthy pa \<and> \<not> truthy pb then c\<lparr>ic_regressions := ic_regressions c @ [eid]\<rparr>
           else if \<not> truthy pa \<and> truthy pb then c\<lparr>ic_improvements := ic_improvements c @ [eid]\<rparr>
           else if truthy pa \<and> truthy pb then c\<lparr>ic_unchanged_pass := ic_unchanged_pass c @ [eid]\<rparr>
           else c\<lparr>ic_unchanged_fail := ic_unchanged_fail c @ [eid]\<rparr>)
      | (None, None) \<Rightarrow> c)"

definition all_ids :: "(string, json) dict \<Rightarrow> (string, json) dict \<Rightarrow> string list" where
  "all_ids a b = sort (remdups (map fst a @ map fst b))"

definition classify_all :: "(string, json) dict \<Rightarrow> (string, json) dict \<Rightarrow> id_classes" where
  "classify_all a b = fold (classify a b) (all_ids a b) no_ids"

text \<open>\<open>run.get(outer, {}).get(inner, default)\<close>.\<close>

definition nested_get :: "json \<Rightarrow> string \<Rightarrow> string \<Rightarrow> json \<Rightarrow> json option" where
  "nested_get run outer inner dflt = (case get_or run outer (JObj []) of Some d \<Rightarrow> get_or d inner dflt | None \<Rightarrow> None)"

definition proportion_of :: "(json \<Rightarrow> real option) \<Rightarrow> json \<Rightarrow> real option" where
  "proportion_of num rate = (case get_or rate ''proportion'' (JInt 0) of Some v \<Rightarrow> num v | None \<Rightarrow> None)"

definition compare_runs ::
  "(real \<Rightarrow> real) \<Rightarrow> (real \<Rightarrow> real) \<Rightarrow> (json \<Rightarrow> real option) \<Rightarrow> json \<Rightarrow> json \<Rightarrow> string \<Rightarrow> string \<Rightarrow> run_diff option" where
  "compare_runs rnd erfc num run_a run_b tag_a tag_b =
     (case (extract_per_example run_a, extract_per_example run_b) of
        (Some a, Some b) \<Rightarrow>
          (let c = classify_all a b
           in case (mcnemar_test rnd erfc (int (length (ic_regressions c))) (int (length (ic_improvements c))),
                 nested_get run_a ''summary'' ''overall_pass_rate'' (JObj []), nested_get run_b ''summary'' ''overall_pass_rate'' (JObj []),
                 nested_get run_a ''meta'' ''git_sha'' (JStr []), nested_get run_b ''meta'' ''git_sha'' (JStr [])) of
                (Inr mc, Some ra, Some rb, Some sa, Some sb) \<Rightarrow>
                  (case (proportion_of num ra, proportion_of num rb) of
                     (Some pa, Some pb) \<Rightarrow>
                       Some \<lparr>rd_tags = (tag_a, tag_b), rd_shas = (sa, sb), rd_rates = (ra, rb), rd_delta = rnd (pb - pa),
                         rd_regressions = ic_regressions c, rd_improvements = ic_improvements c,
                         rd_unchanged_pass = length (ic_unchanged_pass c), rd_unchanged_fail = length (ic_unchanged_fail c),
                         rd_only_in_a = ic_only_in_a c, rd_only_in_b = ic_only_in_b c, rd_mcnemar = mc\<rparr>
                   | _ \<Rightarrow> None)
              | _ \<Rightarrow> None)
      | _ \<Rightarrow> None)"

text \<open>
  The printed comparison. \<open>pct\<close> formats a rate (\<open>.1%\<close>), \<open>shown\<close> a statistic, \<open>listed\<close> a list of ids;
  \<open>num\<close> reads a stored rate. The arrow stands as its three UTF-8 bytes.
\<close>

definition arrow :: string where
  "arrow = [CHR 0xE2, CHR 0x86, CHR 0x92]"

definition rate_at :: "(json \<Rightarrow> real option) \<Rightarrow> (real \<Rightarrow> string) \<Rightarrow> json \<Rightarrow> string \<Rightarrow> string option" where
  "rate_at num pct rate key =
     (case get_or rate key (JInt 0) of Some v \<Rightarrow> map_option pct (num v) | None \<Rightarrow> None)"

definition changed_lines :: "string \<Rightarrow> string \<Rightarrow> string \<Rightarrow> string list \<Rightarrow> string list" where
  "changed_lines heading mark change ids =
     (if ids = [] then []
      else (nl @ heading @ '' ('' @ show_nat (length ids) @ ''):'') # map (\<lambda>eid. ''  '' @ mark @ '' '' @ eid @ ''  ('' @ change @ '')'') ids)"

definition rate_lines :: "(json \<Rightarrow> real option) \<Rightarrow> (real \<Rightarrow> string) \<Rightarrow> run_diff \<Rightarrow> string list option" where
  "rate_lines num pct d =
     (case rd_rates d of (ra, rb) \<Rightarrow>
        (case (rate_at num pct ra ''proportion'', rate_at num pct rb ''proportion'', rate_at num pct ra ''lower'',
               rate_at num pct ra ''upper'', rate_at num pct rb ''lower'', rate_at num pct rb ''upper'') of
           (Some pa, Some pb, Some la, Some ua, Some lb, Some ub) \<Rightarrow>
             Some [nl @ ''Pass rate:  '' @ pa @ '' '' @ arrow @ '' '' @ pb @ '' ('' @ (if 0 \<le> rd_delta d then ''+'' else []) @ pct (rd_delta d) @ '')'',
                   ''  A: ['' @ la @ '', '' @ ua @ '']'', ''  B: ['' @ lb @ '', '' @ ub @ '']'']
         | _ \<Rightarrow> None))"

definition example_lines :: "(string list \<Rightarrow> string) \<Rightarrow> run_diff \<Rightarrow> string list" where
  "example_lines listed d =
     changed_lines ''Regressions'' ''-'' (''PASS '' @ arrow @ '' FAIL'') (rd_regressions d)
     @ changed_lines ''Improvements'' ''+'' (''FAIL '' @ arrow @ '' PASS'') (rd_improvements d)
     @ (if rd_regressions d = [] \<and> rd_improvements d = [] then [nl @ ''No per-example changes.''] else [])
     @ [nl @ ''Unchanged: '' @ show_nat (rd_unchanged_pass d) @ '' pass, '' @ show_nat (rd_unchanged_fail d) @ '' fail'']
     @ (if rd_only_in_a d \<noteq> [] then [''Only in A: '' @ listed (rd_only_in_a d)] else [])
     @ (if rd_only_in_b d \<noteq> [] then [''Only in B: '' @ listed (rd_only_in_b d)] else [])"

definition mcnemar_lines :: "(real \<Rightarrow> string) \<Rightarrow> mcnemar_result \<Rightarrow> string list" where
  "mcnemar_lines shown mc =
     [nl @ ''McNemar test: chi2='' @ shown (mc_chi2 mc) @ '', p='' @ shown (mc_p_value mc),
      (if mc_significant mc then ''  '' @ arrow @ '' Statistically significant difference (p < 0.05)''
       else ''  '' @ arrow @ '' Not significant (n_discordant='' @ show_int (mc_n_discordant mc) @ '')'')]"

definition format_comparison ::
  "(json \<Rightarrow> real option) \<Rightarrow> (real \<Rightarrow> string) \<Rightarrow> (real \<Rightarrow> string) \<Rightarrow> (string list \<Rightarrow> string) \<Rightarrow> run_diff \<Rightarrow> string option" where
  "format_comparison num pct shown listed d =
     (case rate_lines num pct d of
        None \<Rightarrow> None
      | Some rates \<Rightarrow>
          Some (py_join nl ([''Comparing: '' @ fst (rd_tags d) @ '' '' @ arrow @ '' '' @ snd (rd_tags d), replicate 60 (CHR ''='')]
            @ rates @ example_lines listed d @ mcnemar_lines shown (rd_mcnemar d))))"

text \<open>\<open>main\<close>: the two runs by their tags, compared and printed; None when there is no run of a tag.\<close>

definition compare_main ::
  "(json \<Rightarrow> real option) \<Rightarrow> (real \<Rightarrow> string) \<Rightarrow> (real \<Rightarrow> string) \<Rightarrow> (string list \<Rightarrow> string) \<Rightarrow> (real \<Rightarrow> real) \<Rightarrow> (real \<Rightarrow> real)
     \<Rightarrow> (string \<times> json) list \<Rightarrow> string \<Rightarrow> string \<Rightarrow> string option" where
  "compare_main num pct shown listed rnd erfc stored tag_a tag_b =
     (case (find_run (map fst stored) tag_a, find_run (map fst stored) tag_b) of
        (Some sa, Some sb) \<Rightarrow>
          (case compare_runs rnd erfc num (the (map_of stored sa)) (the (map_of stored sb)) tag_a tag_b of
             Some d \<Rightarrow> format_comparison num pct shown listed d | None \<Rightarrow> None)
      | _ \<Rightarrow> None)"

text \<open>The classes by the outcomes of an id in the two runs.\<close>

definition outcome :: "(string, json) dict \<Rightarrow> string \<Rightarrow> bool option" where
  "outcome d eid = map_option truthy (map_of d eid)"

definition in_class :: "(string, json) dict \<Rightarrow> (string, json) dict \<Rightarrow> bool option \<Rightarrow> bool option \<Rightarrow> string list \<Rightarrow> string list" where
  "in_class a b x y ids = filter (\<lambda>eid. outcome a eid = x \<and> outcome b eid = y) ids"

definition only_in :: "(string, json) dict \<Rightarrow> (string, json) dict \<Rightarrow> string list \<Rightarrow> string list" where
  "only_in a b ids = filter (\<lambda>eid. outcome a eid \<noteq> None \<and> outcome b eid = None) ids"

lemma classify_step:
  "classify a b eid c = \<lparr>
     ic_regressions = ic_regressions c @ in_class a b (Some True) (Some False) [eid],
     ic_improvements = ic_improvements c @ in_class a b (Some False) (Some True) [eid],
     ic_unchanged_pass = ic_unchanged_pass c @ in_class a b (Some True) (Some True) [eid],
     ic_unchanged_fail = ic_unchanged_fail c @ in_class a b (Some False) (Some False) [eid],
     ic_only_in_a = ic_only_in_a c @ only_in a b [eid], ic_only_in_b = ic_only_in_b c @ only_in b a [eid]\<rparr>"
  by (cases "map_of a eid"; cases "map_of b eid") (auto simp: classify_def in_class_def only_in_def outcome_def)

lemma class_Cons:
  "in_class a b x y (eid # ids) = in_class a b x y [eid] @ in_class a b x y ids"
  "only_in a b (eid # ids) = only_in a b [eid] @ only_in a b ids"
  by (simp_all add: in_class_def only_in_def)

lemma fold_classify:
  "fold (classify a b) ids c = \<lparr>
     ic_regressions = ic_regressions c @ in_class a b (Some True) (Some False) ids,
     ic_improvements = ic_improvements c @ in_class a b (Some False) (Some True) ids,
     ic_unchanged_pass = ic_unchanged_pass c @ in_class a b (Some True) (Some True) ids,
     ic_unchanged_fail = ic_unchanged_fail c @ in_class a b (Some False) (Some False) ids,
     ic_only_in_a = ic_only_in_a c @ only_in a b ids, ic_only_in_b = ic_only_in_b c @ only_in b a ids\<rparr>"
proof (induction ids arbitrary: c)
  case Nil
  show ?case by (simp add: in_class_def only_in_def)
next
  case (Cons eid ids)
  show ?case
    unfolding fold_simps Cons classify_step [of a b eid c]
    by (simp add: class_Cons(1) [of _ _ _ _ eid ids] class_Cons(2) [of _ _ eid ids])
qed

lemma all_ids_swap: "all_ids b a = all_ids a b"
  unfolding all_ids_def by (rule sorted_distinct_set_unique) auto

lemma mcnemar_swap: "mcnemar_test rnd erfc y x = mcnemar_test rnd erfc x y"
proof -
  have "\<bar>real_of_int (y - x)\<bar> = \<bar>real_of_int (x - y)\<bar>" "y + x = x + y" by simp_all
  then show ?thesis unfolding mcnemar_test_def Let_def by (simp only:)
qed

lemma mcnemar_total: "\<exists>r. mcnemar_test rnd erfc (int x) (int y) = Inr r"
proof -
  have "\<not> (\<bar>real_of_int (int x - int y)\<bar> - 1)\<^sup>2 / real_of_int (int x + int y) < 0" by (simp add: not_less)
  then show ?thesis unfolding mcnemar_test_def chi2_survival_def Let_def by (simp del: of_int_add of_int_diff)
qed

lemma class_sizes:
  assumes "\<forall>eid \<in> set ids. outcome a eid \<noteq> None \<or> outcome b eid \<noteq> None"
  shows "length (in_class a b (Some True) (Some False) ids) + length (in_class a b (Some False) (Some True) ids)
      + length (in_class a b (Some True) (Some True) ids) + length (in_class a b (Some False) (Some False) ids)
      + length (only_in a b ids) + length (only_in b a ids) = length ids"
  using assms
proof (induction ids)
  case (Cons eid ids)
  have one: "length (in_class a b (Some True) (Some False) [eid]) + length (in_class a b (Some False) (Some True) [eid])
      + length (in_class a b (Some True) (Some True) [eid]) + length (in_class a b (Some False) (Some False) [eid])
      + length (only_in a b [eid]) + length (only_in b a [eid]) = 1"
  proof (cases "outcome a eid")
    case None
    with Cons.prems show ?thesis by (simp add: in_class_def only_in_def)
  next
    case (Some p)
    then show ?thesis by (cases p; cases "outcome b eid") (auto simp: in_class_def only_in_def)
  qed
  show ?case
    unfolding class_Cons(1) [of _ _ _ _ eid ids] class_Cons(2) [of _ _ eid ids] length_append using one Cons by simp
qed (simp add: in_class_def only_in_def)

text \<open>
  \<^bold>\<open>C31.\<close> The comparison of two runs is a classification: every example id of either run is listed in
  exactly one class, in alphabetical order (regressions passed in the first and failed in the
  second, improvements the reverse, the ids of one run only), the six class sizes add up to the
  number of ids, and McNemar's test counts the regressions against the improvements. Comparing the
  other way round swaps the classes, negates the difference of the rates and gives the same test.
\<close>

theorem compare_runs_classifies:
  assumes "compare_runs rnd erfc num run_a run_b tag_a tag_b = Some d" and "\<And>x. rnd (- x) = - rnd x"
  shows "\<exists>a b. extract_per_example run_a = Some a \<and> extract_per_example run_b = Some b
    \<and> rd_regressions d = in_class a b (Some True) (Some False) (all_ids a b)
    \<and> rd_improvements d = in_class a b (Some False) (Some True) (all_ids a b)
    \<and> rd_only_in_a d = only_in a b (all_ids a b) \<and> rd_only_in_b d = only_in b a (all_ids a b)
    \<and> length (rd_regressions d) + length (rd_improvements d) + rd_unchanged_pass d + rd_unchanged_fail d
        + length (rd_only_in_a d) + length (rd_only_in_b d) = card (fst ` set a \<union> fst ` set b)
    \<and> mcnemar_test rnd erfc (int (length (rd_regressions d))) (int (length (rd_improvements d))) = Inr (rd_mcnemar d)
    \<and> (\<exists>d'. compare_runs rnd erfc num run_b run_a tag_b tag_a = Some d'
         \<and> rd_regressions d' = rd_improvements d \<and> rd_improvements d' = rd_regressions d
         \<and> rd_only_in_a d' = rd_only_in_b d \<and> rd_only_in_b d' = rd_only_in_a d
         \<and> rd_delta d' = - rd_delta d \<and> rd_mcnemar d' = rd_mcnemar d)"
proof -
  obtain a b where ab: "extract_per_example run_a = Some a" "extract_per_example run_b = Some b"
    using assms(1) by (auto simp: compare_runs_def split: option.splits)
  let ?ids = "all_ids a b" and ?c = "classify_all a b"
  have c: "?c = fold (classify a b) ?ids no_ids" by (simp add: classify_all_def)
  have lists: "ic_regressions ?c = in_class a b (Some True) (Some False) ?ids"
      "ic_improvements ?c = in_class a b (Some False) (Some True) ?ids"
      "ic_unchanged_pass ?c = in_class a b (Some True) (Some True) ?ids"
      "ic_unchanged_fail ?c = in_class a b (Some False) (Some False) ?ids"
      "ic_only_in_a ?c = only_in a b ?ids" "ic_only_in_b ?c = only_in b a ?ids"
    unfolding c fold_classify by (simp_all add: no_ids_def)
  have swapped: "ic_regressions (classify_all b a) = ic_improvements ?c" "ic_improvements (classify_all b a) = ic_regressions ?c"
      "ic_only_in_a (classify_all b a) = ic_only_in_b ?c" "ic_only_in_b (classify_all b a) = ic_only_in_a ?c"
    unfolding lists classify_all_def [of b a] fold_classify all_ids_swap [of b a]
    by (simp_all add: no_ids_def in_class_def only_in_def conj_commute)
  have total: "length ?ids = card (fst ` set a \<union> fst ` set b)"
    unfolding all_ids_def by (simp add: length_remdups_card_conv)
  have known: "outcome a eid \<noteq> None \<or> outcome b eid \<noteq> None" if "eid \<in> set ?ids" for eid
    using that by (auto simp: all_ids_def outcome_def map_of_eq_None_iff)
  note sum = class_sizes [of ?ids a b]
  have d: "rd_regressions d = ic_regressions ?c" "rd_improvements d = ic_improvements ?c"
      "rd_unchanged_pass d = length (ic_unchanged_pass ?c)" "rd_unchanged_fail d = length (ic_unchanged_fail ?c)"
      "rd_only_in_a d = ic_only_in_a ?c" "rd_only_in_b d = ic_only_in_b ?c"
      "mcnemar_test rnd erfc (int (length (ic_regressions ?c))) (int (length (ic_improvements ?c))) = Inr (rd_mcnemar d)"
    using assms(1) ab by (auto simp: compare_runs_def Let_def split: option.splits sum.splits)
  have "\<exists>d'. compare_runs rnd erfc num run_b run_a tag_b tag_a = Some d'
         \<and> rd_regressions d' = rd_improvements d \<and> rd_improvements d' = rd_regressions d
         \<and> rd_only_in_a d' = rd_only_in_b d \<and> rd_only_in_b d' = rd_only_in_a d
         \<and> rd_delta d' = - rd_delta d \<and> rd_mcnemar d' = rd_mcnemar d"
    using assms(1) ab assms(2) [symmetric] mcnemar_swap [of rnd erfc "int (length (ic_improvements ?c))" "int (length (ic_regressions ?c))"]
    by (auto simp: compare_runs_def Let_def swapped split: option.splits sum.splits)
  moreover have "length (rd_regressions d) + length (rd_improvements d) + rd_unchanged_pass d + rd_unchanged_fail d
        + length (rd_only_in_a d) + length (rd_only_in_b d) = card (fst ` set a \<union> fst ` set b)"
    using sum known total by (simp add: d lists)
  ultimately show ?thesis using ab d lists by auto
qed

lemma compare_runs_classifies_witness:
  "\<exists>d. compare_runs (\<lambda>x. x) (\<lambda>_. 1) (\<lambda>_. Some 0)
      (JObj [(''datasets'', JObj [(''qa'', JObj [(''results'', JArr [JObj [(''id'', JStr ''x''), (''pass'', JBool True)]])])])])
      (JObj [(''datasets'', JObj [(''qa'', JObj [(''results'', JArr [JObj [(''id'', JStr ''x''), (''pass'', JBool False)]])])])])
      ''a'' ''b'' = Some d \<and> rd_regressions d = [''x''] \<and> rd_improvements d = []"
proof -
  let ?run = "\<lambda>p. JObj [(''datasets'', JObj [(''qa'', JObj [(''results'', JArr [JObj [(''id'', JStr ''x''), (''pass'', JBool p)]])])])]"
  have ex: "extract_per_example (?run p) = Some [(''x'', JBool p)]" for p
    by (simp add: extract_per_example_def get_or_def list_items_def)
  have "compare_runs (\<lambda>x. x) (\<lambda>_. 1) (\<lambda>_. Some 0) (?run True) (?run False) ''a'' ''b'' \<noteq> None"
    unfolding compare_runs_def ex
    using mcnemar_total [of "\<lambda>x. x" "\<lambda>_. 1"]
    by (simp add: nested_get_def get_or_def proportion_of_def Let_def split: sum.splits) (metis sum.simps(4))
  then obtain d where d: "compare_runs (\<lambda>x. x) (\<lambda>_. 1) (\<lambda>_. Some 0) (?run True) (?run False) ''a'' ''b'' = Some d" by blast
  have "all_ids [(''x'', JBool True)] [(''x'', JBool False)] = [''x'']" by (simp add: all_ids_def)
  with compare_runs_classifies [OF d] d show ?thesis
    unfolding ex by (auto simp: in_class_def outcome_def)
qed

subsection \<open>Agreement of judge and humans\<close>

lemma pair_counts:
  assumes "length js = length hs"
  shows "count_pairs (\<and>) js hs + count_pairs (\<lambda>j h. j \<and> \<not> h) js hs + count_pairs (\<lambda>j h. \<not> j \<and> h) js hs
      + count_pairs (\<lambda>j h. \<not> j \<and> \<not> h) js hs = length js"
    and "count_pairs (=) js hs = count_pairs (\<and>) js hs + count_pairs (\<lambda>j h. \<not> j \<and> \<not> h) js hs"
    and "length (filter id js) = count_pairs (\<and>) js hs + count_pairs (\<lambda>j h. j \<and> \<not> h) js hs"
    and "length (filter id hs) = count_pairs (\<and>) js hs + count_pairs (\<lambda>j h. \<not> j \<and> h) js hs"
    and "count_pairs (\<lambda>j h. j \<and> \<not> h) js hs = 0 \<and> count_pairs (\<lambda>j h. \<not> j \<and> h) js hs = 0 \<longleftrightarrow> js = hs"
  using assms by (induction js hs rule: list_induct2) (auto simp: count_pairs_def)

text \<open>
  With the four shares of the confusion matrix: the observed agreement exceeds the expected one by
  no less than the expected one falls short of one.
\<close>

lemma chance_product:
  fixes tp fp fn tn :: real
  assumes "0 \<le> tp" "0 \<le> fp" "0 \<le> fn" "0 \<le> tn" and "tp + fp + fn + tn = 1"
  shows "(2 * (tp + fp) - 1) * (2 * (tp + fn) - 1) \<le> tp + tn"
proof -
  have tn: "tn = 1 - tp - fp - fn" using assms(5) by simp
  have "(2 * (tp + fp) - 1) * (2 * (tp + fn) - 1) = (tp - tn)\<^sup>2 - (fp - fn)\<^sup>2"
    unfolding tn by (simp add: power2_eq_square algebra_simps)
  also have "\<dots> \<le> (tp - tn)\<^sup>2" by simp
  also have "\<dots> \<le> \<bar>tp - tn\<bar>"
  proof -
    have "\<bar>tp - tn\<bar> \<le> 1" using assms by linarith
    then have "\<bar>tp - tn\<bar> * \<bar>tp - tn\<bar> \<le> \<bar>tp - tn\<bar> * 1" by (rule mult_left_mono) simp
    then show ?thesis by (simp add: power2_eq_square)
  qed
  also have "\<dots> \<le> tp + tn" using assms by linarith
  finally show ?thesis .
qed

lemma kappa_bounds:
  fixes tp fp fn tn :: real
  assumes "0 \<le> tp" "0 \<le> fp" "0 \<le> fn" "0 \<le> tn" and sum: "tp + fp + fn + tn = 1"
  defines "e \<equiv> (tp + fp) * (tp + fn) + (1 - (tp + fp)) * (1 - (tp + fn))"
  shows "- 1 \<le> cohens_kappa (tp + tn) e" and "cohens_kappa (tp + tn) e \<le> 1"
    and "cohens_kappa (tp + tn) e = 1 \<longleftrightarrow> fp = 0 \<and> fn = 0"
proof -
  have "2 * e - 1 = (2 * (tp + fp) - 1) * (2 * (tp + fn) - 1)" by (simp add: e_def algebra_simps)
  with chance_product [OF assms(1-5)] have low: "2 * e - 1 \<le> tp + tn" by simp
  show "- 1 \<le> cohens_kappa (tp + tn) e" using low by (simp add: cohens_kappa_def pos_le_divide_eq)
  show "cohens_kappa (tp + tn) e \<le> 1" using assms(2,3) sum by (simp add: cohens_kappa_def pos_divide_le_eq)
  show "cohens_kappa (tp + tn) e = 1 \<longleftrightarrow> fp = 0 \<and> fn = 0"
  proof (cases "e < 1")
    case True
    then have "cohens_kappa (tp + tn) e = 1 \<longleftrightarrow> tp + tn = 1" by (simp add: cohens_kappa_def divide_eq_1_iff)
    then show ?thesis using assms(2,3) sum by auto
  next
    case False
    let ?p = "tp + fp" and ?q = "tp + fn"
    have pq: "0 \<le> ?p" "?p \<le> 1" "0 \<le> ?q" "?q \<le> 1" using assms by linarith+
    have "1 \<le> ?p * ?q + (1 - ?p) * (1 - ?q)" using False by (simp add: e_def)
    then have "?p * (1 - ?q) + (1 - ?p) * ?q \<le> 0" by (simp add: algebra_simps)
    moreover have "0 \<le> ?p * (1 - ?q)" "0 \<le> (1 - ?p) * ?q" using pq by simp_all
    ultimately have "?p * (1 - ?q) = 0" "(1 - ?p) * ?q = 0" by linarith+
    then have "?p = 0 \<and> ?q = 0 \<or> ?p = 1 \<and> ?q = 1" by auto
    then have "fp = 0 \<and> fn = 0" using assms(1-5) by linarith
    with False show ?thesis by (simp add: cohens_kappa_def)
  qed
qed

text \<open>
  The agreement of judge and human labels is well formed: the confusion matrix counts every
  example once, the accuracy is the share of its diagonal, Cohen's kappa (before rounding) lies
  between -1 and 1, and it is 1 if and only if judge and humans agree on every example, also where
  chance agreement is certain and the quotient has no value.
\<close>

theorem judge_agreement_bounds:
  assumes "length js = length hs" and "js \<noteq> []"
  shows "\<exists>tp fp fn tn kappa. ag_matrix (judge_human_agreement rnd js hs) = Some (tp, fp, fn, tn)
    \<and> tp + fp + fn + tn = length js \<and> ag_n (judge_human_agreement rnd js hs) = length js
    \<and> ag_accuracy (judge_human_agreement rnd js hs) = rnd (real (tp + tn) / real (length js))
    \<and> ag_kappa (judge_human_agreement rnd js hs) = rnd kappa
    \<and> kappa \<in> {-1..1} \<and> (kappa = 1 \<longleftrightarrow> js = hs)"
proof -
  let ?n = "real (length js)"
  let ?tp = "count_pairs (\<and>) js hs" and ?fp = "count_pairs (\<lambda>j h. j \<and> \<not> h) js hs"
    and ?fn = "count_pairs (\<lambda>j h. \<not> j \<and> h) js hs" and ?tn = "count_pairs (\<lambda>j h. \<not> j \<and> \<not> h) js hs"
  note counts = pair_counts [OF assms(1)]
  have n: "0 < ?n" using assms(2) by simp
  have sum: "real ?tp / ?n + real ?fp / ?n + real ?fn / ?n + real ?tn / ?n = 1"
    using n counts(1) by (simp add: add_divide_distrib [symmetric] flip: of_nat_add)
  have yes: "share_true js (length js) = real ?tp / ?n + real ?fp / ?n" "share_true hs (length js) = real ?tp / ?n + real ?fn / ?n"
    by (simp_all add: share_true_def counts(3,4) add_divide_distrib)
  have acc: "real (count_pairs (=) js hs) / ?n = real ?tp / ?n + real ?tn / ?n"
    by (simp add: counts(2) add_divide_distrib)
  let ?e = "(real ?tp / ?n + real ?fp / ?n) * (real ?tp / ?n + real ?fn / ?n)
      + (1 - (real ?tp / ?n + real ?fp / ?n)) * (1 - (real ?tp / ?n + real ?fn / ?n))"
  let ?kappa = "cohens_kappa (real ?tp / ?n + real ?tn / ?n) ?e"
  note bounds = kappa_bounds [OF _ _ _ _ sum]
  have "?kappa \<in> {-1..1}" using bounds(1,2) by simp
  moreover have "?kappa = 1 \<longleftrightarrow> js = hs" using bounds(3) counts(5) n by simp
  moreover have "ag_kappa (judge_human_agreement rnd js hs) = rnd ?kappa"
    using assms(2) by (simp add: judge_human_agreement_def Let_def yes acc)
  moreover have "ag_accuracy (judge_human_agreement rnd js hs) = rnd (real (?tp + ?tn) / ?n)"
    "ag_matrix (judge_human_agreement rnd js hs) = Some (?tp, ?fp, ?fn, ?tn)" "ag_n (judge_human_agreement rnd js hs) = length js"
    using assms(2) by (simp_all add: judge_human_agreement_def Let_def counts(2))
  ultimately show ?thesis using counts(1) by blast
qed

lemma judge_agreement_bounds_witness:
  "\<exists>kappa. ag_kappa (judge_human_agreement (\<lambda>x. x) [True, False] [True, True]) = kappa \<and> kappa \<in> {-1..1} \<and> kappa \<noteq> 1"
  using judge_agreement_bounds [of "[True, False]" "[True, True]" "\<lambda>x. x"] by auto

subsection \<open>The runner (runner.py): examples\<close>

text \<open>
  A data set is a JSONL file: \<open>files\<close> maps a path to the lines of the file there; blank lines are
  skipped, one bad line rejects the file. \<open>names\<close> is the listing of the directory.
\<close>

fun all_some :: "'a option list \<Rightarrow> 'a list option" where
  "all_some [] = Some []"
| "all_some (x # xs) =
     (case x of None \<Rightarrow> None | Some y \<Rightarrow> (case all_some xs of None \<Rightarrow> None | Some ys \<Rightarrow> Some (y # ys)))"

definition read_jsonl :: "string list \<Rightarrow> json list option" where
  "read_jsonl file_lines = all_some (map loads (filter (\<lambda>l. l \<noteq> []) (map py_strip file_lines)))"

definition dataset_path :: "string \<Rightarrow> string \<Rightarrow> string" where
  "dataset_path dir ds_name = dir @ ''/'' @ ds_name @ ''.jsonl''"

definition load_dataset :: "(string \<Rightarrow> string list option) \<Rightarrow> string \<Rightarrow> string \<Rightarrow> (string, json list) result" where
  "load_dataset files dir ds_name =
     (case files (dataset_path dir ds_name) of
        None \<Rightarrow> Inl (''Dataset not found: '' @ dataset_path dir ds_name)
      | Some file_lines \<Rightarrow> (case read_jsonl file_lines of None \<Rightarrow> Inl ''JSONDecodeError'' | Some examples \<Rightarrow> Inr examples))"

definition list_datasets :: "string list \<Rightarrow> string list" where
  "list_datasets names =
     sort (map (\<lambda>f. take (length f - 6) f) (filter (\<lambda>f. 6 < length f \<and> drop (length f - 6) f = ''.jsonl'') names))"

text \<open>The data sets that the command line selects; None is the usage error.\<close>

definition selected_datasets :: "string list \<Rightarrow> bool \<Rightarrow> string option \<Rightarrow> string list option" where
  "selected_datasets names all_flag dataset =
     (if all_flag then Some (list_datasets names)
      else case dataset of Some (c # cs) \<Rightarrow> Some [c # cs] | _ \<Rightarrow> None)"

text \<open>
  \<open>hn_round\<close> is \<open>round(x, 4)\<close>, \<open>hn_str\<close> is \<open>str\<close>, \<open>hn_float\<close> reads a number lexeme and prints the float
  (\<open>repr(float(l))\<close>). The ids of examples, their answers and chunk names are strings.
\<close>

record harness =
  hn_round :: "real \<Rightarrow> real"
  hn_str :: "json \<Rightarrow> string"
  hn_float :: "string \<Rightarrow> string"

definition refusal_text :: string where
  "refusal_text = ''I cannot determine this from the available information. The provided context does not contain the data needed to answer this question.''"

definition simulate_answer :: "harness \<Rightarrow> json \<Rightarrow> string option" where
  "simulate_answer h example =
     (case get_or example ''expected'' (JStr []) of
        None \<Rightarrow> None
      | Some expected \<Rightarrow>
          Some (if expected = JStr ''REFUSE'' then refusal_text
            else case expected of
                   JObj _ \<Rightarrow> pretty 0 expected
                 | JArr _ \<Rightarrow> pretty 0 expected
                 | JStr s \<Rightarrow> s
                 | _ \<Rightarrow> hn_str h expected))"

text \<open>What the result classes print: the scores rounded.\<close>

definition rounded_match :: "(real \<Rightarrow> real) \<Rightarrow> match_result \<Rightarrow> match_result" where
  "rounded_match rnd m = m\<lparr>mr_fuzzy := rnd (mr_fuzzy m), mr_keyword_recall := rnd (mr_keyword_recall m)\<rparr>"

definition rounded_ground :: "(real \<Rightarrow> real) \<Rightarrow> groundedness_result \<Rightarrow> groundedness_result" where
  "rounded_ground rnd g = g\<lparr>gr_score := rnd (gr_score g)\<rparr>"

definition rounded_wilson :: "(real \<Rightarrow> real) \<Rightarrow> wilson_interval \<Rightarrow> wilson_interval" where
  "rounded_wilson rnd w = w\<lparr>wi_proportion := rnd (wi_proportion w), wi_lower := rnd (wi_lower w), wi_upper := rnd (wi_upper w)\<rparr>"

record oracle_comparison =
  oc_retrieved_pass :: bool
  oc_oracle_pass :: bool
  oc_diagnosis :: string

definition diagnose :: "bool \<Rightarrow> bool \<Rightarrow> string" where
  "diagnose oracle_pass retrieved_pass =
     (if oracle_pass \<and> retrieved_pass then ''working''
      else if oracle_pass \<and> \<not> retrieved_pass then ''retrieval_failure''
      else if \<not> oracle_pass \<and> retrieved_pass then ''generation_failure''
      else ''both_failing'')"

record example_result =
  er_id :: string
  er_category :: json
  er_pass :: bool
  er_refused :: "bool option"
  er_match :: "match_result option"
  er_ground :: "groundedness_result option"
  er_retrieval :: "(string \<times> metric) list option"
  er_oracle :: "oracle_comparison option"
  er_dry_run :: bool

definition blank_result :: "string \<Rightarrow> json \<Rightarrow> bool \<Rightarrow> example_result" where
  "blank_result eid category passed = \<lparr>er_id = eid, er_category = category, er_pass = passed, er_refused = None, er_match = None,
     er_ground = None, er_retrieval = None, er_oracle = None, er_dry_run = False\<rparr>"

definition id_of :: "json \<Rightarrow> string option" where
  "id_of example = (case jget example ''id'' of Some (JStr eid) \<Rightarrow> Some eid | _ \<Rightarrow> None)"

definition category_of :: "json \<Rightarrow> json" where
  "category_of example = jget_def example ''category'' (JStr ''unknown'')"

text \<open>\<open>str(expected)\<close>.\<close>

definition text_of :: "harness \<Rightarrow> json \<Rightarrow> string" where
  "text_of h v = (case v of JStr s \<Rightarrow> s | _ \<Rightarrow> hn_str h v)"

definition strings :: "json list \<Rightarrow> string list option" where
  "strings vs = (if list_all (\<lambda>v. case v of JStr _ \<Rightarrow> True | _ \<Rightarrow> False) vs then Some (map (\<lambda>v. case v of JStr s \<Rightarrow> s | _ \<Rightarrow> []) vs) else None)"

text \<open>The chunks of a context: a falsy value is none; in the runner a text is one chunk.\<close>

definition chunk_list :: "json \<Rightarrow> string list option" where
  "chunk_list context =
     (if \<not> truthy context then Some [] else case list_items context of Some vs \<Rightarrow> strings vs | None \<Rightarrow> None)"

definition context_chunks :: "json \<Rightarrow> string list option" where
  "context_chunks context =
     (case context of JStr t \<Rightarrow> Some (if t \<noteq> [] then [t] else []) | _ \<Rightarrow> chunk_list context)"

definition rag_outcome :: "harness \<Rightarrow> json \<Rightarrow> string \<Rightarrow> string \<Rightarrow> example_result option" where
  "rag_outcome h example eid answer =
     (let category = category_of example
      in if category = JStr ''cross_tenant_isolation''
         then Some ((blank_result eid category (check_refusal answer))\<lparr>er_refused := Some (check_refusal answer)\<rparr>)
         else case context_chunks (jget_def example ''context'' (JStr [])) of
                None \<Rightarrow> None
              | Some chunks \<Rightarrow>
                  (let m = check_match answer (text_of h (jget_def example ''expected'' (JStr [])))
                   in Some ((blank_result eid category (1 / 2 \<le> mr_keyword_recall m))\<lparr>er_match := Some (rounded_match (hn_round h) m),
                        er_ground := Some (rounded_ground (hn_round h) (check_groundedness answer chunks (3 / 10)))\<rparr>)))"

definition evaluate_rag_qa :: "harness \<Rightarrow> json \<Rightarrow> string \<Rightarrow> example_result option" where
  "evaluate_rag_qa h example answer =
     (case id_of example of
        None \<Rightarrow> None
      | Some eid \<Rightarrow>
          (case (rag_outcome h example eid answer, list_items (jget_def example ''relevant_chunks'' (JArr []))) of
             (Some base, Some chunks) \<Rightarrow>
               (case strings chunks of
                  None \<Rightarrow> None
                | Some relevant \<Rightarrow>
                    Some (base\<lparr>er_retrieval := Some (ranking_dict (hn_round h) (evaluate_retrieval eid relevant relevant)),
                      er_oracle := Some \<lparr>oc_retrieved_pass = er_pass base, oc_oracle_pass = er_pass base,
                        oc_diagnosis = diagnose (er_pass base) (er_pass base)\<rparr>\<rparr>))
           | _ \<Rightarrow> None))"

text \<open>What \<open>json.loads\<close> gives, floats included.\<close>

fun reread :: "(string \<Rightarrow> string) \<Rightarrow> json \<Rightarrow> json" where
  "reread fl (JFloat l) = JFloat (fl l)"
| "reread fl (JArr vs) = JArr (map (reread fl) vs)"
| "reread fl (JObj kvs) = JObj (map (\<lambda>(k, v). (k, reread fl v)) kvs)"
| "reread fl v = v"

definition sorted_dump :: "json \<Rightarrow> string" where
  "sorted_dump v = dumps (json_sort v)"

definition extraction_outcome :: "harness \<Rightarrow> json \<Rightarrow> string \<Rightarrow> bool \<times> match_result" where
  "extraction_outcome h expected answer =
     (if (case expected of JObj _ \<Rightarrow> True | JArr _ \<Rightarrow> True | _ \<Rightarrow> False) then
        (let expected_str = sorted_dump expected
         in (case loads (py_strip answer) of
               None \<Rightarrow> False
             | Some parsed \<Rightarrow> sorted_dump (reread (hn_float h) parsed) = expected_str, check_match answer expected_str))
      else (let m = check_match answer (text_of h expected) in (mr_exact m, m)))"

definition evaluate_extraction :: "harness \<Rightarrow> json \<Rightarrow> string \<Rightarrow> example_result option" where
  "evaluate_extraction h example answer =
     (case id_of example of
        None \<Rightarrow> None
      | Some eid \<Rightarrow>
          (case extraction_outcome h (jget_def example ''expected'' (JStr [])) answer of
             (exact, m) \<Rightarrow>
               Some ((blank_result eid (category_of example) (exact \<or> 6 / 10 \<le> mr_keyword_recall m))
                 \<lparr>er_match := Some (rounded_match (hn_round h) m)\<rparr>)))"

definition evaluate_refusal :: "json \<Rightarrow> string \<Rightarrow> example_result option" where
  "evaluate_refusal example answer =
     (case id_of example of
        None \<Rightarrow> None
      | Some eid \<Rightarrow> Some ((blank_result eid (category_of example) (check_refusal answer))\<lparr>er_refused := Some (check_refusal answer)\<rparr>))"

definition run_example :: "harness \<Rightarrow> string \<Rightarrow> bool \<Rightarrow> json \<Rightarrow> example_result option" where
  "run_example h ds_name dry_run example =
     (if dry_run then (case id_of example of
          None \<Rightarrow> None | Some eid \<Rightarrow> Some ((blank_result eid JNull True)\<lparr>er_dry_run := True\<rparr>))
      else case simulate_answer h example of
             None \<Rightarrow> None
           | Some answer \<Rightarrow>
               (if ds_name = ''rag_qa'' then evaluate_rag_qa h example answer
                else if ds_name = ''extraction'' then evaluate_extraction h example answer
                else if ds_name = ''refusal'' then evaluate_refusal example answer
                else evaluate_rag_qa h example answer))"

text \<open>Calibration of the groundedness heuristic against the human labels.\<close>

definition calibrate_one :: "json \<Rightarrow> (bool \<times> bool) option" where
  "calibrate_one ex =
     (case (jget ex ''answer'', chunk_list (jget_def ex ''context'' (JArr [])), jget ex ''human_grounded'') of
        (Some (JStr answer), Some chunks, Some (JBool human)) \<Rightarrow>
          Some (7 / 10 \<le> gr_score (check_groundedness answer chunks (3 / 10)), human)
      | _ \<Rightarrow> None)"

datatype calibration = Skipped | Not_Found | Calibrated agreement

definition run_calibration :: "harness \<Rightarrow> string list option \<Rightarrow> calibration option" where
  "run_calibration h labelled =
     (case labelled of
        None \<Rightarrow> Some Not_Found
      | Some file_lines \<Rightarrow>
          (case read_jsonl file_lines of
             None \<Rightarrow> None
           | Some examples \<Rightarrow>
               (case all_some (map calibrate_one examples) of
                  None \<Rightarrow> None
                | Some ps \<Rightarrow> Some (Calibrated (judge_human_agreement (hn_round h) (map fst ps) (map snd ps))))))"

subsection \<open>The report\<close>

record ds_report =
  ds_n :: nat
  ds_pass_rate :: wilson_interval
  ds_results :: "example_result list"
  ds_avg_groundedness :: "real option"
  ds_avg_fuzzy_score :: "real option"
  ds_avg_keyword_recall :: "real option"
  ds_retrieval_metrics :: "(string \<times> metric) list option"
  ds_oracle_summary :: "(string \<times> nat) list option"
  ds_refusal_rate :: "wilson_interval option"

text \<open>The optional part of a result that is there, in order.\<close>

definition present :: "('a \<Rightarrow> 'b option) \<Rightarrow> 'a list \<Rightarrow> 'b list" where
  "present f rs = concat (map (\<lambda>r. case f r of None \<Rightarrow> [] | Some x \<Rightarrow> [x]) rs)"

definition average :: "(real \<Rightarrow> real) \<Rightarrow> real list \<Rightarrow> real option" where
  "average rnd xs = (if xs = [] then None else Some (rnd (sum_list xs / real (length xs))))"

definition score_at :: "(string \<times> metric) list \<Rightarrow> string \<Rightarrow> real" where
  "score_at d k = (case map_of d k of Some (Score x) \<Rightarrow> x | _ \<Rightarrow> 0)"

definition text_at :: "(string \<times> metric) list \<Rightarrow> string \<Rightarrow> string" where
  "text_at d k = (case map_of d k of Some (Text t) \<Rightarrow> t | _ \<Rightarrow> [])"

text \<open>The stored (rounded) scores make up a ranking again; the chunk lists are not needed.\<close>

definition restored_ranking :: "(string \<times> metric) list \<Rightarrow> ranking_result" where
  "restored_ranking rd = \<lparr>rk_query_id = text_at rd ''query_id'', rk_relevant = {}, rk_retrieved = [],
     rk_recall_1 = score_at rd ''recall@1'', rk_recall_3 = score_at rd ''recall@3'', rk_recall_5 = score_at rd ''recall@5'',
     rk_recall_10 = score_at rd ''recall@10'', rk_mrr = score_at rd ''mrr'', rk_ndcg_10 = score_at rd ''ndcg@10'',
     rk_context_precision = score_at rd ''context_precision''\<rparr>"

definition count_diagnosis :: "oracle_comparison \<Rightarrow> (string \<times> nat) list \<Rightarrow> (string \<times> nat) list" where
  "count_diagnosis oc d = AList.update (oc_diagnosis oc) (Suc (case map_of d (oc_diagnosis oc) of Some n \<Rightarrow> n | None \<Rightarrow> 0)) d"

definition oracle_counts :: "example_result list \<Rightarrow> (string \<times> nat) list" where
  "oracle_counts rs = fold count_diagnosis (present er_oracle rs)
     [(''working'', 0), (''retrieval_failure'', 0), (''generation_failure'', 0), (''both_failing'', 0)]"

definition count_passes :: "example_result list \<Rightarrow> nat" where
  "count_passes rs = length (filter er_pass rs)"

definition keyword_average :: "harness \<Rightarrow> example_result list \<Rightarrow> real option" where
  "keyword_average h rs = average (hn_round h) (map mr_keyword_recall (present er_match rs))"

definition dataset_report :: "harness \<Rightarrow> string \<Rightarrow> example_result list \<Rightarrow> (string, ds_report) result" where
  "dataset_report h ds_name rs =
     (let n = int (length rs); rnd = hn_round h
      in case (wilson_ci (int (count_passes rs)) n (95 / 100), wilson_ci (int (length (filter (\<lambda>r. er_refused r = Some True) rs))) n (95 / 100)) of
           (Inr ci, Inr refusal_ci) \<Rightarrow>
             (let base = \<lparr>ds_n = length rs, ds_pass_rate = rounded_wilson rnd ci, ds_results = rs, ds_avg_groundedness = None,
                    ds_avg_fuzzy_score = None, ds_avg_keyword_recall = None, ds_retrieval_metrics = None, ds_oracle_summary = None,
                    ds_refusal_rate = None\<rparr>
              in Inr (if ds_name = ''rag_qa'' then
                        base\<lparr>ds_avg_groundedness := average rnd (map gr_score (present er_ground rs)),
                          ds_avg_fuzzy_score := average rnd (map mr_fuzzy (present er_match rs)),
                          ds_avg_keyword_recall := keyword_average h rs,
                          ds_retrieval_metrics := (let objs = map restored_ranking (present er_retrieval rs)
                             in if objs = [] then None else Some (aggregate_retrieval_metrics rnd objs)),
                          ds_oracle_summary := Some (oracle_counts rs)\<rparr>
                      else if ds_name = ''refusal'' then base\<lparr>ds_refusal_rate := Some (rounded_wilson rnd refusal_ci)\<rparr>
                      else if ds_name = ''extraction'' then base\<lparr>ds_avg_keyword_recall := keyword_average h rs\<rparr>
                      else base))
         | (Inl e, _) \<Rightarrow> Inl e
         | (_, Inl e) \<Rightarrow> Inl e)"

record eval_report =
  rp_tag :: string
  rp_calibration :: calibration
  rp_datasets :: "(string \<times> ds_report) list"
  rp_total_examples :: nat
  rp_overall_pass_rate :: wilson_interval
  rp_mde :: real

fun dataset_reports :: "harness \<Rightarrow> (string \<times> example_result list) list \<Rightarrow> (string, (string \<times> ds_report) list) result" where
  "dataset_reports h [] = Inr []"
| "dataset_reports h ((ds_name, rs) # rest) =
     (case dataset_report h ds_name rs of
        Inl e \<Rightarrow> Inl e
      | Inr r \<Rightarrow> (case dataset_reports h rest of Inl e \<Rightarrow> Inl e | Inr out \<Rightarrow> Inr ((ds_name, r) # out)))"

definition build_report ::
  "harness \<Rightarrow> (string \<times> example_result list) list \<Rightarrow> string \<Rightarrow> calibration \<Rightarrow> (string, eval_report) result" where
  "build_report h dataset_results tag calibration =
     (let total_pass = sum_list (map (count_passes \<circ> snd) dataset_results);
          total_examples = sum_list (map (length \<circ> snd) dataset_results)
      in case dataset_reports h dataset_results of
           Inl e \<Rightarrow> Inl e
         | Inr reports \<Rightarrow>
             (case (wilson_ci (int total_pass) (int total_examples) (95 / 100), minimum_detectable_effect (int total_examples) (95 / 100)) of
                (Inr ci, Inr mde) \<Rightarrow>
                  Inr \<lparr>rp_tag = tag, rp_calibration = calibration, rp_datasets = reports, rp_total_examples = total_examples,
                    rp_overall_pass_rate = rounded_wilson (hn_round h) ci, rp_mde = hn_round h mde\<rparr>
              | (Inl e, _) \<Rightarrow> Inl e
              | (_, Inl e) \<Rightarrow> Inl e))"

text \<open>
  \<open>calibration_set\<close> holds the lines of the labelled examples if the file exists; \<open>sha\<close> is the short
  hash of the commit. A data set named twice is run twice and reported once.
\<close>

fun run_datasets ::
  "harness \<Rightarrow> (string \<Rightarrow> (string, json list) result) \<Rightarrow> bool \<Rightarrow> string list \<Rightarrow> (string \<times> example_result list) list
     \<Rightarrow> (string, (string \<times> example_result list) list) result" where
  "run_datasets h load dry_run [] acc = Inr acc"
| "run_datasets h load dry_run (ds_name # names) acc =
     (case load ds_name of
        Inl e \<Rightarrow> Inl e
      | Inr examples \<Rightarrow>
          (case all_some (map (run_example h ds_name dry_run) examples) of
             None \<Rightarrow> Inl ''KeyError''
           | Some rs \<Rightarrow> run_datasets h load dry_run names (AList.update ds_name rs acc)))"

definition run_eval ::
  "harness \<Rightarrow> (string \<Rightarrow> string list option) \<Rightarrow> string \<Rightarrow> string list option \<Rightarrow> string \<Rightarrow> string list \<Rightarrow> string option \<Rightarrow> bool
     \<Rightarrow> (string, eval_report) result" where
  "run_eval h files dir calibration_set sha datasets tag dry_run =
     (case run_datasets h (load_dataset files dir) dry_run datasets [] of
        Inl e \<Rightarrow> Inl e
      | Inr dataset_results \<Rightarrow>
          (let the_tag = (case tag of Some (c # cs) \<Rightarrow> c # cs | _ \<Rightarrow> sha)
           in case (if dry_run then Some Skipped else run_calibration h calibration_set) of
                None \<Rightarrow> Inl ''KeyError''
              | Some cal \<Rightarrow> build_report h dataset_results the_tag cal))"

subsection \<open>The simulated baseline\<close>

lemma strip_ends:
  assumes "s \<noteq> []" and "\<not> is_space (hd s)" and "\<not> is_space (last s)"
  shows "py_strip s = s"
proof -
  have "dropWhile is_space s = s" using assms(1,2) by (cases s) auto
  moreover have "dropWhile is_space (rev s) = rev s"
    using assms(1,3) by (cases "rev s") (auto simp: hd_rev [symmetric])
  ultimately show ?thesis by (simp add: py_strip_def lstrip_def)
qed

lemma strip_pretty:
  assumes "(\<exists>kvs. v = JObj kvs) \<or> (\<exists>xs. v = JArr xs)"
  shows "py_strip (pretty n v) = pretty n v"
proof (rule strip_ends)
  show "pretty n v \<noteq> []" "\<not> is_space (hd (pretty n v))" "\<not> is_space (last (pretty n v))"
    using assms by (cases "(n, v)" rule: pretty.cases; auto simp: is_space_def code_def Let_def)+
qed

text \<open>Values whose floats are printed as they are written.\<close>

definition canonical :: "harness \<Rightarrow> json \<Rightarrow> bool" where
  "canonical h v \<longleftrightarrow> json_ok v \<and> reread (hn_float h) v = v"

lemma simulated_refusal: "check_refusal refusal_text"
  by code_simp

lemma simulated_extraction:
  assumes "canonical h v" and "(\<exists>kvs. v = JObj kvs) \<or> (\<exists>xs. v = JArr xs)"
  shows "fst (extraction_outcome h v (pretty 0 v))"
  using assms loads_pretty [of v 0] strip_pretty [OF assms(2), of 0]
  by (auto simp: extraction_outcome_def canonical_def Let_def simp del: pretty.simps reread.simps)

subsection \<open>The report is consistent\<close>

lemma rate_total: "0 \<le> k \<Longrightarrow> k \<le> n \<Longrightarrow> \<exists>w. wilson_ci k n (95 / 100) = Inr w"
  using wilson_ci_bounds [of k n "95 / 100" "196 / 100"]
  by (cases "n = 0") (auto simp: z_score_def wilson_ci_def)

text \<open>Rounding to four digits: monotone, and exact on 0 and 1.\<close>

definition rounding :: "(real \<Rightarrow> real) \<Rightarrow> bool" where
  "rounding rnd \<longleftrightarrow> mono rnd \<and> rnd 0 = 0 \<and> rnd 1 = 1"

definition proportion_ok :: "wilson_interval \<Rightarrow> bool" where
  "proportion_ok w \<longleftrightarrow> 0 \<le> wi_lower w \<and> wi_lower w \<le> wi_proportion w \<and> wi_proportion w \<le> wi_upper w \<and> wi_upper w \<le> 1"

lemma rounded_rate:
  assumes "rounding rnd" and "0 \<le> k" and "k \<le> n" and "0 < n" and "wilson_ci k n (95 / 100) = Inr w"
  shows "proportion_ok (rounded_wilson rnd w) \<and> wi_proportion (rounded_wilson rnd w) = rnd (of_int k / of_int n)"
proof -
  have "0 \<le> wi_lower w" "wi_lower w \<le> wi_proportion w" "wi_proportion w \<le> wi_upper w" "wi_upper w \<le> 1"
    "wi_proportion w = of_int k / of_int n"
    using wilson_ci_bounds [of k n "95 / 100" "196 / 100"] assms by (auto simp: z_score_def)
  then show ?thesis
    using assms(1) monoD [of rnd] unfolding rounding_def
    by (auto simp: proportion_ok_def rounded_wilson_def dest: monoD)
qed

lemma count_passes_le: "count_passes rs \<le> length rs"
  by (simp add: count_passes_def)

lemma dataset_report_total:
  "\<exists>d. dataset_report h ds_name rs = Inr d \<and> ds_n d = length rs \<and> ds_results d = rs
     \<and> (\<forall>oc. ds_oracle_summary d = Some oc \<longrightarrow> oc = oracle_counts rs)
     \<and> (rounding (hn_round h) \<longrightarrow> rs \<noteq> [] \<longrightarrow> proportion_ok (ds_pass_rate d)
          \<and> wi_proportion (ds_pass_rate d) = hn_round h (real (count_passes rs) / real (length rs)))"
proof -
  obtain ci where ci: "wilson_ci (int (count_passes rs)) (int (length rs)) (95 / 100) = Inr ci"
    using rate_total [of "int (count_passes rs)" "int (length rs)"] count_passes_le [of rs] by auto
  obtain rci where rci: "wilson_ci (int (length (filter (\<lambda>r. er_refused r = Some True) rs))) (int (length rs)) (95 / 100) = Inr rci"
    using rate_total [of "int (length (filter (\<lambda>r. er_refused r = Some True) rs))" "int (length rs)"] by auto
  have "rounding (hn_round h) \<Longrightarrow> rs \<noteq> [] \<Longrightarrow> proportion_ok (rounded_wilson (hn_round h) ci)
      \<and> wi_proportion (rounded_wilson (hn_round h) ci) = hn_round h (real (count_passes rs) / real (length rs))"
    using rounded_rate [of "hn_round h" "int (count_passes rs)" "int (length rs)" ci] ci count_passes_le [of rs] by simp
  then show ?thesis unfolding dataset_report_def Let_def ci rci by auto
qed

lemma dataset_reports_total:
  "\<exists>ds. dataset_reports h drs = Inr ds \<and> list_all2 (\<lambda>(n, rs) (n', d). n' = n \<and> dataset_report h n rs = Inr d) drs ds"
proof (induction drs)
  case (Cons p drs)
  obtain n rs where p: "p = (n, rs)" by (cases p)
  obtain d where "dataset_report h n rs = Inr d" using dataset_report_total by blast
  with Cons p show ?case by auto
qed simp

lemma counts_sum:
  "distinct (map fst d) \<Longrightarrow> sum_list (map snd (fold count_diagnosis ocs d)) = sum_list (map snd d) + length ocs"
proof (induction ocs arbitrary: d)
  case (Cons oc ocs)
  have step: "distinct (map fst d) \<Longrightarrow> sum_list (map snd (count_diagnosis oc d)) = Suc (sum_list (map snd d))" for d
    unfolding count_diagnosis_def by (induction d) (auto split: option.splits)
  have "distinct (map fst (count_diagnosis oc d))"
    using Cons.prems by (simp add: count_diagnosis_def distinct_update)
  with Cons step show ?case by simp
qed simp

lemma oracle_counts_sum: "sum_list (map snd (oracle_counts rs)) = length (present er_oracle rs)"
  unfolding oracle_counts_def by (subst counts_sum) simp_all

lemma passes_le_total: "sum_list (map (count_passes \<circ> snd) drs) \<le> sum_list (map (length \<circ> snd) drs)"
  by (rule sum_list_mono) (simp add: count_passes_le)

lemma list_all2_right: "list_all2 P xs ys \<Longrightarrow> y \<in> set ys \<Longrightarrow> \<exists>x \<in> set xs. P x y"
  by (induction rule: list_all2_induct) auto

lemma mde_total: "\<exists>x. minimum_detectable_effect (int n) (95 / 100) = Inr x"
proof (cases "n = 0")
  case False
  then show ?thesis
    by (auto simp: minimum_detectable_effect_def z_score_def intro!: exI [of _ "98 / 25 * sqrt (1 / (4 * real n))"])
qed (simp add: minimum_detectable_effect_def)

text \<open>A report is always built; its rates are those of the results it is given.\<close>

lemma eval_report_consistent:
  assumes "rounding (hn_round h)"
  shows "\<exists>r. build_report h drs tag cal = Inr r \<and> map fst (rp_datasets r) = map fst drs
    \<and> map (ds_results \<circ> snd) (rp_datasets r) = map snd drs
    \<and> map (ds_n \<circ> snd) (rp_datasets r) = map (length \<circ> snd) drs
    \<and> rp_total_examples r = sum_list (map (ds_n \<circ> snd) (rp_datasets r))
    \<and> (\<forall>d \<in> snd ` set (rp_datasets r).
         (ds_results d \<noteq> [] \<longrightarrow> proportion_ok (ds_pass_rate d)
            \<and> wi_proportion (ds_pass_rate d) = hn_round h (real (count_passes (ds_results d)) / real (length (ds_results d))))
         \<and> (\<forall>oc. ds_oracle_summary d = Some oc \<longrightarrow> sum_list (map snd oc) = length (present er_oracle (ds_results d))))
    \<and> (rp_total_examples r \<noteq> 0 \<longrightarrow> proportion_ok (rp_overall_pass_rate r)
         \<and> wi_proportion (rp_overall_pass_rate r)
           = hn_round h (real (sum_list (map (count_passes \<circ> snd) drs)) / real (rp_total_examples r)))"
proof -
  let ?passes = "sum_list (map (count_passes \<circ> snd) drs)" and ?total = "sum_list (map (length \<circ> snd) drs)"
  obtain ds where ds: "dataset_reports h drs = Inr ds"
      "list_all2 (\<lambda>(n, rs) (n', d). n' = n \<and> dataset_report h n rs = Inr d) drs ds"
    using dataset_reports_total by blast
  obtain ci where ci: "wilson_ci (int ?passes) (int ?total) (95 / 100) = Inr ci"
    using rate_total [of "int ?passes" "int ?total"] passes_le_total [of drs] by auto
  obtain x where x: "minimum_detectable_effect (int ?total) (95 / 100) = Inr x" using mde_total by blast
  have report: "build_report h drs tag cal = Inr \<lparr>rp_tag = tag, rp_calibration = cal, rp_datasets = ds,
      rp_total_examples = ?total, rp_overall_pass_rate = rounded_wilson (hn_round h) ci, rp_mde = hn_round h x\<rparr>"
    unfolding build_report_def Let_def ds(1) ci x by simp
  have one: "ds_n d = length rs \<and> ds_results d = rs \<and> (rs \<noteq> [] \<longrightarrow> proportion_ok (ds_pass_rate d)
      \<and> wi_proportion (ds_pass_rate d) = hn_round h (real (count_passes rs) / real (length rs)))
      \<and> (\<forall>oc. ds_oracle_summary d = Some oc \<longrightarrow> sum_list (map snd oc) = length (present er_oracle rs))"
    if "dataset_report h n rs = Inr d" for n rs d
    using dataset_report_total [of h n rs] that assms oracle_counts_sum by auto
  have lists: "map fst ds = map fst drs \<and> map (ds_results \<circ> snd) ds = map snd drs
      \<and> map (ds_n \<circ> snd) ds = map (length \<circ> snd) drs"
    using ds(2) by (induction rule: list_all2_induct) (auto dest: one)
  have each: "\<exists>n rs. dataset_report h n rs = Inr d" if "d \<in> snd ` set ds" for d
  proof -
    from that obtain n where "(n, d) \<in> set ds" by auto
    from list_all2_right [OF ds(2) this] obtain p where "dataset_report h (fst p) (snd p) = Inr d"
      unfolding case_prod_beta by auto
    then show ?thesis by blast
  qed
  have "?total \<noteq> 0 \<Longrightarrow> proportion_ok (rounded_wilson (hn_round h) ci)
      \<and> wi_proportion (rounded_wilson (hn_round h) ci) = hn_round h (real ?passes / real ?total)"
  proof -
    assume "?total \<noteq> 0"
    then have "0 \<le> int ?passes" "int ?passes \<le> int ?total" "0 < int ?total"
      using passes_le_total [of drs] by linarith+
    from rounded_rate [OF assms this ci] show ?thesis by simp
  qed
  moreover have "\<forall>d \<in> snd ` set ds. (ds_results d \<noteq> [] \<longrightarrow> proportion_ok (ds_pass_rate d)
            \<and> wi_proportion (ds_pass_rate d) = hn_round h (real (count_passes (ds_results d)) / real (length (ds_results d))))
         \<and> (\<forall>oc. ds_oracle_summary d = Some oc \<longrightarrow> sum_list (map snd oc) = length (present er_oracle (ds_results d)))"
    using each one by metis
  ultimately show ?thesis using report lists by (intro exI conjI) (assumption | simp)+
qed

lemma all_some_iff: "all_some xs = Some ys \<longleftrightarrow> xs = map Some ys"
proof (induction xs arbitrary: ys)
  case (Cons x xs)
  show ?case using Cons.IH by (cases ys; cases x; cases "all_some xs") auto
qed auto

text \<open>Every data set of the run holds the results of its own examples.\<close>

lemma run_datasets_spec:
  assumes "run_datasets h load dry names acc = Inr out" and "distinct (map fst acc)"
    and "\<And>n rs. map_of acc n = Some rs \<Longrightarrow> \<exists>vs. load n = Inr vs \<and> map (run_example h n dry) vs = map Some rs"
  shows "distinct (map fst out) \<and> fst ` set out = fst ` set acc \<union> set names
    \<and> (\<forall>n rs. map_of out n = Some rs \<longrightarrow> (\<exists>vs. load n = Inr vs \<and> map (run_example h n dry) vs = map Some rs))"
  using assms
proof (induction names arbitrary: acc)
  case (Cons name names)
  from Cons.prems(1) obtain vs rs where run: "load name = Inr vs" "map (run_example h name dry) vs = map Some rs"
      "run_datasets h load dry names (AList.update name rs acc) = Inr out"
    by (auto simp: all_some_iff split: sum.splits option.splits)
  have "map_of (AList.update name rs acc) n = Some rs' \<Longrightarrow> \<exists>vs. load n = Inr vs \<and> map (run_example h n dry) vs = map Some rs'" for n rs'
    using Cons.prems(3) run(1,2) by (auto simp: update_conv split: if_splits)
  from Cons.IH [OF run(3) distinct_update [OF Cons.prems(2)] this] show ?case
    by (auto simp: dom_update [unfolded dom_map_of_conv_image_fst])
qed simp

lemma load_dataset_lines:
  "load_dataset files dir n = Inr vs \<longleftrightarrow> (\<exists>ls. files (dataset_path dir n) = Some ls \<and> read_jsonl ls = Some vs)"
  by (auto simp: load_dataset_def split: option.splits)

lemma read_jsonl_length: "read_jsonl ls = Some vs \<Longrightarrow> length vs = length (filter (\<lambda>l. py_strip l \<noteq> []) ls)"
  by (auto simp: read_jsonl_def all_some_iff filter_map comp_def dest: arg_cong [of _ _ length])

lemma report_entry:
  assumes "map fst rs = map fst drs" and "map (ds_results \<circ> snd) rs = map snd drs" and "map (ds_n \<circ> snd) rs = map (length \<circ> snd) drs"
    and "(n, d) \<in> set rs"
  shows "(n, ds_results d) \<in> set drs \<and> ds_n d = length (ds_results d)"
proof -
  obtain i where i: "i < length rs" "rs ! i = (n, d)" using assms(4) by (auto simp: in_set_conv_nth)
  have len: "length rs = length drs" using assms(1) by (rule map_eq_imp_length_eq)
  have "fst (drs ! i) = n" "snd (drs ! i) = ds_results d" "length (snd (drs ! i)) = ds_n d"
    using i len arg_cong [OF assms(1), of "\<lambda>l. l ! i"] arg_cong [OF assms(2), of "\<lambda>l. l ! i"] arg_cong [OF assms(3), of "\<lambda>l. l ! i"]
    by simp_all
  then show ?thesis using i len by (metis nth_mem prod.collapse)
qed



text \<open>
  The simulated baseline passes by construction: whatever the heuristics of the metrics, an
  example of the refusal set passes, and an example of the extraction set whose expected value is a
  JSON object or list passes because the indented text the harness prints is parsed back to it.
\<close>

theorem simulated_baseline_passes:
  assumes "id_of example = Some eid" and "get_or example ''expected'' (JStr []) = Some expected"
    and "ds_name = ''refusal'' \<and> expected = JStr ''REFUSE''
      \<or> ds_name = ''extraction'' \<and> canonical h expected \<and> ((\<exists>kvs. expected = JObj kvs) \<or> (\<exists>xs. expected = JArr xs))"
  shows "\<exists>r. run_example h ds_name False example = Some r \<and> er_id r = eid \<and> er_pass r"
proof -
  have def: "jget_def example ''expected'' (JStr []) = expected"
    using assms(2) by (cases example) (auto simp: get_or_def jget_def_def jget_def)
  from assms(3) show ?thesis
  proof
    assume "ds_name = ''refusal'' \<and> expected = JStr ''REFUSE''"
    then show ?thesis
      using assms(1,2) simulated_refusal
      by (simp add: run_example_def simulate_answer_def evaluate_refusal_def blank_result_def)
  next
    assume "ds_name = ''extraction'' \<and> canonical h expected
      \<and> ((\<exists>kvs. expected = JObj kvs) \<or> (\<exists>xs. expected = JArr xs))"
    then have ds: "ds_name = ''extraction''" and ok: "canonical h expected"
      and shape: "(\<exists>kvs. expected = JObj kvs) \<or> (\<exists>xs. expected = JArr xs)" by blast+
    have "simulate_answer h example = Some (pretty 0 expected)"
      using assms(2) shape by (auto simp: simulate_answer_def simp del: pretty.simps)
    moreover obtain m where "extraction_outcome h expected (pretty 0 expected) = (True, m)"
      using simulated_extraction [OF ok shape] by (metis prod.collapse)
    ultimately show ?thesis
      using assms(1) ds def by (simp add: run_example_def evaluate_extraction_def blank_result_def)
  qed
qed

lemma simulated_baseline_passes_witness:
  "\<exists>r. run_example \<lparr>hn_round = \<lambda>x. x, hn_str = dumps, hn_float = \<lambda>l. l\<rparr> ''extraction'' False
      (JObj [(''id'', JStr ''ext-1''), (''expected'', JObj [(''nps'', JInt 74)])]) = Some r \<and> er_pass r"
  using simulated_baseline_passes [of "JObj [(''id'', JStr ''ext-1''), (''expected'', JObj [(''nps'', JInt 74)])]" "''ext-1''"
      "JObj [(''nps'', JInt 74)]" "''extraction''" "\<lparr>hn_round = \<lambda>x. x, hn_str = dumps, hn_float = \<lambda>l. l\<rparr>"]
  by (auto simp: id_of_def jget_def get_or_def canonical_def)

text \<open>
  The oracle comparison compares the outcome with itself, so it never names retrieval or generation
  as the cause; a dry run passes every example and is reported like a real one.
\<close>

lemma diagnosis_never_blames: "diagnose p p \<in> {''working'', ''both_failing''}"
  by (simp add: diagnose_def)

lemma dry_run_passes: "id_of example = Some eid \<Longrightarrow> \<exists>r. run_example h ds_name True example = Some r \<and> er_pass r"
  by (simp add: run_example_def blank_result_def)

end
