(* ===== verification/Trace_Publisher.thy ===== *)
theory Trace_Publisher
  imports Optimizer Eventlog
begin

section \<open>Publishing traces for the optimiser (scripts/publish_traces.py)\<close>

text \<open>
  The producer side of the optimiser's corpus: sample traces are serialised and sent to a Kafka
  topic, from which \<open>ingest_traces\<close> reads them. The broker is that of the event logs; the clock, the
  printing of floats, the client's \<open>start\<close> and \<open>stop\<close> and pydantic's validation are arguments.
  The property composes both ends: what is published is what is ingested.
\<close>

text \<open>Trace number \<open>i\<close>; the clock is read for its name and for its time stamp (after 1970).\<close>

definition sample_trace :: "(nat \<Rightarrow> real) \<Rightarrow> nat \<Rightarrow> trace_record" where
  "sample_trace clock i =
     (let phase = [''plan'', ''execute'', ''evaluate''] ! (i mod 3); role = [''actor'', ''critic''] ! (i mod 2);
          score = (if i mod 3 = 0 then 4 / 10 else 9 / 10)
      in \<lparr>tr_trace_id = ''trace-'' @ show_int \<lfloor>clock (2 * i)\<rfloor> @ ''-'' @ pad_num 4 i,
          tr_task = ''Sample task '' @ show_nat i @ '': '' @ phase @ '' phase execution'', tr_phase = phase,
          tr_prompt_template = ''You are the '' @ role @ '' agent handling '' @ phase
            @ ''. Complete the task accurately and thoroughly.'',
          tr_actor_output = ''Output for task '' @ show_nat i @ '': plan completed with '' @ show_nat (3 + i) @ '' steps'',
          tr_evaluation_score = score,
          tr_evaluation_findings = (if score < 6 / 10 then [''Output too brief'', ''Missing context field''] else []),
          tr_timestamp = clock (2 * i + 1),
          tr_metadata = [(''role'', role), (''source'', ''publish_traces.py''), (''env'', ''dev'')]\<rparr>)"

text \<open>\<open>model_dump\<close>, the fields in the order of the class; \<open>flo\<close> prints a float.\<close>

definition trace_json :: "(real \<Rightarrow> string) \<Rightarrow> trace_record \<Rightarrow> json" where
  "trace_json flo t = JObj
     [(''trace_id'', JStr (tr_trace_id t)), (''task'', JStr (tr_task t)), (''phase'', JStr (tr_phase t)),
      (''prompt_template'', JStr (tr_prompt_template t)), (''actor_output'', JStr (tr_actor_output t)),
      (''evaluation_score'', JFloat (flo (tr_evaluation_score t))),
      (''evaluation_findings'', JArr (map JStr (tr_evaluation_findings t))),
      (''timestamp'', JFloat (flo (tr_timestamp t))),
      (''metadata'', JObj (map (\<lambda>(k, v). (k, JStr v)) (tr_metadata t)))]"

fun publish_each ::
  "'b broker \<Rightarrow> string \<Rightarrow> (real \<Rightarrow> string) \<Rightarrow> (nat \<Rightarrow> real) \<Rightarrow> nat list \<Rightarrow> 'b \<Rightarrow> log_error option \<times> 'b" where
  "publish_each br topic flo clock [] b = (None, b)"
| "publish_each br topic flo clock (i # is) b =
     (case br_send br b topic (dumps (trace_json flo (sample_trace clock i))) of
        (Inl e, b') \<Rightarrow> (Some e, b')
      | (Inr _, b') \<Rightarrow> publish_each br topic flo clock is b')"

text \<open>
  \<open>installed\<close>: aiokafka can be imported. The producer is stopped in any case, and an exception of
  \<open>stop\<close> replaces the one that is on its way.
\<close>

definition publish_traces ::
  "bool \<Rightarrow> ('b \<Rightarrow> log_error option \<times> 'b) \<Rightarrow> ('b \<Rightarrow> log_error option \<times> 'b) \<Rightarrow> 'b broker \<Rightarrow> string \<Rightarrow> (real \<Rightarrow> string)
     \<Rightarrow> (nat \<Rightarrow> real) \<Rightarrow> int \<Rightarrow> 'b \<Rightarrow> log_error option \<times> 'b" where
  "publish_traces installed start stop br topic flo clock cnt b =
     (if \<not> installed then (None, b)
      else case (case start b of
                   (Some e, b1) \<Rightarrow> (Some e, b1)
                 | (None, b1) \<Rightarrow> publish_each br topic flo clock [0..<nat cnt] b1) of
             (res, b2) \<Rightarrow> (case stop b2 of (Some e, b3) \<Rightarrow> (Some e, b3) | (None, b3) \<Rightarrow> (res, b3)))"

text \<open>What the optimiser's consumer yields: \<open>json.loads\<close> of every message of the topic.\<close>

definition topic_values :: "'b broker \<Rightarrow> 'b \<Rightarrow> string \<Rightarrow> (string, json list) result" where
  "topic_values br b topic =
     (let vs = map (\<lambda>(_, v). loads v) (concat (br_getmany br b topic))
      in if None \<in> set vs then Inl ''JSONDecodeError'' else Inr (map the vs))"

subsection \<open>Both ends\<close>

lemma sample_trace_json_ok:
  assumes "\<forall>x \<in> F. float_lexeme (flo x)" and "\<forall>i. clock i \<in> F" and "4 / 10 \<in> F" and "9 / 10 \<in> F"
  shows "json_ok (trace_json flo (sample_trace clock i))"
  using assms by (simp add: trace_json_def sample_trace_def Let_def)

context kafka_broker
begin

lemma publish_each_log:
  "\<exists>b'. publish_each br topic flo clock is b = (None, b')
     \<and> msgs b' = (msgs b)(topic := msgs b topic @ map (\<lambda>i. dumps (trace_json flo (sample_trace clock i))) is)"
proof (induction "is" arbitrary: b)
  case (Cons i "is")
  obtain r b1 where snd: "br_send br b topic (dumps (trace_json flo (sample_trace clock i))) = (r, b1)" by (metis prod.exhaust)
  note s = send [OF snd]
  obtain b' where "publish_each br topic flo clock is b1 = (None, b')"
      "msgs b' = (msgs b1)(topic := msgs b1 topic @ map (\<lambda>i. dumps (trace_json flo (sample_trace clock i))) is)"
    using Cons.IH by blast
  then show ?case using snd s by (auto intro!: ext)
qed simp

lemma topic_values_log:
  assumes "msgs b topic = map dumps vs" and "\<forall>v \<in> set vs. json_ok v"
  shows "topic_values br b topic = Inr vs"
proof -
  have "map (\<lambda>(_, v). loads v) (concat (br_getmany br b topic)) = map Some vs"
    using assms(2) unfolding getmany assms(1) by (intro nth_equalityI) (auto simp: loads_dumps)
  then show ?thesis by (simp add: topic_values_def Let_def)
qed

end

lemma collect_all:
  assumes "map parse ms = map Some ts" and "int (length rs + length ts) \<le> limit" and "0 < limit"
  shows "collect_traces parse limit ms rs = rs @ ts"
  using assms
proof (induction ms arbitrary: ts rs)
  case (Cons m ms)
  then obtain t ts' where t: "ts = t # ts'" "parse m = Some t" "map parse ms = map Some ts'" by (cases ts) auto
  show ?case
  proof (cases "limit \<le> int (length (rs @ [t]))")
    case True
    then have "ts' = []" using Cons.prems(2) t(1) by (cases ts') simp_all
    with t True show ?thesis by (simp add: Let_def)
  next
    case False
    with Cons.IH [OF t(3), of "rs @ [t]"] Cons.prems(2,3) t show ?thesis by (simp add: Let_def)
  qed
qed simp

text \<open>
  Publishing and ingesting the corpus is lossless: for a topic that was empty, a client that
  starts and stops, and floats that are printed so that they are read back, publishing ends without
  error, and an optimiser that can reach the broker and whose limit allows it gets exactly the
  published traces, each once, oldest first; if the clock does not run backwards, in the order they
  were sent.
\<close>

theorem published_traces_ingested:
  assumes "kafka_broker br msgs" and "msgs b topic = []"
    and "\<And>c. fst (start c) = None \<and> msgs (snd (start c)) = msgs c" and "\<And>c. fst (stop c) = None \<and> msgs (snd (stop c)) = msgs c"
    and "\<forall>x \<in> F. float_lexeme (flo x)" and "\<forall>i. clock i \<in> F" and "4 / 10 \<in> F" and "9 / 10 \<in> F"
    and "\<And>t. tr_evaluation_score t \<in> F \<inter> {0..1} \<Longrightarrow> tr_timestamp t \<in> F \<Longrightarrow> parse (trace_json flo t) = Some t"
    and "po_kafka_bootstrap po = host @ '':'' @ show_nat port" and "CHR '':'' \<notin> set host" and "reachable host (int port)"
    and "\<not> po_dry_run po" and "cnt \<le> limit" and "0 < limit"
  shows "\<exists>b' ts. publish_traces True start stop br topic flo clock cnt b = (None, b')
    \<and> ingest_traces parse reachable (topic_values br b' topic) False po now limit = ts
    \<and> mset ts = mset (map (sample_trace clock) [0..<nat cnt]) \<and> sorted (map tr_timestamp ts)
    \<and> (mono clock \<longrightarrow> ts = map (sample_trace clock) [0..<nat cnt])"
proof -
  let ?ts = "map (sample_trace clock) [0..<nat cnt]"
  obtain b2 where b2: "publish_each br topic flo clock [0..<nat cnt] (snd (start b)) = (None, b2)"
      "msgs b2 topic = map dumps (map (trace_json flo) ?ts)"
    using kafka_broker.publish_each_log [OF assms(1), of topic flo clock "[0..<nat cnt]" "snd (start b)"] assms(2,3)
    by (auto simp: comp_def)
  let ?b' = "snd (stop b2)"
  have "publish_traces True start stop br topic flo clock cnt b = (None, ?b')"
    using assms(3) [of b] assms(4) [of b2] b2(1) by (auto simp: publish_traces_def split: prod.splits option.splits)
  moreover have "topic_values br ?b' topic = Inr (map (trace_json flo) ?ts)"
  proof (rule kafka_broker.topic_values_log [OF assms(1)])
    show "msgs ?b' topic = map dumps (map (trace_json flo) ?ts)" using b2(2) assms(4) [of b2] by simp
    show "\<forall>v \<in> set (map (trace_json flo) ?ts). json_ok v" using sample_trace_json_ok [OF assms(5-8)] by auto
  qed
  moreover have "ingest_traces parse reachable (Inr (map (trace_json flo) ?ts)) False po now limit = sort_key tr_timestamp ?ts"
  proof -
    have "parse (trace_json flo (sample_trace clock i)) = Some (sample_trace clock i)" for i
      using assms(6-8) by (intro assms(9)) (auto simp: sample_trace_def Let_def)
    then have "map parse (map (trace_json flo) ?ts) = map Some ?ts" by simp
    from collect_all [OF this, of "[]" limit] assms(14,15)
    have "collect_traces parse limit (map (trace_json flo) ?ts) [] = ?ts" by auto
    moreover have "partition_at (CHR '':'') (po_kafka_bootstrap po) = (host, Some (show_nat port))"
      using partition_at_hit [OF assms(11)] by (simp add: assms(10))
    moreover have "parse_int (show_nat port) = Some (int port)"
      using parse_int_show_int [of "int port"] by (simp add: show_int_def)
    ultimately show ?thesis using assms(12,13) by (simp add: ingest_traces_def ingest_from_kafka_def)
  qed
  moreover have "sort_key tr_timestamp ?ts = ?ts" if "mono clock"
  proof -
    have "sorted (map tr_timestamp ?ts)"
      using that by (auto simp: sorted_iff_nth_mono sample_trace_def Let_def mono_def)
    then show ?thesis by (rule sort_key_id_if_sorted)
  qed
  ultimately show ?thesis by auto
qed

text \<open>
  The score and the phase of a trace both follow \<open>i mod 3\<close>: every planning trace fails and no other
  does. So neither corpus trains anything but the planning skills, and those have no examples.
\<close>

definition plan_fails :: "trace_record \<Rightarrow> bool" where
  "plan_fails t \<longleftrightarrow> (is_failure t \<longleftrightarrow> tr_phase t = ''plan'')"

lemma phase_of_index: "[''plan'', ''execute'', ''evaluate''] ! (i mod 3) = ''plan'' \<longleftrightarrow> i mod 3 = 0"
proof -
  have "i mod 3 = 0 \<or> i mod 3 = 1 \<or> i mod 3 = 2" by presburger
  then show ?thesis by auto
qed

lemma corpus_plan_fails: "plan_fails (sample_trace clock i)" "plan_fails (synthetic_trace now i)"
  by (simp_all add: plan_fails_def is_failure_def sample_trace_def synthetic_trace_def Let_def phase_of_index)

lemma corpus_trains_only_plan:
  assumes "compile_traces gepa dspy h po now ts = Inr assets" and "\<forall>t \<in> set ts. plan_fails t" and "a \<in> set assets"
  shows "sa_phase a = ''plan'' \<and> sa_few_shot_examples a = []"
proof -
  obtain xs where xs: "((sa_role a, sa_phase a), xs) \<in> set (group_traces ts [])"
      "compile_pair gepa dspy h po now (sa_role a, sa_phase a) xs = Inr (Some a)"
    using compile_pairs_assets assms(1,3) unfolding compile_traces_def by blast
  have same: "\<forall>t \<in> set xs. plan_fails t \<and> tr_phase t = sa_phase a"
    using group_entry [OF xs(1)] assms(2) by (auto simp: trace_key_def)
  moreover have "filter is_failure xs \<noteq> []"
    using xs(2) by (auto simp: compile_pair_def Let_def split: if_splits)
  ultimately have plan: "sa_phase a = ''plan''" by (auto simp: plan_fails_def filter_empty_conv)
  with same have "filter (\<lambda>t. \<not> is_failure t) xs = []" by (auto simp: plan_fails_def filter_empty_conv)
  then show ?thesis
    using xs(2) plan by (auto simp: compile_pair_def Let_def dest: arg_cong [of _ _ sa_few_shot_examples] split: if_splits sum.splits prod.splits)
qed

text \<open>A reading of the record as the class declares it, the instance the property is checked on.\<close>

definition read_text :: "json \<Rightarrow> string" where
  "read_text v = (case v of JStr s \<Rightarrow> s | _ \<Rightarrow> [])"

definition read_real :: "(string \<Rightarrow> real) \<Rightarrow> json \<Rightarrow> real" where
  "read_real num v = (case v of JFloat l \<Rightarrow> num l | JInt i \<Rightarrow> of_int i | _ \<Rightarrow> 0)"

definition read_trace :: "(string \<Rightarrow> real) \<Rightarrow> json \<Rightarrow> trace_record option" where
  "read_trace num v =
     (let f = (\<lambda>k. jget_def v k JNull); score = read_real num (f ''evaluation_score'')
      in if score < 0 \<or> 1 < score then None
         else Some \<lparr>tr_trace_id = read_text (f ''trace_id''), tr_task = read_text (f ''task''), tr_phase = read_text (f ''phase''),
           tr_prompt_template = read_text (f ''prompt_template''), tr_actor_output = read_text (f ''actor_output''),
           tr_evaluation_score = score,
           tr_evaluation_findings = (case f ''evaluation_findings'' of JArr vs \<Rightarrow> map read_text vs | _ \<Rightarrow> []),
           tr_timestamp = read_real num (f ''timestamp''),
           tr_metadata = (case f ''metadata'' of JObj kvs \<Rightarrow> map (\<lambda>(k, x). (k, read_text x)) kvs | _ \<Rightarrow> [])\<rparr>)"

lemma read_trace_json:
  assumes "num (flo (tr_evaluation_score t)) = tr_evaluation_score t" and "num (flo (tr_timestamp t)) = tr_timestamp t"
    and "tr_evaluation_score t \<in> {0..1}"
  shows "read_trace num (trace_json flo t) = Some t"
proof -
  have "map (\<lambda>(k, x). (k, read_text x)) (map (\<lambda>(k, v). (k, JStr v)) m) = m" for m
    by (induction m) (auto simp: read_text_def)
  moreover have "map read_text (map JStr fs) = fs" for fs by (induction fs) (simp_all add: read_text_def)
  ultimately show ?thesis
    using assms unfolding trace_json_def
    by (cases t) (simp add: read_trace_def jget_def_def jget_def Let_def read_real_def read_text_def del: map_map)
qed

lemma published_traces_ingested_witness:
  "\<exists>b' ts. publish_traces True (\<lambda>b. (None, b)) (\<lambda>b. (None, b)) mem_broker ''mcp-traces''
        (\<lambda>x. if x = 4 / 10 then ''0.4'' else if x = 9 / 10 then ''0.9'' else ''0.0'') (\<lambda>_. 0) 20 (\<lambda>_. []) = (None, b')
    \<and> ingest_traces (read_trace (\<lambda>l. if l = ''0.4'' then 4 / 10 else if l = ''0.9'' then 9 / 10 else 0)) (\<lambda>_ _. True)
        (topic_values mem_broker b' ''mcp-traces'') False
        \<lparr>po_kafka_topic = ''mcp-traces'', po_kafka_bootstrap = ''kafka:9092'', po_dspy_optimizer = ''B'', po_max_generations = 5, po_dry_run = False\<rparr>
        0 500 = ts
    \<and> ts = map (sample_trace (\<lambda>_. 0)) [0..<20]"
proof -
  let ?flo = "\<lambda>x :: real. if x = 4 / 10 then ''0.4'' else if x = 9 / 10 then ''0.9'' else ''0.0''"
  let ?num = "\<lambda>l. if l = ''0.4'' then 4 / 10 else if l = ''0.9'' then 9 / 10 else 0 :: real"
  let ?po = "\<lparr>po_kafka_topic = ''mcp-traces'', po_kafka_bootstrap = ''kafka:9092'', po_dspy_optimizer = ''B'', po_max_generations = 5, po_dry_run = False\<rparr>"
  have "float_lexeme ''0.4''" "float_lexeme ''0.9''" "float_lexeme ''0.0''" by code_simp+
  then have flo: "\<forall>x \<in> {0, 4 / 10, 9 / 10}. float_lexeme (?flo x)" by simp
  have "char_of (57 :: nat) = CHR ''9''" "char_of (48 :: nat) = CHR ''0''" "char_of (50 :: nat) = CHR ''2''" by code_simp+
  then have boot: "po_kafka_bootstrap ?po = ''kafka'' @ '':'' @ show_nat 9092" by (simp add: show_nat.simps digit_char_def del: char_of_eq_iff)
  have parse: "read_trace ?num (trace_json ?flo t) = Some t"
    if "tr_evaluation_score t \<in> {0, 4 / 10, 9 / 10} \<inter> {0..1}" "tr_timestamp t \<in> {0, 4 / 10, 9 / 10}" for t
    using that by (intro read_trace_json) auto
  have pm: "fst (None :: log_error option, c) = None \<and> snd (None :: log_error option, c) = c" for c :: "string \<Rightarrow> string list" by simp
  have rest: "\<forall>i. (\<lambda>_. 0 :: real) i \<in> {0, 4 / 10, 9 / 10}" "4 / 10 \<in> {0, 4 / 10, 9 / 10 :: real}" "9 / 10 \<in> {0, 4 / 10, 9 / 10 :: real}"
      "CHR '':'' \<notin> set ''kafka''" "\<not> po_dry_run ?po" "(20 :: int) \<le> 500" "(0 :: int) < 500" "mono (\<lambda>_ :: nat. 0 :: real)"
    by (simp_all add: mono_def)
  from published_traces_ingested [OF mem_kafka.kafka_broker_axioms refl pm pm flo rest(1-3) parse boot rest(4) TrueI rest(5-7),
      of "''mcp-traces''" 0, unfolded nat_numeral] rest(8)
  show ?thesis by blast
qed

end
