(* ===== verification/Deployment.thy ===== *)
theory Deployment
  imports Bridge Agent_Models
begin

section \<open>Configuration, start-up and shutdown of the servers\<close>

text \<open>
  How the processes are configured from their environment (\<open>gateway/run.py\<close>, \<open>auth/__main__.py\<close>,
  the factories of \<open>gateway/app.py\<close> and \<open>auth/server.py\<close>, \<open>gateway/telemetry.py\<close>), what the lifespan of
  the gateway does, the discovery documents, the token command, and the resources that are created
  on first use. An environment maps names to values; what other servers answer is an argument.
\<close>

type_synonym environ = "string \<Rightarrow> string option"

definition env_or :: "environ \<Rightarrow> string \<Rightarrow> string \<Rightarrow> string" where
  "env_or environ name dflt = (case environ name of Some v \<Rightarrow> v | None \<Rightarrow> dflt)"

subsection \<open>Backends\<close>

datatype redis_backend = Real_Redis string | Fake_Redis

datatype log_backend = Kafka_Log string | In_Process_Log

definition make_redis_client :: "environ \<Rightarrow> redis_backend" where
  "make_redis_client environ =
     (if is_set environ ''REDIS_URL'' then Real_Redis (the (environ ''REDIS_URL'')) else Fake_Redis)"

text \<open>aiokafka may not be installed: then \<open>KafkaEventLog\<close> raises and the module cannot be imported.\<close>

definition make_event_log :: "bool \<Rightarrow> environ \<Rightarrow> (string, log_backend) result" where
  "make_event_log avail environ =
     (if is_set environ ''KAFKA_BOOTSTRAP_SERVERS''
      then if avail then Inr (Kafka_Log (the (environ ''KAFKA_BOOTSTRAP_SERVERS'')))
           else Inl ''aiokafka is not installed. Install it with: pip install aiokafka''
      else Inr In_Process_Log)"

definition kv_topics :: "environ \<Rightarrow> string list" where
  "kv_topics environ =
     map py_strip (filter (\<lambda>t. py_strip t \<noteq> []) (split_on (CHR '','') (env_or environ ''KV_TOPICS'' ''default'')))"

definition dev_mode :: "environ \<Rightarrow> bool" where
  "dev_mode environ = (env_or environ ''MCP_DEV_MODE'' ''0'' = ''1'')"

text \<open>The store of the authorization server: \<open>ping\<close> says whether the server at a URL answers.\<close>

definition make_auth_redis :: "(string \<Rightarrow> bool) \<Rightarrow> environ \<Rightarrow> redis_backend" where
  "make_auth_redis ping environ =
     (let url = (if is_set environ ''AUTH_REDIS_URL'' then environ ''AUTH_REDIS_URL'' else environ ''REDIS_URL'')
      in case url of
           Some u \<Rightarrow> if u \<noteq> [] \<and> ping u then Real_Redis u else Fake_Redis
         | None \<Rightarrow> Fake_Redis)"

text \<open>The addresses the two servers listen on; a port that is no number raises.\<close>

record launch =
  la_host :: string
  la_port :: int
  la_log_level :: string
  la_reload :: bool

definition gateway_launch :: "environ \<Rightarrow> launch option" where
  "gateway_launch environ =
     map_option (\<lambda>p. \<lparr>la_host = env_or environ ''HOST'' ''0.0.0.0'', la_port = p,
         la_log_level = env_or environ ''LOG_LEVEL'' ''info'', la_reload = (env_or environ ''RELOAD'' ''0'' = ''1'')\<rparr>)
       (parse_int (env_or environ ''PORT'' ''8000''))"

definition auth_launch :: "environ \<Rightarrow> launch option" where
  "auth_launch environ =
     map_option (\<lambda>p. \<lparr>la_host = env_or environ ''HOST'' ''0.0.0.0'', la_port = p,
         la_log_level = env_or environ ''LOG_LEVEL'' ''info'', la_reload = False\<rparr>)
       (parse_int (env_or environ ''AUTH_PORT'' (env_or environ ''PORT'' ''8001'')))"

subsection \<open>The lifespan of the gateway\<close>

text \<open>
  The state of a gateway process: the key of the resource server, whether the fleet's Redis accessor is
  set, whether a worker task exists, the Kafka producer (None before it is created, whether it runs)
  and whether requests are served. A start that fails part-way keeps what it has done.
\<close>

record 'k process =
  pr_key :: "'k option"
  pr_fleet_redis :: bool
  pr_worker :: bool
  pr_producer :: "bool option"
  pr_serving :: bool

definition new_process :: "'k process" where
  "new_process = \<lparr>pr_key = None, pr_fleet_redis = False, pr_worker = False, pr_producer = None, pr_serving = False\<rparr>"

definition start_fleet_workers :: "'k process \<Rightarrow> 'k process" where
  "start_fleet_workers p = (if pr_fleet_redis p then p\<lparr>pr_worker := True\<rparr> else p)"

definition stop_fleet_workers :: "'k process \<Rightarrow> 'k process" where
  "stop_fleet_workers p = (if pr_worker p then p\<lparr>pr_worker := False\<rparr> else p)"

text \<open>\<open>down\<close> are the exceptions of Redis's \<open>ping\<close> and of starting the producer, if they raise.\<close>

definition start_producer :: "string option \<Rightarrow> 'k process \<Rightarrow> string option \<times> 'k process" where
  "start_producer failure p =
     (case failure of
        Some e \<Rightarrow> (Some e, p\<lparr>pr_producer := Some False\<rparr>)
      | None \<Rightarrow> (None, p\<lparr>pr_producer := Some True\<rparr>))"

definition stop_producer :: "'k process \<Rightarrow> 'k process" where
  "stop_producer p = (case pr_producer p of Some _ \<Rightarrow> p\<lparr>pr_producer := Some False\<rparr> | None \<Rightarrow> p)"

definition lifespan_start ::
  "(string \<Rightarrow> 'k) \<Rightarrow> privacy_config \<Rightarrow> environ \<Rightarrow> string option \<Rightarrow> string option \<Rightarrow> 'k process
     \<Rightarrow> string option \<times> 'k process" where
  "lifespan_start import_key privacy environ redis_down kafka_down p =
     (case assert_no_egress privacy of
        Inl _ \<Rightarrow> (Some ''Egress is disabled by PrivacyConfig'', p)
      | Inr _ \<Rightarrow>
          (let p1 = (if is_set environ ''JWT_SECRET'' then p\<lparr>pr_key := Some (import_key (the (environ ''JWT_SECRET'')))\<rparr> else p)
           in if is_set environ ''REDIS_URL'' \<and> redis_down \<noteq> None
              then (Some (''Redis unreachable at '' @ the (environ ''REDIS_URL'') @ '': '' @ the redis_down), p1)
              else case (if is_set environ ''KAFKA_BOOTSTRAP_SERVERS'' then start_producer kafka_down p1 else (None, p1)) of
                     (Some e, p2) \<Rightarrow> (Some e, p2)
                   | (None, p2) \<Rightarrow> (None, (start_fleet_workers (p2\<lparr>pr_fleet_redis := True\<rparr>))\<lparr>pr_serving := True\<rparr>)))"

definition lifespan_stop :: "environ \<Rightarrow> 'k process \<Rightarrow> 'k process" where
  "lifespan_stop environ p =
     (let p1 = stop_fleet_workers (p\<lparr>pr_serving := False\<rparr>)
      in if is_set environ ''KAFKA_BOOTSTRAP_SERVERS'' then stop_producer p1 else p1)"

text \<open>What a start that is not refused means, and that a refused one serves and works nothing.\<close>

definition start_outcome :: "(string \<Rightarrow> 'k) \<Rightarrow> environ \<Rightarrow> string option \<Rightarrow> string option \<Rightarrow> 'k process \<Rightarrow> string option \<times> 'k process \<Rightarrow> bool" where
  "start_outcome import_key environ redis_down kafka_down p out \<longleftrightarrow>
     (case out of (failure, p') \<Rightarrow>
        (failure = None \<longleftrightarrow> (is_set environ ''REDIS_URL'' \<longrightarrow> redis_down = None)
           \<and> (is_set environ ''KAFKA_BOOTSTRAP_SERVERS'' \<longrightarrow> kafka_down = None))
        \<and> (failure = None \<longrightarrow> pr_serving p' \<and> pr_worker p'
             \<and> (pr_producer p' = Some True \<longleftrightarrow> is_set environ ''KAFKA_BOOTSTRAP_SERVERS'' \<or> pr_producer p = Some True))
        \<and> (failure \<noteq> None \<longrightarrow> pr_serving p' = pr_serving p \<and> pr_worker p' = pr_worker p \<and> pr_producer p' \<noteq> Some True)
        \<and> pr_key p' = (if is_set environ ''JWT_SECRET'' then Some (import_key (the (environ ''JWT_SECRET''))) else pr_key p))"

text \<open>One use of the application: a start, and a shutdown if it came up.\<close>

definition lifespan ::
  "(string \<Rightarrow> 'k) \<Rightarrow> environ \<Rightarrow> string option \<times> string option \<Rightarrow> 'k process \<Rightarrow> 'k process" where
  "lifespan import_key environ down p =
     (case lifespan_start import_key privacy_default environ (fst down) (snd down) p of
        (Some _, p') \<Rightarrow> p'
      | (None, p') \<Rightarrow> lifespan_stop environ p')"

definition at_rest :: "'k process \<Rightarrow> bool" where
  "at_rest p \<longleftrightarrow> \<not> pr_serving p \<and> \<not> pr_worker p \<and> pr_producer p \<noteq> Some True"

lemma start_outcome_holds:
  assumes "pr_producer p \<noteq> Some True"
  shows "start_outcome import_key environ rd kd p (lifespan_start import_key privacy_default environ rd kd p)"
  using assms
  by (cases rd; cases kd) (auto simp: start_outcome_def lifespan_start_def privacy_default_def assert_no_egress_def
      start_producer_def start_fleet_workers_def Let_def)

lemma stop_rests: "is_set environ ''KAFKA_BOOTSTRAP_SERVERS'' \<or> pr_producer p \<noteq> Some True \<Longrightarrow> at_rest (lifespan_stop environ p)"
  by (auto simp: at_rest_def lifespan_stop_def stop_fleet_workers_def stop_producer_def Let_def split: option.splits)

lemma lifespan_rests: "at_rest p \<Longrightarrow> at_rest (lifespan import_key environ down p)"
proof -
  assume rest: "at_rest p"
  obtain f p' where s: "lifespan_start import_key privacy_default environ (fst down) (snd down) p = (f, p')" by (metis prod.exhaust)
  have out: "start_outcome import_key environ (fst down) (snd down) p (f, p')"
    using start_outcome_holds [of p import_key environ "fst down" "snd down"] rest s by (simp add: at_rest_def)
  show "at_rest (lifespan import_key environ down p)"
  proof (cases f)
    case None
    then have "is_set environ ''KAFKA_BOOTSTRAP_SERVERS'' \<or> pr_producer p' \<noteq> Some True"
      using out rest by (auto simp: start_outcome_def at_rest_def)
    with None s show ?thesis by (simp add: lifespan_def stop_rests)
  next
    case (Some e)
    then show ?thesis using out rest s by (simp add: lifespan_def start_outcome_def at_rest_def)
  qed
qed



subsection \<open>Tokens made on the command line\<close>

text \<open>
  \<open>python -m mcp_agent_factory.auth token\<close>: without a secret it ends with status 1; a subject that is
  no user id raises. \<open>now\<close> is \<open>int(time.time())\<close>, \<open>token_part\<close> the random part of the session id.
\<close>

datatype command_outcome = Exit_Error | Raised auth_error | Printed string

definition cmd_token ::
  "(string \<Rightarrow> 'k) \<Rightarrow> ('k \<Rightarrow> (string \<times> json) list \<Rightarrow> string) \<Rightarrow> environ \<Rightarrow> string \<Rightarrow> int \<Rightarrow> string \<Rightarrow> string \<Rightarrow> int
     \<Rightarrow> command_outcome" where
  "cmd_token import_key encode environ token_part now sub scope ttl =
     (if \<not> is_set environ ''JWT_SECRET'' then Exit_Error
      else case generate_session_id token_part sub of
             Inl e \<Rightarrow> Raised e
           | Inr session_id \<Rightarrow>
               Printed (encode (import_key (the (environ ''JWT_SECRET'')))
                 [(''sub'', JStr sub), (''aud'', JStr ''mcp-server''), (''scope'', JStr scope), (''session_id'', JStr session_id),
                  (''iat'', JInt now), (''exp'', JInt (now + ttl))]))"

text \<open>Claims whose expiry has passed do not validate.\<close>

definition expiry_law :: "(int \<Rightarrow> (string \<times> json) list \<Rightarrow> bool) \<Rightarrow> bool" where
  "expiry_law valid \<longleftrightarrow> (\<forall>now claims e. map_of claims ''exp'' = Some (JInt e) \<longrightarrow> e < now \<longrightarrow> \<not> valid now claims)"

lemma signed_expired:
  assumes "jwt_law encode decode valid" and "expiry_law valid" and "e < later"
  shows "verify_token decode (valid later) (Inr key) required True
      (Some (bearer env (JStr (encode key [(''sub'', JStr sub), (''aud'', JStr ''mcp-server''),
         (''scope'', JStr scope), (''session_id'', JStr sid), (''iat'', JInt i), (''exp'', JInt e)])))) = Inr None"
proof -
  let ?claims = "[(''sub'', JStr sub), (''aud'', JStr ''mcp-server''), (''scope'', JStr scope),
      (''session_id'', JStr sid), (''iat'', JInt i), (''exp'', JInt e)]"
  have "json_ok (JObj ?claims)" by simp
  then have tok: "decode key (encode key ?claims) = Inr ?claims" "encode key ?claims \<noteq> []"
      "\<forall>ch \<in> set (encode key ?claims). \<not> is_space ch"
    using assms(1) unfolding jwt_law_def by blast+
  have "\<not> valid later ?claims" using assms(2,3) unfolding expiry_law_def by simp
  then show ?thesis
    using tok(1,2) verify_bearer [OF tok(2,3), of decode "valid later" "Inr key" required True]
    by (simp add: bearer_def)
qed

lemma static_injects:
  assumes "bridge_reach env (static_factory env token) m w" and "inject env m hdrs w = (Inr hdrs', m', w')" and "token \<noteq> []"
  shows "hdrs' = AList.update ''Authorization'' (bearer env (JStr token)) hdrs"
proof -
  have m: "om_factory m = static_factory env token" "om_token m = JNull \<or> om_token m = JStr token"
    using reach_cached [OF assms(1)] by (auto simp: cached_from_def static_factory_def)
  then have "fst (get_token env m w) = Inr (JStr token)"
    by (auto simp: get_token_def om_is_valid_def static_factory_def)
  then show ?thesis using assms(2,3) by (auto simp: inject_def split: prod.splits sum.splits)
qed

text \<open>
  \<^bold>\<open>C34.\<close> A token printed by the token command and handed to a bridge works exactly for its lifetime.
  Whatever state the bridge's cache is in, the header it injects is accepted by every gateway that
  came up with the same secret from the moment of issue until the token's own expiry, with the
  subject of the command, if its scope covers \<open>tools:call\<close>; after the expiry the bridge still
  injects that same token, and the gateway accepts it no more.
\<close>

theorem minted_token_lifetime:
  assumes "jwt_law encode decode valid" and "expiry_law valid"
    and "cmd_token import_key encode environ token_part now sub scope ttl = Printed token"
    and "lifespan_start import_key privacy_default environ redis_down kafka_down p = (None, p')"
    and "bridge_environ ''GATEWAY_TOKEN'' = Some token" and "\<not> is_set bridge_environ ''BRIDGE_CLIENT_ID''"
    and "bridge_reach env (om_factory (build_middleware env bridge_environ import_key encode fresh)) m w"
    and "inject env m hdrs w = (Inr hdrs', m', w')"
    and "check = (\<lambda>later. verify_token decode (valid later) (resource_jwt_key import_key (environ ''JWT_SECRET'') (pr_key p'))
           ''tools:call'' True (map_of hdrs' ''Authorization''))"
  shows "(''tools:call'' \<in> set (py_split scope) \<longrightarrow> now \<le> later \<longrightarrow> later < now + ttl \<longrightarrow>
          (\<exists>claims. check later = Inr (Some claims) \<and> map_of claims ''sub'' = Some (JStr sub)))
    \<and> (now + ttl < later \<longrightarrow> check later = Inr None)"
proof -
  let ?key = "import_key (the (environ ''JWT_SECRET''))"
  obtain sid where secret: "is_set environ ''JWT_SECRET''" and token: "token = encode ?key
      [(''sub'', JStr sub), (''aud'', JStr ''mcp-server''), (''scope'', JStr scope), (''session_id'', JStr sid),
       (''iat'', JInt now), (''exp'', JInt (now + ttl))]"
    using assms(3) by (auto simp: cmd_token_def split: if_splits sum.splits)
  have "pr_key p' = Some ?key"
    using assms(4) secret
    by (auto simp: lifespan_start_def privacy_default_def assert_no_egress_def start_producer_def start_fleet_workers_def Let_def
        split: if_splits option.splits)
  then have key: "resource_jwt_key import_key (environ ''JWT_SECRET'') (pr_key p') = Inr ?key"
    by (simp add: resource_jwt_key_def)
  have "json_ok (JObj [(''sub'', JStr sub), (''aud'', JStr ''mcp-server''), (''scope'', JStr scope), (''session_id'', JStr sid),
       (''iat'', JInt now), (''exp'', JInt (now + ttl))])" by simp
  then have nonempty: "token \<noteq> []" using assms(1) unfolding jwt_law_def token by blast
  then have "is_set bridge_environ ''GATEWAY_TOKEN''" using assms(5) by (simp add: is_set_def)
  then have factory: "om_factory (build_middleware env bridge_environ import_key encode fresh) = static_factory env token"
    using assms(5,6) by (simp add: build_middleware_def om_init_def)
  have "hdrs' = AList.update ''Authorization'' (bearer env (JStr token)) hdrs"
    by (rule static_injects [OF assms(7) [unfolded factory] assms(8) nonempty])
  then have header: "map_of hdrs' ''Authorization'' = Some (bearer env (JStr token))" by simp
  show ?thesis
    using signed_admitted [OF assms(1), where i = now and later = later and e = "now + ttl" and scope = scope and key = ?key
          and env = env and sub = sub and sid = sid]
      signed_expired [OF assms(1,2), where i = now and later = later and e = "now + ttl" and scope = scope and key = ?key
          and env = env and sub = sub and sid = sid and required = "''tools:call''"]
    unfolding assms(9) key header token by (auto simp: admitted_def)
qed

text \<open>Validation by the expiry alone, for the witness.\<close>

definition not_expired :: "int \<Rightarrow> (string \<times> json) list \<Rightarrow> bool" where
  "not_expired now claims = (case map_of claims ''exp'' of Some (JInt e) \<Rightarrow> now \<le> e | _ \<Rightarrow> True)"

lemma not_expired_laws: "jwt_law plain_encode plain_decode not_expired" "expiry_law not_expired"
  using plain_jwt_law by (auto simp: jwt_law_def expiry_law_def not_expired_def)

lemma minted_token_lifetime_witness:
  "\<exists>token p' hdrs'. cmd_token (\<lambda>_. ()) plain_encode [''JWT_SECRET'' \<mapsto> ''s3cret''] ''tok'' 0 ''bridge'' ''tools:call'' 3600 = Printed token
    \<and> lifespan_start (\<lambda>_. ()) privacy_default [''JWT_SECRET'' \<mapsto> ''s3cret''] None None new_process = (None, p')
    \<and> (\<exists>claims. verify_token plain_decode (not_expired 3599) (resource_jwt_key (\<lambda>_. ()) (Some ''s3cret'') (pr_key p'))
        ''tools:call'' True (map_of hdrs' ''Authorization'') = Inr (Some claims) \<and> map_of claims ''sub'' = Some (JStr ''bridge''))
    \<and> verify_token plain_decode (not_expired 3601) (resource_jwt_key (\<lambda>_. ()) (Some ''s3cret'') (pr_key p'))
        ''tools:call'' True (map_of hdrs' ''Authorization'') = Inr None"
proof -
  let ?env = "\<lparr>be_http = \<lparr>hc_post = (\<lambda>_ _ _ _ w. (Inl ''down'', w)), hc_stream = (\<lambda>_ _ _ w. (Inl ''down'', w))\<rparr>,
      be_time = (\<lambda>w :: real. w), be_str = dumps, be_float = (\<lambda>_. 0)\<rparr>"
  let ?environ = "[''JWT_SECRET'' \<mapsto> ''s3cret'']"
  have "generate_session_id ''tok'' ''bridge'' = Inr ''bridge:tok''" by code_simp
  then obtain token where token: "cmd_token (\<lambda>_. ()) plain_encode ?environ ''tok'' 0 ''bridge'' ''tools:call'' 3600 = Printed token"
    by (simp add: cmd_token_def is_set_def)
  let ?benv = "[''GATEWAY_TOKEN'' \<mapsto> token]"
  let ?m = "build_middleware ?env ?benv (\<lambda>_. ()) plain_encode (\<lambda>_. ''r'')"
  have bridge: "?benv ''GATEWAY_TOKEN'' = Some token" "\<not> is_set ?benv ''BRIDGE_CLIENT_ID''" by (simp_all add: is_set_def)
  obtain p' where start: "lifespan_start (\<lambda>_. ()) privacy_default ?environ None None new_process = (None, p')"
    by (simp add: lifespan_start_def privacy_default_def assert_no_egress_def is_set_def Let_def)
  have reach: "bridge_reach ?env (om_factory ?m) ?m 0"
    using bridge_reach.start [of ?env "om_factory ?m" 0] by (simp add: build_middleware_def om_init_def)
  obtain hdrs' m' w' where inj: "inject ?env ?m [] 0 = (Inr hdrs', m', w')"
  proof -
    have "\<exists>t m' w'. get_token ?env ?m 0 = (Inr t, m', w')"
      by (auto simp: build_middleware_def om_init_def get_token_def om_is_valid_def static_factory_def is_set_def)
    then show thesis using that by (auto simp: inject_def)
  qed
  have scope: "''tools:call'' \<in> set (py_split ''tools:call'')" by code_simp
  note lifetime = minted_token_lifetime [OF not_expired_laws token start bridge reach inj refl]
  have live: "\<exists>claims. verify_token plain_decode (not_expired 3599) (resource_jwt_key (\<lambda>_. ()) (Some ''s3cret'') (pr_key p'))
        ''tools:call'' True (map_of hdrs' ''Authorization'') = Inr (Some claims) \<and> map_of claims ''sub'' = Some (JStr ''bridge'')"
    using lifetime [of 3599] scope by simp
  have dead: "verify_token plain_decode (not_expired 3601) (resource_jwt_key (\<lambda>_. ()) (Some ''s3cret'') (pr_key p'))
        ''tools:call'' True (map_of hdrs' ''Authorization'') = Inr None"
    using lifetime [of 3601] by simp
  from token start live dead show ?thesis by blast
qed

subsection \<open>Discovery and the remaining endpoints\<close>

definition auth_metadata :: "string \<Rightarrow> json" where
  "auth_metadata issuer = JObj [
     (''issuer'', JStr issuer), (''authorization_endpoint'', JStr (issuer @ ''/authorize'')),
     (''token_endpoint'', JStr (issuer @ ''/token'')), (''registration_endpoint'', JStr (issuer @ ''/register'')),
     (''response_types_supported'', JArr [JStr ''code'']),
     (''grant_types_supported'', JArr [JStr ''authorization_code'', JStr ''client_credentials'']),
     (''code_challenge_methods_supported'', JArr [JStr ''S256'']),
     (''token_endpoint_auth_methods_supported'', JArr [JStr ''client_secret_post'']),
     (''scopes_supported'', JArr (map JStr [''tools:all'', ''tools:call'', ''tools:list'']))]"

definition oauth_discovery :: "environ \<Rightarrow> json" where
  "oauth_discovery environ = auth_metadata (env_or environ ''AUTH_ISSUER'' ''http://localhost:8001'')"

definition discovery_fallback :: "string \<Rightarrow> json" where
  "discovery_fallback url = JObj [
     (''issuer'', JStr url), (''authorization_endpoint'', JStr (url @ ''/authorize'')), (''token_endpoint'', JStr (url @ ''/token'')),
     (''registration_endpoint'', JStr (url @ ''/register'')), (''response_types_supported'', JArr [JStr ''code'']),
     (''code_challenge_methods_supported'', JArr [JStr ''S256''])]"

text \<open>\<open>fetch\<close> gets a URL: an exception, or status and body. Any failure gives the fallback.\<close>

definition discovery_proxy :: "(string \<Rightarrow> (string, nat \<times> string) result) \<Rightarrow> environ \<Rightarrow> json" where
  "discovery_proxy fetch environ =
     (let url = env_or environ ''AUTH_SERVER_URL'' ''http://localhost:8001''
      in case json_answer (fetch (url @ ''/.well-known/oauth-authorization-server'')) of
           Inr v \<Rightarrow> v | Inl _ \<Rightarrow> discovery_fallback url)"

text \<open>
  Clients see one authorization server: when it answers, the gateway serves its document; when it does
  not, a document that agrees with it in every field it has.
\<close>

lemma discovery_proxy_faithful:
  assumes "fetch (url @ ''/.well-known/oauth-authorization-server'') = Inr (200, dumps (auth_metadata url))"
    and "environ ''AUTH_SERVER_URL'' = Some url"
  shows "discovery_proxy fetch environ = auth_metadata url"
proof -
  have "json_ok (auth_metadata url)" by (simp add: auth_metadata_def)
  with assms show ?thesis by (simp add: discovery_proxy_def env_or_def json_answer_def loads_dumps Let_def)
qed

lemma discovery_fallback_agrees:
  "jget (discovery_fallback url) k = Some v \<Longrightarrow> jget (auth_metadata url) k = Some v"
  by (auto simp: discovery_fallback_def auth_metadata_def jget_def split: if_splits)

text \<open>An \<open>HTTPException\<close> of the gateway; a 401 says where to authenticate.\<close>

definition www_authenticate :: string where
  "www_authenticate = ''Bearer realm='' @ [quote] @ ''mcp-server'' @ [quote] @ '', resource_metadata='' @ [quote]
     @ ''http://localhost:8000/.well-known/oauth-authorization-server'' @ [quote]"

definition http_exception_response :: "nat \<Rightarrow> string \<Rightarrow> nat \<times> json \<times> headers" where
  "http_exception_response status detail =
     (status, JObj [(''detail'', JStr detail)], if status = 401 then [(''WWW-Authenticate'', www_authenticate)] else [])"

text \<open>Event number \<open>n\<close> of \<open>GET /mcp\<close>: the URL to post to, then a ping every 15 seconds.\<close>

definition mcp_stream_event :: "string \<Rightarrow> nat \<Rightarrow> string \<times> string" where
  "mcp_stream_event base_url n =
     (if n = 0 then (''endpoint'', rstrip_slash base_url @ ''/mcp'') else (''ping'', []))"

definition health :: json where
  "health = JObj [(''status'', JStr ''ok''), (''service'', JStr ''mcp-gateway'')]"

subsection \<open>Tracing (gateway/telemetry.py)\<close>

datatype exporter = Http_Exporter string "(string \<times> string) list option" | Grpc_Exporter string

record tracing =
  tc_configured :: bool
  tc_exporter :: "(string \<times> exporter) option"

text \<open>\<open>OTEL_EXPORTER_OTLP_HEADERS\<close>: pairs separated by commas; parts without an equals sign are ignored.\<close>

definition header_of :: "string \<Rightarrow> (string \<times> string) option" where
  "header_of pair =
     (case partition_at (CHR ''='') pair of (k, Some v) \<Rightarrow> Some (py_strip k, py_strip v) | _ \<Rightarrow> None)"

definition otlp_headers :: "environ \<Rightarrow> (string \<times> string) list" where
  "otlp_headers environ =
     fold (\<lambda>pair hs. case header_of pair of Some (k, v) \<Rightarrow> AList.update k v hs | None \<Rightarrow> hs)
       (split_on (CHR '','') (env_or environ ''OTEL_EXPORTER_OTLP_HEADERS'' [])) []"

definition configure_telemetry :: "bool \<Rightarrow> environ \<Rightarrow> tracing \<Rightarrow> tracing" where
  "configure_telemetry installed environ t =
     (if tc_configured t then t
      else if py_lower (env_or environ ''OTEL_TRACES_EXPORTER'' ''otlp'') = ''none'' \<or> \<not> installed then t\<lparr>tc_configured := True\<rparr>
      else (let endpoint = env_or environ ''OTEL_EXPORTER_OTLP_ENDPOINT'' ''http://localhost:4317'';
                hs = otlp_headers environ
            in \<lparr>tc_configured = True,
                tc_exporter = Some (env_or environ ''OTEL_SERVICE_NAME'' ''mcp-gateway'',
                  if startswith endpoint ''https://'' then Http_Exporter (endpoint @ ''/v1/traces'') (if hs = [] then None else Some hs)
                  else Grpc_Exporter endpoint)\<rparr>))"

text \<open>Only the first configuration counts.\<close>

lemma configure_once: "configure_telemetry i' e' (configure_telemetry i e t) = configure_telemetry i e t"
  by (simp add: configure_telemetry_def Let_def)

text \<open>The headers are sent only over HTTPS: with a plain endpoint, credentials given there are dropped.\<close>

lemma grpc_drops_headers:
  assumes "\<not> startswith (env_or environ ''OTEL_EXPORTER_OTLP_ENDPOINT'' ''http://localhost:4317'') ''https://''"
    and "tc_exporter (configure_telemetry True environ \<lparr>tc_configured = False, tc_exporter = None\<rparr>) = Some (name, ex)"
  shows "\<exists>endpoint. ex = Grpc_Exporter endpoint"
  using assms by (auto simp: configure_telemetry_def Let_def split: if_splits)

subsection \<open>Resources created on first use\<close>

text \<open>
  The models of \<open>LocalEmbedder\<close> and \<open>CrossEncoderReranker\<close>, the connection of \<open>PgVectorStore\<close> and the
  checkpointer of the graph orchestrator are made when first needed and kept.
\<close>

locale lazy_resource =
  fixes acquire :: "'s \<Rightarrow> ('e, 'r) result \<times> 's"
    and current :: "'s \<Rightarrow> 'r option"
  assumes kept: "current s = Some r \<Longrightarrow> acquire s = (Inr r, s)"
    and stored: "acquire s = (Inr r, s') \<Longrightarrow> current s' = Some r"
begin

fun acquire_all :: "nat \<Rightarrow> 's \<Rightarrow> ('e, 'r) result list \<times> 's" where
  "acquire_all 0 s = ([], s)"
| "acquire_all (Suc n) s = (case acquire s of (r, s1) \<Rightarrow> (case acquire_all n s1 of (rs, s2) \<Rightarrow> (r # rs, s2)))"

lemma acquired_once:
  assumes "acquire s = (Inr r, s1)"
  shows "acquire_all (Suc n) s = (replicate (Suc n) (Inr r), s1)"
proof -
  note k = kept [OF stored [OF assms]]
  have "acquire_all n s1 = (replicate n (Inr r), s1)" by (induction n) (simp_all add: k)
  with assms show ?thesis by simp
qed

end

text \<open>A model is loaded by its name; \<open>build\<close> is the library's constructor.\<close>

record 'm lazy_model =
  lm_name :: string
  lm_model :: "'m option"

definition load_model :: "(string \<Rightarrow> (string, 'm) result) \<Rightarrow> 'm lazy_model \<Rightarrow> (string, 'm) result \<times> 'm lazy_model" where
  "load_model build s =
     (case lm_model s of
        Some m \<Rightarrow> (Inr m, s)
      | None \<Rightarrow> (case build (lm_name s) of Inl e \<Rightarrow> (Inl e, s) | Inr m \<Rightarrow> (Inr m, s\<lparr>lm_model := Some m\<rparr>)))"

definition local_embed ::
  "(string \<Rightarrow> (string, 'm) result) \<Rightarrow> ('m \<Rightarrow> string \<Rightarrow> 'v) \<Rightarrow> 'm lazy_model \<Rightarrow> string \<Rightarrow> (string, 'v) result \<times> 'm lazy_model" where
  "local_embed build encode s txt =
     (case load_model build s of (Inl e, s') \<Rightarrow> (Inl e, s') | (Inr m, s') \<Rightarrow> (Inr (encode m txt), s'))"

text \<open>
  The connection and whether it is closed. \<open>dial\<close> connects, \<open>register\<close> is \<open>register_vector\<close>: it may
  raise after the connection has been stored.
\<close>

record 'c pg_state =
  pg_dsn :: string
  pg_conn :: "('c \<times> bool) option"

definition pg_init :: "string \<Rightarrow> (string, 'c pg_state) result" where
  "pg_init dsn = Inr \<lparr>pg_dsn = dsn, pg_conn = None\<rparr>"

datatype 'c vector_backend = Pg_Store "'c pg_state" | In_Memory_Store

definition make_vector_store :: "environ \<Rightarrow> 'c vector_backend" where
  "make_vector_store environ =
     (if is_set environ ''DATABASE_URL''
      then case pg_init (the (environ ''DATABASE_URL'')) of Inr s \<Rightarrow> Pg_Store s | Inl _ \<Rightarrow> In_Memory_Store
      else In_Memory_Store)"

definition open_conn :: "'c pg_state \<Rightarrow> 'c option" where
  "open_conn s = (case pg_conn s of Some (c, shut) \<Rightarrow> if shut then None else Some c | None \<Rightarrow> None)"

definition pg_connect ::
  "bool \<Rightarrow> (string \<Rightarrow> (string, 'c) result) \<Rightarrow> ('c \<Rightarrow> string option) \<Rightarrow> 'c pg_state \<Rightarrow> (string, 'c) result \<times> 'c pg_state" where
  "pg_connect installed dial register s =
     (case open_conn s of
        Some c \<Rightarrow> (Inr c, s)
      | None \<Rightarrow>
          (if \<not> installed then (Inl ''psycopg and pgvector are required: pip install 'psycopg[binary]' pgvector'', s)
           else case dial (pg_dsn s) of
                  Inl e \<Rightarrow> (Inl e, s)
                | Inr c \<Rightarrow>
                    (case register c of
                       Some e \<Rightarrow> (Inl e, s\<lparr>pg_conn := Some (c, False)\<rparr>)
                     | None \<Rightarrow> (Inr c, s\<lparr>pg_conn := Some (c, False)\<rparr>))))"

definition pg_close :: "'c pg_state \<Rightarrow> 'c pg_state" where
  "pg_close s = (case pg_conn s of Some (c, shut) \<Rightarrow> s\<lparr>pg_conn := Some (c, True)\<rparr> | None \<Rightarrow> s)"

text \<open>
  The checkpointer and the context of the Redis one; \<open>redis\<close> says whether entering the context and
  setting up succeed.
\<close>

datatype checkpointer = Redis_Saver | Memory_Saver

record saver_state =
  sv_checkpointer :: "checkpointer option"
  sv_context :: bool

definition ensure_checkpointer :: "bool \<Rightarrow> saver_state \<Rightarrow> (string, checkpointer) result \<times> saver_state" where
  "ensure_checkpointer redis s =
     (case sv_checkpointer s of
        Some c \<Rightarrow> (Inr c, s)
      | None \<Rightarrow>
          (if redis then (Inr Redis_Saver, \<lparr>sv_checkpointer = Some Redis_Saver, sv_context = True\<rparr>)
           else (Inr Memory_Saver, \<lparr>sv_checkpointer = Some Memory_Saver, sv_context = False\<rparr>)))"

definition close_checkpointer :: "saver_state \<Rightarrow> saver_state" where
  "close_checkpointer s = \<lparr>sv_checkpointer = None, sv_context = False\<rparr>"

interpretation lazy_model: lazy_resource "load_model build" lm_model
  by unfold_locales (auto simp: load_model_def split: option.splits sum.splits)

interpretation lazy_conn: lazy_resource "pg_connect installed dial register" open_conn
  by unfold_locales (auto simp: pg_connect_def open_conn_def split: option.splits sum.splits if_splits)

interpretation lazy_saver: lazy_resource "ensure_checkpointer redis" sv_checkpointer
  by unfold_locales (auto simp: ensure_checkpointer_def split: option.splits if_splits)

interpretation lazy_key: lazy_resource "\<lambda>cached. (Inr (auth_jwt_key import_key fresh secret cached) :: (string, 'k) result,
    Some (auth_jwt_key import_key fresh secret cached))" "\<lambda>cached. cached"
  by unfold_locales (auto simp: auth_jwt_key_def)

text \<open>
  One model serves all texts, and the choice between Redis and memory is made once: a Redis that comes
  back later is not used, checkpoints stay where they are.
\<close>

lemma one_model_for_all:
  assumes "load_model build s = (Inr m, s1)"
  shows "local_embed build encode s1 txt = (Inr (encode m txt), s1)"
  using lazy_model.kept [OF lazy_model.stored [OF assms]] by (simp add: local_embed_def)

lemma checkpointer_chosen_once:
  "ensure_checkpointer redis s = (Inr c, s1) \<Longrightarrow> ensure_checkpointer redis' s1 = (Inr c, s1)"
  using lazy_saver.kept [OF lazy_saver.stored] by blast

text \<open>
  The constructor does not connect, so the fallback to the in-memory store is never taken: with an
  unreachable database the first query fails.
\<close>

lemma database_never_falls_back:
  assumes "environ ''DATABASE_URL'' = Some dsn" and "dsn \<noteq> []" and "dial dsn = Inl e"
  shows "\<exists>s. make_vector_store environ = Pg_Store s \<and> fst (pg_connect True dial register s) = Inl e"
  using assms by (simp add: make_vector_store_def pg_init_def is_set_def pg_connect_def open_conn_def)

text \<open>
  If registering the vector type fails, that use of the store fails; the next finds the connection
  open and goes on without the type.
\<close>

lemma pg_unregistered:
  assumes "open_conn s = None" and "dial (pg_dsn s) = Inr c" and "register c = Some e"
    and "pg_connect True dial register s = (r, s1)"
  shows "r = Inl e \<and> pg_connect True dial register s1 = (Inr c, s1)"
  using assms by (auto simp: pg_connect_def open_conn_def)

lemma pg_reconnects: "open_conn (pg_close s) = None"
  by (auto simp: pg_close_def open_conn_def split: option.splits)

end
