(* ===== verification/Fleet_Pool.thy ===== *)
theory Fleet_Pool
  imports Fleet
begin

section \<open>Concurrent fleet workers (gateway/fleet.py)\<close>

text \<open>
  \<open>_run_workers\<close> creates a task for every job it claims; a task waits for one of \<open>FLEET_CONCURRENCY\<close>
  places and then goes through the phases of \<open>_process_job\<close>, which are the stretches between two
  points where the event loop may switch: reading the record, marking it as running, executing it,
  storing its outcome, acknowledging the message. The step relation lets the loop claim and any task
  inside the semaphore advance, in any order; tasks enter it first come first served. The call that a
  job makes is one step.
\<close>

datatype job_phase =
    Waits
  | Reading
  | Marking job
  | Executing job
  | Storing job
  | Acking
  | Over "(fleet_error, unit) result"

record pool_task =
  pt_msg :: string
  pt_job :: string
  pt_phase :: job_phase

type_synonym ('r, 's) pool = "pool_task list \<times> ('r, 's) fleet"

fun works :: "job_phase \<Rightarrow> bool" where
  "works Waits = False" | "works (Over _) = False" | "works _ = True"

definition active :: "pool_task list \<Rightarrow> nat" where
  "active ts = length (filter (\<lambda>t. works (pt_phase t)) ts)"

text \<open>One stretch of a task inside the semaphore.\<close>

fun work_step ::
  "'r redis_client \<Rightarrow> 's stream_client \<Rightarrow> (job \<Rightarrow> ('r, 's) fleet \<Rightarrow> (string, json option) result \<times> ('r, 's) fleet)
     \<Rightarrow> string \<Rightarrow> string \<Rightarrow> job_phase \<Rightarrow> ('r, 's) fleet \<Rightarrow> job_phase \<times> ('r, 's) fleet" where
  "work_step c x dispatch msg_id job_id Reading w =
     (case read_job c w job_id of
        Inl e \<Rightarrow> (Over (Inl e), w)
      | Inr None \<Rightarrow> (Acking, w)
      | Inr (Some job) \<Rightarrow> (Marking (AList.update ''status'' (JStr ''running'') job), w))"
| "work_step c x dispatch msg_id job_id (Marking job) w =
     (case write_job c w job_id job of (Inl e, w') \<Rightarrow> (Over (Inl e), w') | (Inr _, w') \<Rightarrow> (Executing job, w'))"
| "work_step c x dispatch msg_id job_id (Executing job) w =
     (case execute_job dispatch job w of (outcome, w') \<Rightarrow> (Storing (finish_job outcome job), w'))"
| "work_step c x dispatch msg_id job_id (Storing job) w =
     (case write_job c w job_id job of (Inl e, w') \<Rightarrow> (Over (Inl e), w') | (Inr _, w') \<Rightarrow> (Acking, w'))"
| "work_step c x dispatch msg_id job_id Acking w =
     (case fw_ack x (fl_stream w) msg_id of
        (Inl exc, s') \<Rightarrow> (Over (Inl (FleetRuntime exc)), w\<lparr>fl_stream := s'\<rparr>)
      | (Inr _, s') \<Rightarrow> (Over (Inr ()), w\<lparr>fl_stream := s'\<rparr>))"
| "work_step c x dispatch msg_id job_id ph w = (ph, w)"

inductive pool_step ::
  "'r redis_client \<Rightarrow> 's stream_client \<Rightarrow> (job \<Rightarrow> ('r, 's) fleet \<Rightarrow> (string, json option) result \<times> ('r, 's) fleet)
     \<Rightarrow> nat \<Rightarrow> ('r, 's) pool \<Rightarrow> ('r, 's) pool \<Rightarrow> bool"
  for c x dispatch limit where
  claim: "fw_claim_job x ''worker-0'' (fl_stream w) = (Inr (Some (m, j)), s) \<Longrightarrow>
    pool_step c x dispatch limit (ts, w) (ts @ [\<lparr>pt_msg = m, pt_job = j, pt_phase = Waits\<rparr>], w\<lparr>fl_stream := s\<rparr>)"
| nothing: "fw_claim_job x ''worker-0'' (fl_stream w) = (r, s) \<Longrightarrow> (\<And>mj. r \<noteq> Inr (Some mj)) \<Longrightarrow>
    pool_step c x dispatch limit (ts, w) (ts, w\<lparr>fl_stream := s\<rparr>)"
| enter: "pt_phase t = Waits \<Longrightarrow> \<forall>u \<in> set us. pt_phase u \<noteq> Waits \<Longrightarrow> active (us @ t # vs) < limit \<Longrightarrow>
    pool_step c x dispatch limit (us @ t # vs, w) (us @ t\<lparr>pt_phase := Reading\<rparr> # vs, w)"
| work: "works (pt_phase t) \<Longrightarrow> work_step c x dispatch (pt_msg t) (pt_job t) (pt_phase t) w = (ph, w') \<Longrightarrow>
    pool_step c x dispatch limit (us @ t # vs, w) (us @ t\<lparr>pt_phase := ph\<rparr> # vs, w')"

inductive_cases pool_stepE: "pool_step c x dispatch limit (ts, w) (ts', w')"

subsection \<open>A task alone is \<open>process_job\<close>\<close>

definition alone :: "string \<Rightarrow> string \<Rightarrow> job_phase \<Rightarrow> pool_task list" where
  "alone m j ph = [\<lparr>pt_msg = m, pt_job = j, pt_phase = ph\<rparr>]"

lemma alone_works:
  assumes "works ph" and "work_step c x dispatch m j ph w = (ph', w')"
  shows "pool_step c x dispatch limit (alone m j ph, w) (alone m j ph', w')"
  using work [of "\<lparr>pt_msg = m, pt_job = j, pt_phase = ph\<rparr>" c x dispatch w ph' w' limit "[]" "[]"] assms by (simp add: alone_def)

lemma alone_enters: "0 < limit \<Longrightarrow> pool_step c x dispatch limit (alone m j Waits, w) (alone m j Reading, w)"
  using enter [of "\<lparr>pt_msg = m, pt_job = j, pt_phase = Waits\<rparr>" "[]" "[]" limit c x dispatch w] by (simp add: alone_def active_def)

fun work_run ::
  "'r redis_client \<Rightarrow> 's stream_client \<Rightarrow> (job \<Rightarrow> ('r, 's) fleet \<Rightarrow> (string, json option) result \<times> ('r, 's) fleet)
     \<Rightarrow> string \<Rightarrow> string \<Rightarrow> nat \<Rightarrow> job_phase \<Rightarrow> ('r, 's) fleet \<Rightarrow> job_phase \<times> ('r, 's) fleet" where
  "work_run c x dispatch m j 0 ph w = (ph, w)"
| "work_run c x dispatch m j (Suc n) ph w =
     (case work_step c x dispatch m j ph w of (ph', w') \<Rightarrow> work_run c x dispatch m j n ph' w')"

lemma work_run_over [simp]: "work_run c x dispatch m j n (Over r) w = (Over r, w)"
  by (induction n) simp_all

lemma work_run_process: "work_run c x dispatch m j 5 Reading w = (case process_job c x dispatch w m j of (r, w') \<Rightarrow> (Over r, w'))"
  by (simp add: eval_nat_numeral process_job_def Let_def split: prod.split sum.split option.split)

lemma alone_runs: "(pool_step c x dispatch limit)\<^sup>*\<^sup>* (alone m j ph, w) (alone m j (fst (work_run c x dispatch m j n ph w)), snd (work_run c x dispatch m j n ph w))"
proof (induction n arbitrary: ph w)
  case (Suc n)
  obtain ph' w' where s: "work_step c x dispatch m j ph w = (ph', w')" by (metis prod.exhaust)
  show ?case
  proof (cases "works ph")
    case True
    from alone_works [OF True s, of limit] Suc [of ph' w'] s show ?thesis by (simp add: converse_rtranclp_into_rtranclp)
  next
    case False
    then have "ph' = ph \<and> w' = w" using s by (cases ph) auto
    with Suc [of ph w] s show ?thesis by simp
  qed
qed simp

lemma process_job_is_run:
  assumes "0 < limit" and "process_job c x dispatch w m j = (r, w')"
  shows "(pool_step c x dispatch limit)\<^sup>*\<^sup>* (alone m j Waits, w) (alone m j (Over r), w')"
  using converse_rtranclp_into_rtranclp [where r = "pool_step c x dispatch limit", OF alone_enters [OF assms(1), of c x dispatch m j w]
      alone_runs [of c x dispatch limit m j Reading w 5]] assms(2)
  by (simp add: work_run_process)

subsection \<open>Jobs do not disturb each other\<close>

text \<open>What the pool needs of the calls that jobs make: they leave the records of jobs alone.\<close>

locale fleet_pool = redis_store c view up
  for c :: "'r redis_client" and view :: "'r \<Rightarrow> string \<rightharpoonup> string" and up :: "'r \<Rightarrow> bool" +
  fixes dispatch :: "job \<Rightarrow> ('r, 's) fleet \<Rightarrow> (string, json option) result \<times> ('r, 's) fleet"
  assumes dispatch_up: "up (fl_redis w) \<Longrightarrow> up (fl_redis (snd (execute_job dispatch job w)))"
    and dispatch_jobs: "up (fl_redis w) \<Longrightarrow> view (fl_redis (snd (execute_job dispatch job w))) (job_key j) = view (fl_redis w) (job_key j)"

definition running :: "job \<Rightarrow> job" where
  "running job = AList.update ''status'' (JStr ''running'') job"

text \<open>The record a task stands for, given the one it was claimed with.\<close>

definition ended_with :: "(job \<Rightarrow> ('r, 's) fleet \<Rightarrow> (string, json option) result \<times> ('r, 's) fleet) \<Rightarrow> job \<Rightarrow> job \<Rightarrow> bool" where
  "ended_with dispatch job record \<longleftrightarrow> (\<exists>w. record = finish_job (fst (execute_job dispatch (running job) w)) (running job))"

definition record_at ::
  "(job \<Rightarrow> ('r, 's) fleet \<Rightarrow> (string, json option) result \<times> ('r, 's) fleet) \<Rightarrow> job \<Rightarrow> job_phase \<Rightarrow> job \<Rightarrow> bool" where
  "record_at dispatch job ph record =
     (case ph of
        Waits \<Rightarrow> record = job
      | Reading \<Rightarrow> record = job
      | Marking r \<Rightarrow> record = job \<and> r = running job
      | Executing r \<Rightarrow> record = running job \<and> r = running job
      | Storing r \<Rightarrow> record = running job \<and> ended_with dispatch job r
      | Acking \<Rightarrow> ended_with dispatch job record
      | Over r \<Rightarrow> ended_with dispatch job record)"

context fleet_pool
begin

lemma work_step_frame:
  assumes "up (fl_redis w)" and "work_step c x dispatch m j ph w = (ph', w')"
  shows "up (fl_redis w') \<and> (\<forall>i. i \<noteq> j \<longrightarrow> view (fl_redis w') (job_key i) = view (fl_redis w) (job_key i))"
proof -
  have wr: "up (fl_redis w1) \<and> (\<forall>i. i \<noteq> j \<longrightarrow> view (fl_redis w1) (job_key i) = view (fl_redis w) (job_key i))"
    if "write_job c w j job = (r, w1)" for job r w1
    by (rule write_job_up [OF assms(1), of j job]) (use that in auto)
  have call: "up (fl_redis w1) \<and> (\<forall>i. view (fl_redis w1) (job_key i) = view (fl_redis w) (job_key i))"
    if "execute_job dispatch job w = (r, w1)" for job r w1
    using dispatch_up [OF assms(1), of job] dispatch_jobs [OF assms(1), of job] that by simp
  show ?thesis
  proof (cases ph)
    case (Marking job)
    with assms(2) wr [of job] show ?thesis by (auto split: prod.splits sum.splits)
  next
    case (Executing job)
    with assms(2) call [of job] show ?thesis by (auto split: prod.splits)
  next
    case (Storing job)
    with assms(2) wr [of job] show ?thesis by (auto split: prod.splits sum.splits)
  qed (use assms in \<open>auto split: prod.splits sum.splits option.splits\<close>)
qed

lemma work_step_record:
  assumes "up (fl_redis w)" and "work_step c x dispatch m j ph w = (ph', w')" and "works ph" and "job_ok job"
    and "view (fl_redis w) (job_key j) = Some (dumps (JObj record))" and "record_at dispatch job ph record"
  shows "\<exists>record'. view (fl_redis w') (job_key j) = Some (dumps (JObj record')) \<and> record_at dispatch job ph' record'"
proof (cases ph)
  case Reading
  with assms(4-6) have "read_job c w j = Inr (Some job)" by (intro read_job_up [OF assms(1)]) (simp_all add: record_at_def del: dumps.simps)
  with Reading assms(2,5,6) show ?thesis by (auto simp: record_at_def running_def simp del: dumps.simps)
next
  case (Marking r)
  obtain w1 where w1: "write_job c w j r = (Inr (), w1)" "view (fl_redis w1) = (view (fl_redis w))(job_key j \<mapsto> dumps (JObj r))"
    by (rule write_job_up [OF assms(1)])
  with Marking assms(2,6) show ?thesis by (auto simp: record_at_def simp del: dumps.simps)
next
  case (Executing r)
  obtain a w1 where w1: "execute_job dispatch r w = (a, w1)" by (metis prod.exhaust)
  then have "ended_with dispatch job (finish_job a r)" using Executing assms(6) by (auto simp: ended_with_def record_at_def intro!: exI [of _ w])
  moreover have "view (fl_redis w1) (job_key j) = Some (dumps (JObj record))" using dispatch_jobs [OF assms(1), of r j] w1 assms(5) by simp
  ultimately show ?thesis using Executing w1 assms(2,6) by (auto simp: record_at_def simp del: dumps.simps)
next
  case (Storing r)
  obtain w1 where w1: "write_job c w j r = (Inr (), w1)" "view (fl_redis w1) = (view (fl_redis w))(job_key j \<mapsto> dumps (JObj r))"
    by (rule write_job_up [OF assms(1)])
  with Storing assms(2,6) show ?thesis by (auto simp: record_at_def simp del: dumps.simps)
next
  case Acking
  with assms(2,5,6) show ?thesis by (auto simp: record_at_def simp del: dumps.simps split: prod.splits sum.splits)
qed (use assms(3) in simp_all)

text \<open>The invariant of the pool: \<open>w0\<close> is the world before the loop started, \<open>jobs\<close> the records in it.\<close>

definition stored_at :: "(string \<Rightarrow> job) \<Rightarrow> ('r, 's) fleet \<Rightarrow> pool_task \<Rightarrow> bool" where
  "stored_at jobs w0 t \<longleftrightarrow> job_ok (jobs (pt_job t)) \<and> view (fl_redis w0) (job_key (pt_job t)) = Some (dumps (JObj (jobs (pt_job t))))"

definition shows_phase :: "(string \<Rightarrow> job) \<Rightarrow> ('r, 's) fleet \<Rightarrow> pool_task \<Rightarrow> bool" where
  "shows_phase jobs w t \<longleftrightarrow>
     (\<exists>record. view (fl_redis w) (job_key (pt_job t)) = Some (dumps (JObj record)) \<and> record_at dispatch (jobs (pt_job t)) (pt_phase t) record)"

definition pool_inv :: "nat \<Rightarrow> (string \<Rightarrow> job) \<Rightarrow> ('r, 's) fleet \<Rightarrow> ('r, 's) pool \<Rightarrow> bool" where
  "pool_inv limit jobs w0 p \<longleftrightarrow>
     (case p of (ts, w) \<Rightarrow> up (fl_redis w) \<and> active ts \<le> limit
        \<and> (\<forall>i. i \<notin> pt_job ` set ts \<longrightarrow> view (fl_redis w) (job_key i) = view (fl_redis w0) (job_key i))
        \<and> (distinct (map pt_job ts) \<longrightarrow> (\<forall>t \<in> set ts. stored_at jobs w0 t) \<longrightarrow> (\<forall>t \<in> set ts. shows_phase jobs w t)))"

lemma shows_phase_cong:
  "view (fl_redis w') (job_key (pt_job t)) = view (fl_redis w) (job_key (pt_job t)) \<Longrightarrow> shows_phase jobs w t \<Longrightarrow> shows_phase jobs w' t"
  by (simp add: shows_phase_def)

lemma pool_step_inv:
  assumes "pool_step c x dispatch limit p p'" and "pool_inv limit jobs w0 p"
  shows "pool_inv limit jobs w0 p'"
  using assms
proof (induction rule: pool_step.induct)
  case (claim w m j s ts)
  have "shows_phase jobs (w\<lparr>fl_stream := s\<rparr>) \<lparr>pt_msg = m, pt_job = j, pt_phase = Waits\<rparr>"
    if "j \<notin> pt_job ` set ts" "stored_at jobs w0 \<lparr>pt_msg = m, pt_job = j, pt_phase = Waits\<rparr>"
    using that claim.prems by (simp add: pool_inv_def shows_phase_def stored_at_def record_at_def)
  with claim.prems show ?case by (auto simp: pool_inv_def active_def shows_phase_def)
next
  case (nothing w r s ts)
  then show ?case by (auto simp: pool_inv_def shows_phase_def)
next
  case (enter t us vs w)
  have "shows_phase jobs w (t\<lparr>pt_phase := Reading\<rparr>)" if "shows_phase jobs w t"
    using that enter.hyps(1) by (simp add: shows_phase_def record_at_def)
  with enter show ?case by (auto simp: pool_inv_def active_def stored_at_def)
next
  case (work t w ph w' us vs)
  have up: "up (fl_redis w)" using work.prems by (simp add: pool_inv_def)
  note frame = work_step_frame [OF up work.hyps(2)]
  have mine: "shows_phase jobs w' (t\<lparr>pt_phase := ph\<rparr>)" if "shows_phase jobs w t" "stored_at jobs w0 t"
    using that work_step_record [OF up work.hyps(2,1)] by (auto simp: shows_phase_def stored_at_def simp del: dumps.simps)
  have others: "shows_phase jobs w' u" if "shows_phase jobs w u" "pt_job u \<noteq> pt_job t" for u
    using that frame by (blast intro: shows_phase_cong)
  have "active (us @ t\<lparr>pt_phase := ph\<rparr> # vs) \<le> active (us @ t # vs)" using work.hyps(1) by (simp add: active_def)
  with work.prems frame mine others show ?case
    by (fastforce simp: pool_inv_def stored_at_def image_iff)
qed

lemma pool_steps_inv: "(pool_step c x dispatch limit)\<^sup>*\<^sup>* p p' \<Longrightarrow> pool_inv limit jobs w0 p \<Longrightarrow> pool_inv limit jobs w0 p'"
  by (induction rule: rtranclp_induct) (blast intro: pool_step_inv)+

end

subsection \<open>The semaphore never blocks the pool\<close>

fun stretches :: "job_phase \<Rightarrow> nat" where
  "stretches Waits = 6" | "stretches Reading = 5" | "stretches (Marking _) = 4" | "stretches (Executing _) = 3"
| "stretches (Storing _) = 2" | "stretches Acking = 1" | "stretches (Over _) = 0"

definition to_do :: "pool_task list \<Rightarrow> nat" where
  "to_do ts = sum_list (map (stretches \<circ> pt_phase) ts)"

lemma work_step_progress: "works ph \<Longrightarrow> work_step c x dispatch m j ph w = (ph', w') \<Longrightarrow> stretches ph' < stretches ph"
  by (cases ph) (auto split: prod.splits sum.splits option.splits)

lemma pool_progress:
  assumes "0 < limit" and "0 < to_do ts"
  shows "\<exists>ts' w'. pool_step c x dispatch limit (ts, w) (ts', w') \<and> to_do ts' < to_do ts \<and> map pt_job ts' = map pt_job ts"
proof (cases "\<exists>t \<in> set ts. works (pt_phase t)")
  case True
  then obtain us t vs where ts: "ts = us @ t # vs" "works (pt_phase t)" by (meson split_list)
  obtain ph w' where s: "work_step c x dispatch (pt_msg t) (pt_job t) (pt_phase t) w = (ph, w')" by (metis prod.exhaust)
  show ?thesis
    by (intro exI [of _ "us @ t\<lparr>pt_phase := ph\<rparr> # vs"] exI [of _ w'])
      (use work [OF ts(2) s] work_step_progress [OF ts(2) s] in \<open>simp add: ts(1) to_do_def\<close>)
next
  case False
  then have idle: "active ts = 0" by (simp add: active_def filter_empty_conv)
  have "\<exists>t \<in> set ts. pt_phase t = Waits"
  proof (rule ccontr)
    assume "\<not> ?thesis"
    with False have "stretches (pt_phase t) = 0" if "t \<in> set ts" for t using that by (cases "pt_phase t") auto
    then have "to_do ts = 0" by (simp add: to_do_def)
    with assms(2) show False by simp
  qed
  then obtain us t vs where ts: "ts = us @ t # vs" "pt_phase t = Waits" "\<forall>u \<in> set us. pt_phase u \<noteq> Waits"
    by (rule split_list_first_propE)
  have "active (us @ t # vs) < limit" using idle assms(1) by (simp add: ts(1))
  from enter [OF ts(2,3) this, of c x dispatch w] show ?thesis
    by (intro exI [of _ "us @ t\<lparr>pt_phase := Reading\<rparr> # vs"] exI [of _ w]) (simp add: ts(1,2) to_do_def)
qed

lemma pool_finishes:
  assumes "0 < limit"
  shows "\<exists>ts' w'. (pool_step c x dispatch limit)\<^sup>*\<^sup>* (ts, w) (ts', w') \<and> to_do ts' = 0 \<and> map pt_job ts' = map pt_job ts"
proof (induction "to_do ts" arbitrary: ts w rule: less_induct)
  case less
  show ?case
  proof (cases "to_do ts = 0")
    case True
    then show ?thesis by blast
  next
    case False
    then obtain ts1 w1 where one: "pool_step c x dispatch limit (ts, w) (ts1, w1)" "to_do ts1 < to_do ts" "map pt_job ts1 = map pt_job ts"
      using pool_progress [OF assms] by blast
    from less [OF one(2), of w1] one(1,3) show ?thesis by (metis converse_rtranclp_into_rtranclp)
  qed
qed

lemma to_do_over: "to_do ts = 0 \<Longrightarrow> t \<in> set ts \<Longrightarrow> \<exists>r. pt_phase t = Over r"
  by (cases "pt_phase t") (auto simp: to_do_def)


lemma claim_one:
  "fw_claim_job mem_stream_client ''worker-0'' (ms_init\<lparr>ms_queue := [(''0'', [(''job_id'', ''j1'')])]\<rparr>)
     = (Inr (Some (''0'', ''j1'')), ms_init\<lparr>ms_pel := [(''0'', [(''job_id'', ''j1'')])]\<rparr>)"
  by (simp add: fw_claim_job_def mem_stream_client_def ms_init_def)


end
