(* ===== verification/Gateway_Fleet.thy ===== *)
theory Gateway_Fleet
  imports Gateway Fleet_Pool
begin

section \<open>The fleet inside the gateway (gateway/fleet.py with gateway/app.py)\<close>

text \<open>
  The routes of the fleet are mounted in the gateway without a token dependency, and its workers hand
  each job to \<open>_agents_dispatch\<close> of the same process, with no claims. Here the fleet's stream is paired
  with the gateway's world, so that processing a job is a step of the gateway.
\<close>

definition on_first :: "('s \<Rightarrow> 'a \<times> 's) \<Rightarrow> 's \<times> 'g \<Rightarrow> 'a \<times> ('s \<times> 'g)" where
  "on_first f p = (case f (fst p) of (r, s') \<Rightarrow> (r, (s', snd p)))"

definition beside :: "'s stream_client \<Rightarrow> ('s \<times> 'g) stream_client" where
  "beside x =
     \<lparr>sx_group_create = on_first (sx_group_create x), sx_add = (\<lambda>p f. on_first (\<lambda>s. sx_add x s f) p),
      sx_readgroup = (\<lambda>p k. on_first (\<lambda>s. sx_readgroup x s k) p), sx_ack = (\<lambda>p i. on_first (\<lambda>s. sx_ack x s i) p),
      sx_pending = (\<lambda>p n. sx_pending x (fst p) n), sx_claim = (\<lambda>p k t i. on_first (\<lambda>s. sx_claim x s k t i) p)\<rparr>"

text \<open>The request made of a job record: \<open>job["method"]\<close> and \<open>job["job_id"]\<close> raise if missing.\<close>

definition job_request :: "job \<Rightarrow> mcp_request option" where
  "job_request job =
     (case (map_of job ''job_id'', map_of job ''method'') of
        (Some (JStr jid), Some (JStr meth)) \<Rightarrow>
          (case map_of job ''params'' of
             Some (JObj params) \<Rightarrow> Some \<lparr>rq_method = meth, rq_params = Some params, rq_id = JStr jid\<rparr>
           | None \<Rightarrow> Some \<lparr>rq_method = meth, rq_params = Some [], rq_id = JStr jid\<rparr>
           | Some _ \<Rightarrow> None)
      | _ \<Rightarrow> None)"

definition fleet_dispatch ::
  "('r, 'h, 'l, 'm) gateway \<Rightarrow> job \<Rightarrow> ('f, 's \<times> ('r, 'h, 'l, 'm) gateway_world) fleet
     \<Rightarrow> (string, json option) result \<times> ('f, 's \<times> ('r, 'h, 'l, 'm) gateway_world) fleet" where
  "fleet_dispatch g job w =
     (case job_request job of
        None \<Rightarrow> (Inl ''KeyError'', w)
      | Some req \<Rightarrow>
          (case agents_dispatch g req (snd (fl_stream w)) of
             (Inl e, gw) \<Rightarrow> (Inl (error_of e), w\<lparr>fl_stream := (fst (fl_stream w), gw)\<rparr>)
           | (Inr r, gw) \<Rightarrow> (Inr (Some (gateway_json r)), w\<lparr>fl_stream := (fst (fl_stream w), gw)\<rparr>)))"

text \<open>The stream's own operations leave the gateway alone.\<close>

lemma on_first_snd [simp]: "snd (snd (on_first f p)) = snd p"
  by (simp add: on_first_def split: prod.splits)

lemma beside_sel [simp]:
  "sx_group_create (beside x) = on_first (sx_group_create x)" "sx_add (beside x) p f = on_first (\<lambda>s. sx_add x s f) p"
  "sx_ack (beside x) p i = on_first (\<lambda>s. sx_ack x s i) p"
  by (simp_all add: beside_def)

lemma on_first_eq: "on_first f p = (r, q) \<Longrightarrow> snd q = snd p"
  using on_first_snd [of f p] by simp

lemma write_job_stream: "fl_stream (snd (write_job c w jid job)) = fl_stream w"
  by (auto simp: write_job_def split: prod.splits sum.splits)

lemma ensure_leaves_gateway: "snd (snd (sw_ensure_group (beside x) p)) = snd p"
proof -
  obtain r q where r: "on_first (sx_group_create x) p = (r, q)" by (metis prod.exhaust)
  then have "snd q = snd p" by (rule on_first_eq)
  with r show ?thesis by (cases r) (simp_all add: sw_ensure_group_def)
qed

lemma publish_leaves_gateway: "snd (snd (fw_publish_job (beside x) p jid meth params)) = snd p"
  by (simp add: fw_publish_job_def)

lemma submit_leaves_gateway:
  assumes "submit_job c (beside x) limit w jid now meth params = (answer, w0)"
  shows "snd (fl_stream w0) = snd (fl_stream w)"
proof -
  obtain a w1 where w1: "write_job c w jid (new_job jid meth params now limit) = (a, w1)" by (metis prod.exhaust)
  obtain b s1 where s1: "sw_ensure_group (beside x) (fl_stream w1) = (b, s1)" by (metis prod.exhaust)
  obtain d s2 where s2: "fw_publish_job (beside x) s1 jid meth params = (d, s2)" by (metis prod.exhaust)
  have "fl_stream w1 = fl_stream w" using write_job_stream [of c w jid "new_job jid meth params now limit"] w1 by simp
  moreover have "snd s1 = snd (fl_stream w1)" "snd s2 = snd s1"
    using ensure_leaves_gateway [of x "fl_stream w1"] publish_leaves_gateway [of x s1 jid meth params] s1 s2 by simp_all
  ultimately show ?thesis
    using assms w1 s1 s2 by (cases a; cases b) (auto simp: submit_job_def submit_one_def)
qed

lemma ack_leaves_gateway: "snd (snd (fw_ack (beside x) p i)) = snd p"
  by (simp add: fw_ack_def)

text \<open>The gateway's agent calls leave the records of jobs alone, so its workers do not disturb each other.\<close>

lemma fleet_dispatch_redis: "fl_redis (snd (execute_job (fleet_dispatch g) job w)) = fl_redis w"
  by (simp add: execute_job_def fleet_dispatch_def split: prod.split sum.split option.split)

interpretation gateway_pool: fleet_pool mem_redis "\<lambda>s. s" "\<lambda>_. True" "fleet_dispatch g" for g :: "('r, 'h, 'l, 'm) gateway"
  by unfold_locales (simp_all add: fleet_dispatch_redis)

lemmas gateway_pool_inv = gateway_pool.pool_steps_inv

text \<open>What the worker makes of a dispatcher's response.\<close>

definition job_outcome :: "(gw_error, mcp_response) result \<Rightarrow> (string, json option) result" where
  "job_outcome r =
     (case r of
        Inl e \<Rightarrow> Inl (error_of e)
      | Inr resp \<Rightarrow>
          (case rs_error resp of
             Some problem \<Rightarrow> Inl (case jget problem ''message'' of Some (JStr m) \<Rightarrow> m | _ \<Rightarrow> ''dispatch error'')
           | None \<Rightarrow> Inr (Some (case rs_result resp of Some v \<Rightarrow> v | None \<Rightarrow> JObj []))))"

lemma jget_gateway_json: "jget (gateway_json r) ''error'' = rs_error r" "jget (gateway_json r) ''result'' = rs_result r"
  by (auto simp: gateway_json_def jget_def split: option.splits)

lemma execute_fleet_job:
  assumes "job_request job = Some req"
  shows "execute_job (fleet_dispatch g) job w =
    (job_outcome (fst (agents_dispatch g req (snd (fl_stream w)))),
     w\<lparr>fl_stream := (fst (fl_stream w), snd (agents_dispatch g req (snd (fl_stream w))))\<rparr>)"
  using assms
  by (auto simp: execute_job_def fleet_dispatch_def job_outcome_def jget_gateway_json split: prod.splits sum.splits option.splits)

lemma running_job_request:
  "job_request (AList.update ''status'' (JStr ''running'') (new_job jid meth params now limit))
     = Some \<lparr>rq_method = meth, rq_params = Some params, rq_id = JStr jid\<rparr>"
  by (simp add: job_request_def) (simp add: new_job_def)

text \<open>The dispatcher refuses the same call without a token.\<close>

lemma gateway_refuses:
  assumes "rq_id req = JStr jid"
  shows "\<not> ga_dev_mode g \<longrightarrow> startswith (rq_method req) ''agents/'' \<longrightarrow>
    (\<exists>t. gateway_post g depth (verify_token decode valid key ''tools:call'' True) None req gw
         = (HBody (gateway_json (resp_err (JStr jid) (- 32001) t)), gw))"
proof (intro impI)
  assume dev: "\<not> ga_dev_mode g" and "startswith (rq_method req) ''agents/''"
  then have "protected_method (rq_method req)" by (simp add: protected_method_def)
  from dispatch_unauthenticated(2) [OF dev this] dispatch_unauthenticated(1) [OF dev]
  obtain t where "gateway_dispatch g depth req None gw = (Inr (resp_err (JStr jid) (- 32001) t), gw)"
    using assms by (metis prod.collapse)
  then show "\<exists>t. gateway_post g depth (verify_token decode valid key ''tools:call'' True) None req gw
      = (HBody (gateway_json (resp_err (JStr jid) (- 32001) t)), gw)"
    by (auto simp: gateway_post_def verify_token_def)
qed

text \<open>What a job makes of the agent call, and of the gateway.\<close>

lemma fleet_job_effect:
  fixes w :: "('f, 's \<times> ('r, 'h, 'l, 'm) gateway_world) fleet"
  assumes "redis_store c view up" and "up (fl_redis w)" and "json_ok (JObj params)" and "json_ok (JFloat now)"
    and "req = \<lparr>rq_method = meth, rq_params = Some params, rq_id = JStr jid\<rparr>"
    and "\<forall>gw r gw'. agents_dispatch g req gw = (Inr r, gw') \<longrightarrow> json_ok (gateway_json r)"
    and "submit_job c (beside x) limit w jid now meth params = (answer, w0)"
    and "process_job c (beside x) (fleet_dispatch g) w0 i jid = (r, w')"
  shows "\<exists>status. get_job c w' jid = Inr status
      \<and> (case job_outcome (fst (agents_dispatch g req (snd (fl_stream w)))) of
           Inr (Some v) \<Rightarrow> js_status status = JStr ''done'' \<and> js_result status = Some v
         | Inl t \<Rightarrow> js_status status = JStr ''failed'' \<and> js_error status = Some (JStr t)
         | Inr None \<Rightarrow> False)
      \<and> snd (fl_stream w') = snd (agents_dispatch g req (snd (fl_stream w)))"
proof -
  let ?run = "AList.update ''status'' (JStr ''running'') (new_job jid meth params now limit)"
  have run: "execute_job (fleet_dispatch g) ?run v = (job_outcome (fst (agents_dispatch g req (snd (fl_stream v)))),
     v\<lparr>fl_stream := (fst (fl_stream v), snd (agents_dispatch g req (snd (fl_stream v))))\<rparr>)" for v
    using execute_fleet_job [OF running_job_request] assms(5) by simp
  have ok: "outcome_ok (fst (execute_job (fleet_dispatch g) ?run v))" for v
  proof (cases "fst (agents_dispatch g req (snd (fl_stream v)))")
    case (Inr resp)
    then have "json_ok (gateway_json resp)" using assms(6) by (metis prod.collapse)
    then show ?thesis unfolding run Inr
      by (auto simp: job_outcome_def outcome_ok_def gateway_json_def split: option.splits if_splits)
  qed (simp add: run job_outcome_def outcome_ok_def)
  have up: "up (fl_redis v) \<Longrightarrow> up (fl_redis (snd (execute_job (fleet_dispatch g) ?run v)))" for v by (simp add: run)
  have life0: "\<exists>w1 outcome w2 status. map_of (obj_items (the (loads (the (view (fl_redis w1) (job_key jid)))))) ''status'' = Some (JStr ''running'')
      \<and> execute_job (fleet_dispatch g) ?run w1 = (outcome, w2) \<and> fl_stream w1 = fl_stream w0
      \<and> get_job c w' jid = Inr status \<and> snd (fw_ack (beside x) (fl_stream w2) i) = fl_stream w'
      \<and> (case outcome of
             Inr (Some v) \<Rightarrow> js_status status = JStr ''done'' \<and> js_result status = Some v
           | Inr None \<Rightarrow> js_status status = JStr ''failed''
               \<and> js_error status = Some (JStr (''Job timed out after '' @ show_int limit @ '' seconds''))
           | Inl exc \<Rightarrow> js_status status = JStr ''failed'' \<and> js_error status = Some (JStr exc))"
    by (rule conjunct2, rule job_life [OF assms(1-4) up ok assms(7,8)], assumption)
  obtain w1 outcome w2 status where life: "execute_job (fleet_dispatch g) ?run (w1 :: ('f, 's \<times> ('r, 'h, 'l, 'm) gateway_world) fleet) = (outcome, w2)" "fl_stream w1 = fl_stream w0"
      "get_job c w' jid = Inr status" "snd (fw_ack (beside x) (fl_stream w2) i) = fl_stream w'"
      "case outcome of
             Inr (Some v) \<Rightarrow> js_status status = JStr ''done'' \<and> js_result status = Some v
           | Inr None \<Rightarrow> js_status status = JStr ''failed''
               \<and> js_error status = Some (JStr (''Job timed out after '' @ show_int limit @ '' seconds''))
           | Inl exc \<Rightarrow> js_status status = JStr ''failed'' \<and> js_error status = Some (JStr exc)"
    using life0 by blast
  have gw: "snd (fl_stream w1) = snd (fl_stream w)" using life(2) submit_leaves_gateway [OF assms(7)] by simp
  have out: "outcome = job_outcome (fst (agents_dispatch g req (snd (fl_stream w))))"
    and w2: "snd (fl_stream w2) = snd (agents_dispatch g req (snd (fl_stream w)))"
    using life(1) run [of w1] gw by auto
  have "snd (fl_stream w') = snd (agents_dispatch g req (snd (fl_stream w)))"
    using life(4) w2 ack_leaves_gateway by metis
  moreover have "outcome \<noteq> Inr None" by (auto simp: out job_outcome_def split: sum.splits option.splits)
  with life(5) have "case outcome of
           Inr (Some v) \<Rightarrow> js_status status = JStr ''done'' \<and> js_result status = Some v
         | Inl t \<Rightarrow> js_status status = JStr ''failed'' \<and> js_error status = Some (JStr t)
         | Inr None \<Rightarrow> False"
    by (cases outcome) (simp_all split: option.splits)
  ultimately show ?thesis
    using life(3) unfolding out by blast
qed



end
