(* ===== verification/Gateway_Http.thy ===== *)
theory Gateway_Http
  imports Gateway Deployment
begin

section \<open>The HTTP surface of the gateway (gateway/app.py with messaging/)\<close>

text \<open>
  All routes of the gateway except those of the fleet, as one machine: its state is the gateway's world
  with the open event streams. Every call names the header it carries where the route looks at one;
  the routes of the bus, \<open>POST /sampling\<close>, the discovery document and the health check look at none.
  The answer of the sampling route is that of the client the gateway is started with, which repeats
  the prompt and calls its model \<open>stub\<close>.
\<close>

subsection \<open>Routes\<close>

record ('r, 'h, 'l, 'm) app =
  ap_world :: "('r, 'h, 'l, 'm) gateway_world"
  ap_streams :: "(bool \<times> sse_stream) list"

datatype http_call =
    CallMcp "string option" mcp_request
  | OpenSession "string option" string string
  | PostSession "string option" string mcp_request
  | ReadSession nat
  | LeaveSession string
  | StreamMcp "string option" string nat
  | CallSampling string
  | OpenEvents bool string
  | NextEvent nat
  | LeaveEvents nat
  | PublishEvent publish_body
  | GetDiscovery
  | GetHealth

datatype http_answer = Response http_result | Stream nat | Sent "(string \<times> string) option" | Closed_Stream

definition sampling_endpoint ::
  "('r, 'h, 'l, 'm) gateway \<Rightarrow> string \<Rightarrow> ('r, 'h, 'l, 'm) gateway_world \<Rightarrow> http_result \<times> ('r, 'h, 'l, 'm) gateway_world" where
  "sampling_endpoint g prompt w =
     (case sampling_handle (ga_models g) (JStr prompt) w of
        (Inl e, w') \<Rightarrow> (HServerError (error_of e), w')
      | (Inr t, w') \<Rightarrow> (HBody (JObj [(''prompt'', JStr prompt), (''completion'', JStr t), (''model'', JStr ''stub'')]), w'))"

text \<open>\<open>GET /sse/v1/events\<close> (the flag is true) and \<open>GET /sse/legacy/events\<close>.\<close>

definition open_events :: "bool \<Rightarrow> string \<Rightarrow> ('r, 'h, 'l, 'm) app \<Rightarrow> http_answer \<times> ('r, 'h, 'l, 'm) app" where
  "open_events v1 topic s =
     (case sse_open (gw_bus (ap_world s)) topic of
        (st, b) \<Rightarrow> (Stream (length (ap_streams s)),
                    \<lparr>ap_world = (ap_world s)\<lparr>gw_bus := b\<rparr>, ap_streams = ap_streams s @ [(v1, st)]\<rparr>))"

definition next_event :: "nat \<Rightarrow> ('r, 'h, 'l, 'm) app \<Rightarrow> http_answer \<times> ('r, 'h, 'l, 'm) app" where
  "next_event k s =
     (if length (ap_streams s) \<le> k then (Sent None, s)
      else case ap_streams s ! k of (v1, st) \<Rightarrow>
        (case (if v1 then sse_v1_next else sse_next) (gw_bus (ap_world s)) st of
           (ev, st', b) \<Rightarrow> (Sent ev, \<lparr>ap_world = (ap_world s)\<lparr>gw_bus := b\<rparr>, ap_streams = (ap_streams s)[k := (v1, st')]\<rparr>)))"

definition leave_events :: "nat \<Rightarrow> ('r, 'h, 'l, 'm) app \<Rightarrow> http_answer \<times> ('r, 'h, 'l, 'm) app" where
  "leave_events k s =
     (if length (ap_streams s) \<le> k then (Closed_Stream, s)
      else case ap_streams s ! k of (v1, st) \<Rightarrow>
        (case sse_close (gw_bus (ap_world s)) st of
           (st', b) \<Rightarrow> (Closed_Stream, \<lparr>ap_world = (ap_world s)\<lparr>gw_bus := b\<rparr>, ap_streams = (ap_streams s)[k := (v1, st')]\<rparr>)))"

definition publish_event ::
  "('r, 'h, 'l, 'm) gateway \<Rightarrow> publish_body \<Rightarrow> ('r, 'h, 'l, 'm) gateway_world \<Rightarrow> http_result \<times> ('r, 'h, 'l, 'm) gateway_world" where
  "publish_event g body w =
     (case publish_message (gw_bus w) body (ga_fresh g (gw_clock w)) (ga_stamp g (gw_clock w)) of
        (v, b) \<Rightarrow> (HBody v, w\<lparr>gw_bus := b, gw_clock := gw_clock w + 1\<rparr>))"

text \<open>A route that only reads and writes the gateway's world.\<close>

definition on_world ::
  "(('r, 'h, 'l, 'm) gateway_world \<Rightarrow> http_result \<times> ('r, 'h, 'l, 'm) gateway_world) \<Rightarrow> ('r, 'h, 'l, 'm) app
     \<Rightarrow> http_answer \<times> ('r, 'h, 'l, 'm) app" where
  "on_world f s = (case f (ap_world s) of (r, w) \<Rightarrow> (Response r, s\<lparr>ap_world := w\<rparr>))"

fun http_step ::
  "('r, 'h, 'l, 'm) gateway \<Rightarrow> nat \<Rightarrow> (string option \<Rightarrow> (auth_error, claims) result)
     \<Rightarrow> (string \<Rightarrow> (string, nat \<times> string) result) \<Rightarrow> http_call \<Rightarrow> ('r, 'h, 'l, 'm) app \<Rightarrow> http_answer \<times> ('r, 'h, 'l, 'm) app" where
  "http_step g depth check fetch (CallMcp hdr req) s = on_world (gateway_post g depth check hdr req) s"
| "http_step g depth check fetch (OpenSession hdr base sid) s =
     (case session_open check hdr sid (ap_world s) of
        (Inl e, w) \<Rightarrow> (Response (HRefused e), s\<lparr>ap_world := w\<rparr>)
      | (Inr _, w) \<Rightarrow> (Sent (Some (''endpoint'', rstrip_slash base @ ''/sse/messages?sessionId='' @ sid)), s\<lparr>ap_world := w\<rparr>))"
| "http_step g depth check fetch (PostSession hdr sid req) s = on_world (session_post g depth check hdr sid req) s"
| "http_step g depth check fetch (ReadSession q) s =
     (case session_next q (ap_world s) of (ev, w) \<Rightarrow> (Sent (Some ev), s\<lparr>ap_world := w\<rparr>))"
| "http_step g depth check fetch (LeaveSession sid) s = (Closed_Stream, s\<lparr>ap_world := session_close sid (ap_world s)\<rparr>)"
| "http_step g depth check fetch (StreamMcp hdr base n) s =
     (case check hdr of Inl e \<Rightarrow> (Response (HRefused e), s) | Inr _ \<Rightarrow> (Sent (Some (mcp_stream_event base n)), s))"
| "http_step g depth check fetch (CallSampling prompt) s = on_world (sampling_endpoint g prompt) s"
| "http_step g depth check fetch (OpenEvents v1 topic) s = open_events v1 topic s"
| "http_step g depth check fetch (NextEvent k) s = next_event k s"
| "http_step g depth check fetch (LeaveEvents k) s = leave_events k s"
| "http_step g depth check fetch (PublishEvent body) s = on_world (publish_event g body) s"
| "http_step g depth check fetch GetDiscovery s = (Response (HBody (discovery_proxy fetch (ga_environ g))), s)"
| "http_step g depth check fetch GetHealth s = (Response (HBody health), s)"

fun http_run ::
  "('r, 'h, 'l, 'm) gateway \<Rightarrow> nat \<Rightarrow> (string option \<Rightarrow> (auth_error, claims) result)
     \<Rightarrow> (string \<Rightarrow> (string, nat \<times> string) result) \<Rightarrow> http_call list \<Rightarrow> ('r, 'h, 'l, 'm) app \<Rightarrow> http_answer list \<times> ('r, 'h, 'l, 'm) app" where
  "http_run g depth check fetch [] s = ([], s)"
| "http_run g depth check fetch (c # cs) s =
     (case http_step g depth check fetch c s of
        (a, s1) \<Rightarrow> (case http_run g depth check fetch cs s1 of (as, s2) \<Rightarrow> (a # as, s2)))"

lemma http_run_append:
  "http_run g depth check fetch (cs @ ds) s =
     (case http_run g depth check fetch cs s of (as, s1) \<Rightarrow> (case http_run g depth check fetch ds s1 of (bs, s2) \<Rightarrow> (as @ bs, s2)))"
  by (induction cs arbitrary: s) (auto split: prod.splits)

subsection \<open>Calls without a token\<close>

definition bears :: "(string option \<Rightarrow> bool) \<Rightarrow> http_call \<Rightarrow> bool" where
  "bears valid_header c =
     (case c of CallMcp hdr _ \<Rightarrow> valid_header hdr | OpenSession hdr _ _ \<Rightarrow> valid_header hdr | PostSession hdr _ _ \<Rightarrow> valid_header hdr
      | StreamMcp hdr _ _ \<Rightarrow> valid_header hdr      | _ \<Rightarrow> False)"

text \<open>What the gateway keeps for its users: everything but the bus, the sessions, the clock and the model of the sampling client.\<close>

definition same_assets :: "('r, 'h, 'l, 'm) gateway_world \<Rightarrow> ('r, 'h, 'l, 'm) gateway_world \<Rightarrow> bool" where
  "same_assets w w' \<longleftrightarrow> gw_redis w' = gw_redis w \<and> gw_router w' = gw_router w"

definition samples :: "http_call \<Rightarrow> bool" where
  "samples c = (case c of CallSampling _ \<Rightarrow> True | _ \<Rightarrow> False)"

lemma anonymous_dispatch:
  assumes "\<not> ga_dev_mode g" and "\<And>claims. check hdr \<noteq> Inr (Some claims)"
  shows "snd (gateway_post g depth check hdr req w) = w" and "\<exists>qs. snd (session_post g depth check hdr sid req w) = w\<lparr>gw_queues := qs\<rparr>"
proof -
  have idle: "\<exists>a. gateway_dispatch g depth req None w = (a, w)"
    using dispatch_unauthenticated(1) [OF assms(1), of depth req w] by (metis prod.collapse)
  have same: "\<exists>qs. w = w\<lparr>gw_queues := qs\<rparr>" by (intro exI [of _ "gw_queues w"]) simp
  have who: "(\<exists>e. check hdr = Inl e) \<or> check hdr = Inr None" using assms(2) by (cases "check hdr") auto
  from who idle show "snd (gateway_post g depth check hdr req w) = w" by (auto simp: gateway_post_def split: sum.split)
  obtain a where a: "gateway_dispatch g depth req None w = (a, w)" using idle by blast
  from who show "\<exists>qs. snd (session_post g depth check hdr sid req w) = w\<lparr>gw_queues := qs\<rparr>"
  proof
    assume "\<exists>e. check hdr = Inl e"
    then have "snd (session_post g depth check hdr sid req w) = w" by (auto simp: session_post_def)
    then show ?thesis using same by metis
  next
    assume none: "check hdr = Inr None"
    show ?thesis
    proof (cases "map_of (gw_sessions w) sid")
      case None
      with none have "snd (session_post g depth check hdr sid req w) = w" by (simp add: session_post_def)
      then show ?thesis using same by metis
    next
      case (Some q)
      show ?thesis
      proof (cases a)
        case (Inl e)
        with none a Some have "snd (session_post g depth check hdr sid req w) = w" by (simp add: session_post_def)
        then show ?thesis using same by metis
      next
        case (Inr r)
        with none a Some show ?thesis by (simp add: session_post_def) blast
      qed
    qed
  qed
qed

lemma anonymous_step:
  assumes "\<not> ga_dev_mode g" and "\<not> bears (\<lambda>hdr. \<exists>claims. check hdr = Inr (Some claims)) c"
  shows "same_assets (ap_world s) (ap_world (snd (http_step g depth check fetch c s)))
    \<and> (\<not> samples c \<longrightarrow> gw_models (ap_world (snd (http_step g depth check fetch c s))) = gw_models (ap_world s))"
proof (cases c)
  case (CallMcp hdr req)
  with assms(2) have "snd (gateway_post g depth check hdr req (ap_world s)) = ap_world s"
    by (intro anonymous_dispatch(1) [OF assms(1)]) (auto simp: bears_def)
  then show ?thesis by (simp add: CallMcp on_world_def same_assets_def case_prod_unfold)
next
  case (PostSession hdr sid req)
  with assms(2) obtain qs where "snd (session_post g depth check hdr sid req (ap_world s)) = ap_world s\<lparr>gw_queues := qs\<rparr>"
    using anonymous_dispatch(2) [OF assms(1), of check hdr depth sid req "ap_world s"] by (auto simp: bears_def)
  then show ?thesis by (simp add: PostSession on_world_def same_assets_def case_prod_unfold)
qed (auto simp: on_world_def same_assets_def session_open_def session_next_def session_close_def sampling_endpoint_def sampling_handle_def
    open_events_def next_event_def leave_events_def publish_event_def samples_def split: sum.splits prod.splits list.splits)

lemma anonymous_run:
  assumes "\<not> ga_dev_mode g" and "\<forall>c \<in> set calls. \<not> bears (\<lambda>hdr. \<exists>claims. check hdr = Inr (Some claims)) c"
  shows "same_assets (ap_world s) (ap_world (snd (http_run g depth check fetch calls s)))
    \<and> ((\<forall>c \<in> set calls. \<not> samples c) \<longrightarrow> gw_models (ap_world (snd (http_run g depth check fetch calls s))) = gw_models (ap_world s))"
  using assms(2)
proof (induction calls arbitrary: s)
  case (Cons c cs)
  obtain a s1 where one: "http_step g depth check fetch c s = (a, s1)" by (metis prod.exhaust)
  obtain as s2 where rest: "http_run g depth check fetch cs s1 = (as, s2)" by (metis prod.exhaust)
  have "\<not> bears (\<lambda>hdr. \<exists>claims. check hdr = Inr (Some claims)) c" using Cons.prems by simp
  from anonymous_step [where fetch = fetch and s = s and depth = depth, OF assms(1) this] one
  have "same_assets (ap_world s) (ap_world s1)" "\<not> samples c \<Longrightarrow> gw_models (ap_world s1) = gw_models (ap_world s)" by simp_all
  moreover have "same_assets (ap_world s1) (ap_world s2)"
    "(\<forall>c \<in> set cs. \<not> samples c) \<Longrightarrow> gw_models (ap_world s2) = gw_models (ap_world s1)"
    using Cons.IH [of s1] Cons.prems rest by simp_all
  ultimately show ?case using one rest by (simp add: same_assets_def)
qed (simp add: same_assets_def)

subsection \<open>Event streams\<close>

text \<open>The open streams have queues of their own, and those that are not closed are subscribed.\<close>

definition app_inv :: "('r, 'h, 'l, 'm) app \<Rightarrow> bool" where
  "app_inv s \<longleftrightarrow>
     (let b = gw_bus (ap_world s); sts = map snd (ap_streams s)
      in bus_inv b \<and> distinct (map sse_queue sts)
         \<and> (\<forall>st \<in> set sts. sse_queue st < bus_next b
              \<and> (sse_phase st \<noteq> SseClosed \<longrightarrow> sse_queue st \<in> set (bus_subs b (sse_topic st)))))"

lemma app_invD:
  assumes "app_inv s" and "k < length (ap_streams s)" and "ap_streams s ! k = (v1, st)"
  shows "bus_inv (gw_bus (ap_world s))" and "sse_queue st < bus_next (gw_bus (ap_world s))"
    and "sse_phase st \<noteq> SseClosed \<Longrightarrow> sse_queue st \<in> set (bus_subs (gw_bus (ap_world s)) (sse_topic st))"
    and "j < length (ap_streams s) \<Longrightarrow> j \<noteq> k \<Longrightarrow> sse_queue (snd (ap_streams s ! j)) \<noteq> sse_queue st"
proof -
  have "st \<in> set (map snd (ap_streams s))" using assms(2,3) by (metis image_eqI nth_mem set_map snd_conv)
  with assms(1) show "bus_inv (gw_bus (ap_world s))" "sse_queue st < bus_next (gw_bus (ap_world s))"
    "sse_phase st \<noteq> SseClosed \<Longrightarrow> sse_queue st \<in> set (bus_subs (gw_bus (ap_world s)) (sse_topic st))"
    by (auto simp: app_inv_def Let_def)
  assume j: "j < length (ap_streams s)" "j \<noteq> k"
  have "distinct (map (sse_queue \<circ> snd) (ap_streams s))" using assms(1) by (simp add: app_inv_def Let_def)
  from distinct_conv_nth [THEN iffD1, OF this, rule_format, of j k] j assms(2,3)
  show "sse_queue (snd (ap_streams s ! j)) \<noteq> sse_queue st" by simp
qed

text \<open>A step that leaves the streams alone and only adds messages keeps the invariant.\<close>

lemma app_inv_grown:
  "app_inv s \<Longrightarrow> ap_streams s' = ap_streams s \<Longrightarrow> bus_grown (gw_bus (ap_world s)) (gw_bus (ap_world s')) \<Longrightarrow> app_inv s'"
  by (simp add: app_inv_def Let_def bus_grown_subs bus_grown_next bus_grown_inv del: map_map)

lemma post_grows:
  "bus_grown (gw_bus w) (gw_bus (snd (gateway_post g depth check hdr req w)))"
  "bus_grown (gw_bus w) (gw_bus (snd (session_post g depth check hdr sid req w)))"
proof -
  have "bus_grown (gw_bus w) (gw_bus (snd (gateway_dispatch g depth req claims w)))" for claims
    by (rule heard.dispatch_keeps) simp
  then have d: "gateway_dispatch g depth req claims w = (a, w1) \<Longrightarrow> bus_grown (gw_bus w) (gw_bus w1)" for claims a w1
    by (metis snd_conv)
  show "bus_grown (gw_bus w) (gw_bus (snd (gateway_post g depth check hdr req w)))"
    using d by (auto simp: gateway_post_def split: sum.split prod.split)
  show "bus_grown (gw_bus w) (gw_bus (snd (session_post g depth check hdr sid req w)))"
    using d by (auto simp: session_post_def split: sum.split prod.split option.split)
qed

text \<open>Everything but opening, reading and leaving a stream is such a step.\<close>

lemma other_calls_grow:
  assumes "\<And>v t. c \<noteq> OpenEvents v t" and "\<And>k. c \<noteq> NextEvent k" and "\<And>k. c \<noteq> LeaveEvents k"
  shows "ap_streams (snd (http_step g depth check fetch c s)) = ap_streams s
    \<and> bus_grown (gw_bus (ap_world s)) (gw_bus (ap_world (snd (http_step g depth check fetch c s))))"
proof (cases c)
  case (CallMcp hdr req)
  then show ?thesis using post_grows(1) by (simp add: on_world_def case_prod_unfold)
next
  case (PostSession hdr sid req)
  then show ?thesis using post_grows(2) by (simp add: on_world_def case_prod_unfold)
next
  case (PublishEvent body)
  then show ?thesis by (simp add: on_world_def publish_event_def publish_message_def Let_def bus_grown_publish)
next
  case (OpenEvents v t)
  then show ?thesis using assms(1) by blast
next
  case (NextEvent k)
  then show ?thesis using assms(2) by blast
next
  case (LeaveEvents k)
  then show ?thesis using assms(3) by blast
next
  case (CallSampling prompt)
  then show ?thesis by (simp add: on_world_def sampling_endpoint_def sampling_handle_def case_prod_unfold split: sum.split)
next
  case (OpenSession hdr base sid)
  then show ?thesis by (simp add: session_open_def split: sum.split)
next
  case (ReadSession q)
  then show ?thesis by (simp add: session_next_def split: list.split)
next
  case (StreamMcp hdr base n)
  then show ?thesis by (simp split: sum.split)
qed (simp_all add: session_close_def)

lemma open_events_inv:
  assumes "app_inv s" shows "app_inv (snd (open_events v topic s))"
proof -
  let ?b = "gw_bus (ap_world s)"
  obtain b where b: "bus_subscribe ?b topic = (bus_next ?b, b)" by (simp add: bus_subscribe_def Let_def)
  have nxt: "bus_next b = bus_next ?b + 1" using b by (auto simp: bus_subscribe_def Let_def)
  have subs: "bus_subs b t = (if t = topic then bus_subs ?b topic @ [bus_next ?b] else bus_subs ?b t)" for t
    using bus_subs_subscribe [of ?b topic t] b by simp
  have "bus_inv b" using bus_subscribe_inv [of ?b topic] assms b by (simp add: app_inv_def Let_def)
  with assms b nxt subs show ?thesis
    by (auto simp: open_events_def sse_open_def app_inv_def Let_def)
qed

lemma stream_update_inv:
  assumes "app_inv s" and k: "k < length (ap_streams s)" "ap_streams s ! k = (v1, st)"
    and "bus_inv b" and "bus_next b = bus_next (gw_bus (ap_world s))"
    and others: "\<And>t q. q \<in> set (bus_subs (gw_bus (ap_world s)) t) \<Longrightarrow> q \<noteq> sse_queue st \<Longrightarrow> q \<in> set (bus_subs b t)"
    and "sse_queue st' = sse_queue st" and "sse_phase st' \<noteq> SseClosed \<Longrightarrow> sse_queue st \<in> set (bus_subs b (sse_topic st'))"
  shows "app_inv \<lparr>ap_world = (ap_world s)\<lparr>gw_bus := b\<rparr>, ap_streams = (ap_streams s)[k := (v1, st')]\<rparr>"
proof -
  have qs: "map sse_queue (map snd ((ap_streams s)[k := (v1, st')])) = map sse_queue (map snd (ap_streams s))"
    using k assms(7) by (simp add: map_update list_update_same_conv)
  have each: "sse_queue u < bus_next b \<and> (sse_phase u \<noteq> SseClosed \<longrightarrow> sse_queue u \<in> set (bus_subs b (sse_topic u)))"
    if at: "j < length (ap_streams s)" "(ap_streams s)[k := (v1, st')] ! j = (v, u)" for j v u
  proof (cases "j = k")
    case True
    then have "u = st'" using at k(1) by simp
    with assms(5,7,8) app_invD(2) [OF assms(1) k] show ?thesis by simp
  next
    case False
    then have u: "ap_streams s ! j = (v, u)" using at by simp
    then show ?thesis
      using others [of "sse_queue u" "sse_topic u"] app_invD(2,3) [OF assms(1) at(1) u] app_invD(4) [OF assms(1) k at(1) False] assms(5)
      by simp
  qed
  have "sse_queue u < bus_next b \<and> (sse_phase u \<noteq> SseClosed \<longrightarrow> sse_queue u \<in> set (bus_subs b (sse_topic u)))"
    if u: "u \<in> snd ` set ((ap_streams s)[k := (v1, st')])" for u
  proof -
    obtain v where "(v, u) \<in> set ((ap_streams s)[k := (v1, st')])" using u by auto
    then obtain j where "j < length (ap_streams s)" "(ap_streams s)[k := (v1, st')] ! j = (v, u)"
      unfolding in_set_conv_nth by auto
    then show ?thesis by (rule each)
  qed
  with assms(1,4) qs show ?thesis by (simp add: app_inv_def Let_def)
qed

text \<open>What reading a stream does to it and to the bus.\<close>

lemma stream_next:
  assumes "(if v1 then sse_v1_next else sse_next) b st = (ev, st', b')" and "bus_inv b"
  shows "sse_queue st' = sse_queue st \<and> sse_topic st' = sse_topic st \<and> (sse_phase st' = SseClosed \<longleftrightarrow> sse_phase st = SseClosed)
    \<and> bus_inv b' \<and> bus_next b' = bus_next b \<and> (\<forall>t. bus_subs b' t = bus_subs b t)
    \<and> (\<forall>q. q \<noteq> sse_queue st \<longrightarrow> bus_queues b' q = bus_queues b q)"
proof -
  have wait: "bus_inv c \<and> bus_next c = bus_next b \<and> (\<forall>t. bus_subs c t = bus_subs b t) \<and> (\<forall>q. q \<noteq> sse_queue st \<longrightarrow> bus_queues c q = bus_queues b q)"
    if "sse_wait b (sse_queue st) = (e, c)" for e c
  proof -
    have c: "c = snd (bus_get b (sse_queue st))" using that by (auto simp: sse_wait_def split: prod.splits option.splits)
    show ?thesis unfolding c using bus_get_inv [OF assms(2)] by (auto simp: bus_get_def bus_subs_def split: list.split)
  qed
  show ?thesis
    using assms wait by (cases v1) (auto simp: sse_v1_next_def sse_next_def split: if_splits prod.splits)
qed

lemma next_event_inv:
  assumes "app_inv s" shows "app_inv (snd (next_event k s))"
proof (cases "k < length (ap_streams s)")
  case k: True
  obtain v1 st where st: "ap_streams s ! k = (v1, st)" by (metis prod.exhaust)
  obtain ev st' b where n: "(if v1 then sse_v1_next else sse_next) (gw_bus (ap_world s)) st = (ev, st', b)" by (metis prod_cases3)
  note eff = stream_next [OF n app_invD(1) [OF assms k st]]
  have "app_inv \<lparr>ap_world = (ap_world s)\<lparr>gw_bus := b\<rparr>, ap_streams = (ap_streams s)[k := (v1, st')]\<rparr>"
    using eff app_invD(3) [OF assms k st] by (intro stream_update_inv [OF assms k st]) auto
  then show ?thesis using k st n by (simp add: next_event_def)
qed (simp add: next_event_def assms)

lemma leave_events_inv:
  assumes "app_inv s" shows "app_inv (snd (leave_events k s))"
proof (cases "k < length (ap_streams s)")
  case k: True
  let ?b = "gw_bus (ap_world s)"
  obtain v1 st where st: "ap_streams s ! k = (v1, st)" by (metis prod.exhaust)
  have "app_inv \<lparr>ap_world = (ap_world s)\<lparr>gw_bus := snd (sse_close ?b st)\<rparr>, ap_streams = (ap_streams s)[k := (v1, fst (sse_close ?b st))]\<rparr>"
  proof (rule stream_update_inv [OF assms k st])
    show "bus_inv (snd (sse_close ?b st))" using app_invD(1) [OF assms k st] by (simp add: sse_close_def bus_unsubscribe_inv)
    show "bus_next (snd (sse_close ?b st)) = bus_next ?b" by (simp add: sse_close_def bus_unsubscribe_def split: option.split)
  qed (auto simp: sse_close_def bus_subs_unsubscribe)
  then show ?thesis using k st by (simp add: leave_events_def case_prod_unfold)
qed (simp add: leave_events_def assms)

lemma call_cases:
  obtains (opens) v t where "c = OpenEvents v t" | (reads) j where "c = NextEvent j" | (leaves) j where "c = LeaveEvents j"
  | (other) "\<And>v t. c \<noteq> OpenEvents v t" "\<And>j. c \<noteq> NextEvent j" "\<And>j. c \<noteq> LeaveEvents j"
  by blast

lemma app_inv_step:
  assumes "app_inv s" shows "app_inv (snd (http_step g depth check fetch c s))"
proof (cases c rule: call_cases)
  case other
  from other_calls_grow [OF other, of g depth check fetch s] show ?thesis by (blast intro: app_inv_grown [OF assms])
qed (simp_all add: open_events_inv next_event_inv leave_events_inv assms)

text \<open>While no one reads or leaves stream \<open>k\<close>, its queue only grows at its end.\<close>

lemma stream_waits_step:
  assumes "app_inv s" and k: "k < length (ap_streams s)" "ap_streams s ! k = (v1, st)" and "c \<noteq> NextEvent k" and "c \<noteq> LeaveEvents k"
    and "http_step g depth check fetch c s = (a, s')"
  shows "k < length (ap_streams s') \<and> ap_streams s' ! k = (v1, st)
    \<and> (\<exists>ms. bus_queues (gw_bus (ap_world s')) (sse_queue st) = bus_queues (gw_bus (ap_world s)) (sse_queue st) @ ms)"
proof -
  show ?thesis
  proof (cases c rule: call_cases)
    case opens
    have "sse_queue st \<noteq> bus_next (gw_bus (ap_world s))" using app_invD(2) [OF assms(1) k] by simp
    then show ?thesis using assms(6) opens k
      by (auto simp: open_events_def sse_open_def bus_subscribe_def Let_def nth_append)
  next
    case (reads j)
    show ?thesis
    proof (cases "j < length (ap_streams s)")
      case True
      obtain v2 u where u: "ap_streams s ! j = (v2, u)" by (metis prod.exhaust)
      obtain ev u' b where n: "(if v2 then sse_v1_next else sse_next) (gw_bus (ap_world s)) u = (ev, u', b)" by (metis prod_cases3)
      have j: "j \<noteq> k" using assms(4) reads by simp
      have "sse_queue st \<noteq> sse_queue u" using app_invD(4) [OF assms(1) True u k(1)] j k(2) by auto
      then have "bus_queues b (sse_queue st) = bus_queues (gw_bus (ap_world s)) (sse_queue st)"
        using stream_next [OF n app_invD(1) [OF assms(1) True u]] by blast
      then show ?thesis using assms(6) reads True u n k j by (auto simp: next_event_def)
    qed (use assms(6) reads k in \<open>auto simp: next_event_def\<close>)
  next
    case (leaves j)
    have "bus_queues (snd (sse_close b u)) = bus_queues b" for b u by (simp add: sse_close_def bus_unsubscribe_def split: option.split)
    then show ?thesis using assms(5,6) leaves k
      by (cases "j < length (ap_streams s)") (auto simp: leave_events_def case_prod_unfold)
  next
    case other
    from other_calls_grow [OF other, of g depth check fetch s] assms(6) k show ?thesis by (auto simp: bus_grown_def)
  qed
qed

lemma stream_waits:
  assumes "app_inv s" and "k < length (ap_streams s)" "ap_streams s ! k = (v1, st)"
    and "NextEvent k \<notin> set calls" and "LeaveEvents k \<notin> set calls" and "http_run g depth check fetch calls s = (as, s')"
  shows "app_inv s' \<and> k < length (ap_streams s') \<and> ap_streams s' ! k = (v1, st)
    \<and> (\<exists>ms. bus_queues (gw_bus (ap_world s')) (sse_queue st) = bus_queues (gw_bus (ap_world s)) (sse_queue st) @ ms)"
  using assms
proof (induction calls arbitrary: s as)
  case (Cons c cs)
  obtain a s1 bs where run: "http_step g depth check fetch c s = (a, s1)" "http_run g depth check fetch cs s1 = (bs, s')"
    using Cons.prems(6) by (auto split: prod.splits)
  have step: "k < length (ap_streams s1)" "ap_streams s1 ! k = (v1, st)"
    "\<exists>ms. bus_queues (gw_bus (ap_world s1)) (sse_queue st) = bus_queues (gw_bus (ap_world s)) (sse_queue st) @ ms"
    using stream_waits_step [OF Cons.prems(1-3) _ _ run(1)] Cons.prems(4,5) by auto
  have "app_inv s1" using app_inv_step [OF Cons.prems(1), of g depth check fetch c] run(1) by simp
  from Cons.IH [OF this step(1,2) _ _ run(2)] Cons.prems(4,5) step(3) show ?case by auto
qed simp

lemma app_inv_run:
  "app_inv s \<Longrightarrow> app_inv (snd (http_run g depth check fetch calls s))"
proof (induction calls arbitrary: s)
  case (Cons c cs)
  from Cons.IH [OF app_inv_step [OF Cons.prems, of g depth check fetch c]] show ?case
    by (auto split: prod.splits)
qed simp

lemma app_inv_start: "gw_bus (ap_world s) = bus_init \<Longrightarrow> ap_streams s = [] \<Longrightarrow> app_inv s"
  by (simp add: app_inv_def Let_def bus_inv_init)

text \<open>A tool call puts its arguments at the end of every queue of the topic before it does anything else.\<close>

definition call_content :: "mcp_request \<Rightarrow> (string \<times> json) list" where
  "call_content req =
     (let params = (case rq_params req of Some p \<Rightarrow> p | None \<Rightarrow> [])
      in [(''tool'', obj_default params ''name'' (JStr [])), (''args'', obj_default params ''arguments'' (JObj []))])"

lemma tool_call_published:
  assumes "check hdr = Inr (Some claims)" and "rq_method req = ''tools/call''"
    and "bus_inv (gw_bus w)" and "q \<in> set (bus_subs (gw_bus w) ''gateway.tool_calls'')"
  shows "\<exists>m ms. bus_queues (gw_bus (snd (gateway_post g depth check hdr req w))) q = bus_queues (gw_bus w) q @ m # ms
    \<and> am_content m = call_content req"
proof -
  let ?params = "case rq_params req of Some p \<Rightarrow> p | None \<Rightarrow> []"
  let ?w1 = "gw_publish g ''gateway.tool_calls'' (call_content req) w"
  let ?x = "handle_inner g depth (obj_default ?params ''name'' (JStr [])) (obj_default ?params ''arguments'' (JObj [])) (Some claims) ?w1"
  have "gw_bus (snd (gateway_post g depth check hdr req w)) = gw_bus (snd ?x)"
    using assms(1,2) by (simp add: gateway_post_def gateway_dispatch_def call_content_def Let_def split: sum.split prod.split gw_error.split)
  moreover have "bus_grown (gw_bus ?w1) (gw_bus (snd ?x))" by (rule heard.handle_inner_keeps) simp
  then obtain ms where "bus_queues (gw_bus (snd ?x)) q = bus_queues (gw_bus ?w1) q @ ms" by (auto simp: bus_grown_def)
  moreover have "\<exists>m. bus_queues (gw_bus ?w1) q = bus_queues (gw_bus w) q @ [m] \<and> am_content m = call_content req"
    using bus_publish_queue [OF assms(3)] assms(4) by (simp add: gw_publish_def)
  ultimately show ?thesis by fastforce
qed


text \<open>
  \<^bold>\<open>C39.\<close> Tool calls can be overheard. After any traffic, a client that opens the event stream of the
  topic \<open>gateway.tool_calls\<close>, for which no token is asked, and waits for its handshake, gets as its
  next event the name and the arguments of the next tool call of any user, unchanged, whatever the PII
  gate then makes of them and whatever other requests the gateway serves before the client reads on.
\<close>

theorem tool_calls_overheard:
  assumes "gw_bus (ap_world start) = bus_init" and "ap_streams start = []"
    and "http_run g depth check fetch earlier start = (as, s)" and "k = length (ap_streams s)"
    and "check hdr = Inr (Some claims)" and "rq_method req = ''tools/call''"
    and "NextEvent k \<notin> set others" and "LeaveEvents k \<notin> set others"
    and "http_run g depth check fetch (OpenEvents True ''gateway.tool_calls'' # NextEvent k # CallMcp hdr req # others) s = (answers, s')"
  shows "\<exists>m. fst (http_step g depth check fetch (NextEvent k) s') = Sent (Some (''message'', dump_message m))
    \<and> am_content m = call_content req"
proof -
  have inv: "app_inv s" using app_inv_run [OF app_inv_start [OF assms(1,2)], of g depth check fetch earlier] assms(3) by simp
  let ?q = "bus_next (gw_bus (ap_world s))"
  let ?st = "\<lparr>sse_topic = ''gateway.tool_calls'', sse_queue = ?q, sse_phase = SseHandshake\<rparr>"
  obtain a2 s2 where two: "http_run g depth check fetch [OpenEvents True ''gateway.tool_calls'', NextEvent k] s = (a2, s2)" by (metis prod.exhaust)
  obtain a3 s3 where call: "http_step g depth check fetch (CallMcp hdr req) s2 = (a3, s3)" by (metis prod.exhaust)
  obtain a4 where rest: "http_run g depth check fetch others s3 = (a4, s')"
    using assms(9) two call by (auto split: prod.splits)
  have s2: "app_inv s2" "k < length (ap_streams s2)" "ap_streams s2 ! k = (True, ?st)" "bus_queues (gw_bus (ap_world s2)) ?q = []"
    using app_inv_run [OF inv, of g depth check fetch "[OpenEvents True ''gateway.tool_calls'', NextEvent k]"] two assms(4)
    by (auto simp: open_events_def next_event_def sse_open_def sse_v1_next_def bus_subscribe_def Let_def)
  have sub: "?q \<in> set (bus_subs (gw_bus (ap_world s2)) ''gateway.tool_calls'')" and bus: "bus_inv (gw_bus (ap_world s2))"
    using app_invD(1,3) [OF s2(1-3)] by simp_all
  obtain m ms where m: "bus_queues (gw_bus (ap_world s3)) ?q = m # ms" "am_content m = call_content req"
    using tool_call_published [where check = check and hdr = hdr and g = g and depth = depth, OF assms(5) assms(6) bus sub] call s2(4) by (auto simp: on_world_def split: prod.splits)
  have s3: "app_inv s3" "k < length (ap_streams s3)" "ap_streams s3 ! k = (True, ?st)"
    using app_inv_step [OF s2(1), of g depth check fetch "CallMcp hdr req"] stream_waits_step [OF s2(1-3) _ _ call] call by auto
  from stream_waits [OF s3 assms(7,8) rest] m(1)
  obtain ms' where "k < length (ap_streams s')" "ap_streams s' ! k = (True, ?st)" "bus_queues (gw_bus (ap_world s')) ?q = m # ms'"
    by auto
  then have "fst (http_step g depth check fetch (NextEvent k) s') = Sent (Some (''message'', dump_message m))"
    by (simp add: next_event_def sse_v1_next_def sse_wait_def bus_get_def)
  with m(2) show ?thesis by blast
qed

definition demo_app :: "(string \<Rightarrow> string list, unit, unit, unit) app" where
  "demo_app = \<lparr>ap_world = demo_world, ap_streams = []\<rparr>"


lemma tool_calls_overheard_witness:
  "\<exists>m. fst (http_step (demo_gateway False) 2 (\<lambda>_. Inr (Some [])) (\<lambda>_. Inl ''down'') (NextEvent 0)
      (snd (http_run (demo_gateway False) 2 (\<lambda>_. Inr (Some [])) (\<lambda>_. Inl ''down'')
        [OpenEvents True ''gateway.tool_calls'', NextEvent 0, CallMcp None (add_phrase_request ''blue'')] demo_app)))
    = Sent (Some (''message'', dump_message m))
    \<and> am_content m = [(''tool'', JStr ''kv/add_phrase''), (''args'', JObj [(''topic'', JStr ''default''), (''phrase'', JStr ''blue'')])]"
proof -
  let ?calls = "[OpenEvents True ''gateway.tool_calls'', NextEvent 0, CallMcp None (add_phrase_request ''blue'')]"
  obtain as s' where run: "http_run (demo_gateway False) 2 (\<lambda>_. Inr (Some [])) (\<lambda>_. Inl ''down'') ?calls demo_app = (as, s')" by (metis prod.exhaust)
  have start: "gw_bus (ap_world demo_app) = bus_init" "ap_streams demo_app = []" by (simp_all add: demo_app_def demo_world_def)
  have none: "http_run (demo_gateway False) 2 (\<lambda>_. Inr (Some [])) (\<lambda>_. Inl ''down'') [] demo_app = ([], demo_app)" by simp
  have meth: "rq_method (add_phrase_request ''blue'') = ''tools/call''" by (simp add: add_phrase_request_def)
  have "0 = length (ap_streams demo_app)" by (simp add: start)
  from tool_calls_overheard [OF start none this refl meth _ _ run] run
  show ?thesis by (auto simp: call_content_def add_phrase_request_def obj_default_def)
qed

end
