(* ===== verification/Parallel_Graph.thy ===== *)
theory Parallel_Graph
  imports Graph_Orchestrator
begin

section \<open>Parallel batches (graph\_orchestrator.py, PLAN\_PARALLEL\_ENABLED)\<close>

text \<open>
  With \<open>PLAN_PARALLEL_ENABLED=1\<close> the steps of a batch of \<open>TopologicalSorter\<close> run as concurrent tasks
  of one event loop, at most \<open>PLAN_MAX_PARALLEL\<close> of them inside the semaphore. A task is a state
  machine: fresh; waiting for the semaphore, with its references already resolved; calling its tool;
  ended. A step of the loop advances one task and is a partial function of the task's index, so a
  list of indices is an interleaving. Tasks start in the order of the batch and enter the semaphore
  first come first served; calls end in any order. The effect of a call on the world, and the entry
  of its output, happen when it ends.
\<close>

subsection \<open>Tasks\<close>

datatype task = Fresh | Waiting arguments | Calling arguments | Ended step_result

type_synonym 'w batch = "(plan_step \<times> task) list \<times> 'w exec_state"

definition skipped :: "plan_step \<Rightarrow> step_result" where
  "skipped s = \<lparr>sr_tool = ps_tool_name s, sr_step_id = ps_id s, sr_result = Some (JStr ''skipped (already completed)''),
     sr_error = None, sr_success = True\<rparr>"

text \<open>The part of \<open>_run_step\<close> inside the semaphore.\<close>

definition finish_step :: "'w graph_env \<Rightarrow> plan_step \<Rightarrow> arguments \<Rightarrow> 'w exec_state \<Rightarrow> step_result \<times> 'w exec_state" where
  "finish_step env s args x =
     (case ge_call_tool env (ps_tool_name s) args (es_world x) of
        (TOk r, w') \<Rightarrow>
          (\<lparr>sr_tool = ps_tool_name s, sr_step_id = ps_id s, sr_result = Some r, sr_error = None, sr_success = True\<rparr>,
           \<lparr>es_outputs = (es_outputs x)(ps_id s \<mapsto> r), es_completed = es_completed x @ [ps_id s], es_world = w'\<rparr>)
      | (TTimeout, w') \<Rightarrow>
          (\<lparr>sr_tool = ps_tool_name s, sr_step_id = ps_id s, sr_result = None,
            sr_error = Some (''Timed out after '' @ ge_step_timeout env @ ''s''), sr_success = False\<rparr>, x\<lparr>es_world := w'\<rparr>)
      | (TRaise e, w') \<Rightarrow>
          (\<lparr>sr_tool = ps_tool_name s, sr_step_id = ps_id s, sr_result = None, sr_error = Some e, sr_success = False\<rparr>,
           x\<lparr>es_world := w'\<rparr>))"

definition resolved :: "'w graph_env \<Rightarrow> plan_step \<Rightarrow> 'w exec_state \<Rightarrow> arguments" where
  "resolved env s x = resolve_references (ge_str env) (ps_arguments s) (es_outputs x)"

lemma run_step_parts:
  "run_step env s x = (if ps_id s \<in> set (es_completed x) then (skipped s, x) else finish_step env s (resolved env s x) x)"
  by (simp add: run_step_def skipped_def finish_step_def resolved_def)

subsection \<open>Interleavings\<close>

fun calling :: "task \<Rightarrow> bool" where
  "calling (Calling _) = True" | "calling _ = False"

fun queued :: "task \<Rightarrow> bool" where
  "queued (Waiting _) = True" | "queued _ = False"

fun has_ended :: "task \<Rightarrow> bool" where
  "has_ended (Ended _) = True" | "has_ended _ = False"

definition calls :: "(plan_step \<times> task) list \<Rightarrow> nat" where
  "calls ts = length (filter (\<lambda>(s, t). calling t) ts)"

definition batch_next :: "'w graph_env \<Rightarrow> nat \<Rightarrow> nat \<Rightarrow> 'w batch \<Rightarrow> 'w batch option" where
  "batch_next env limit i b =
     (case b of (ts, x) \<Rightarrow>
        if length ts \<le> i then None
        else case ts ! i of (s, t) \<Rightarrow>
          (case t of
             Fresh \<Rightarrow>
               (if list_all (\<lambda>(_, u). u \<noteq> Fresh) (take i ts) then
                  Some (ts[i := (s, if ps_id s \<in> set (es_completed x) then Ended (skipped s) else Waiting (resolved env s x))], x)
                else None)
           | Waiting args \<Rightarrow>
               (if list_all (\<lambda>(_, u). u \<noteq> Fresh \<and> \<not> queued u) (take i ts) \<and> calls ts < limit
                then Some (ts[i := (s, Calling args)], x) else None)
           | Calling args \<Rightarrow> (case finish_step env s args x of (r, x') \<Rightarrow> Some (ts[i := (s, Ended r)], x'))
           | Ended r \<Rightarrow> None))"

fun run_schedule :: "'w graph_env \<Rightarrow> nat \<Rightarrow> nat list \<Rightarrow> 'w batch \<Rightarrow> 'w batch option" where
  "run_schedule env limit [] b = Some b"
| "run_schedule env limit (i # is) b =
     (case batch_next env limit i b of None \<Rightarrow> None | Some b' \<Rightarrow> run_schedule env limit is b')"

definition fresh_tasks :: "plan_step list \<Rightarrow> (plan_step \<times> task) list" where
  "fresh_tasks ss = map (\<lambda>s. (s, Fresh)) ss"

text \<open>\<open>asyncio.gather\<close> returns when every task has ended, with the results in the order of the tasks.\<close>

fun results_of :: "(plan_step \<times> task) list \<Rightarrow> step_result list option" where
  "results_of [] = Some []"
| "results_of ((s, t) # ts) =
     (case t of Ended r \<Rightarrow> map_option ((#) r) (results_of ts) | _ \<Rightarrow> None)"

definition run_batch :: "'w graph_env \<Rightarrow> nat \<Rightarrow> nat list \<Rightarrow> plan_step list \<Rightarrow> 'w exec_state \<Rightarrow> (step_result list \<times> 'w exec_state) option" where
  "run_batch env limit is ss x =
     (case run_schedule env limit is (fresh_tasks ss, x) of
        None \<Rightarrow> None
      | Some (ts, x') \<Rightarrow> map_option (\<lambda>rs. (rs, x')) (results_of ts))"

subsection \<open>Batches of a plan\<close>

text \<open>The sorter's batches; their concatenation is the order of the sequential mode.\<close>

function topo_batches :: "(string, string list) dict \<Rightarrow> string list \<Rightarrow> string list list option" where
  "topo_batches deps ids =
     (if ids = [] then Some []
      else if ready deps ids = [] then None
      else map_option ((#) (ready deps ids)) (topo_batches deps (filter (\<lambda>i. i \<notin> set (ready deps ids)) ids)))"
  by pat_completeness auto
termination by (relation "measure (\<lambda>(deps, ids). length ids)") (auto dest: ready_shrinks)

declare topo_batches.simps [simp del]

definition step_batches :: "plan_step list \<Rightarrow> plan_step list list option" where
  "step_batches steps =
     map_option (map (List.map_filter (step_map steps))) (topo_batches (build_dag steps) (map fst (build_dag steps)))"

fun run_batches ::
  "'w graph_env \<Rightarrow> nat \<Rightarrow> nat list list \<Rightarrow> plan_step list list \<Rightarrow> 'w exec_state \<Rightarrow> (step_result list \<times> 'w exec_state) option" where
  "run_batches env limit iss [] x = Some ([], x)"
| "run_batches env limit [] (b # bs) x = None"
| "run_batches env limit (is # iss) (b # bs) x =
     (case run_batch env limit is b x of
        None \<Rightarrow> None
      | Some (rs, x1) \<Rightarrow> map_option (\<lambda>(rs', x2). (rs @ rs', x2)) (run_batches env limit iss bs x1))"

text \<open>The batches of the machine: those of the sorter, or every step alone.\<close>

definition machine_batches :: "plan_step list \<Rightarrow> plan_step list list" where
  "machine_batches steps = (case step_batches steps of None \<Rightarrow> map (\<lambda>s. [s]) steps | Some bs \<Rightarrow> bs)"

text \<open>
  The execution under the interleavings \<open>iss\<close>, one for each batch. A step that is awaited alone, in a
  batch of one or in a cyclic plan, which is run in its written order, is the machine with one task.
\<close>

definition execute_parallel ::
  "'w graph_env \<Rightarrow> nat \<Rightarrow> nat list list \<Rightarrow> plan_step list \<Rightarrow> 'w exec_state \<Rightarrow> (step_result list \<times> 'w exec_state) option" where
  "execute_parallel env limit iss steps x =
     run_batches env limit iss (machine_batches steps) x"

subsection \<open>One step of a task\<close>

definition pure_tools :: "'w graph_env \<Rightarrow> bool" where
  "pure_tools env \<longleftrightarrow> (\<forall>tool args w w'. fst (ge_call_tool env tool args w) = fst (ge_call_tool env tool args w'))"

definition same_progress :: "'w exec_state \<Rightarrow> 'w exec_state \<Rightarrow> bool" where
  "same_progress x y \<longleftrightarrow> es_outputs x = es_outputs y \<and> set (es_completed x) = set (es_completed y)"

text \<open>What two states know of one identifier.\<close>

definition agree_on :: "string \<Rightarrow> 'w exec_state \<Rightarrow> 'w exec_state \<Rightarrow> bool" where
  "agree_on i x y \<longleftrightarrow> es_outputs x i = es_outputs y i \<and> (i \<in> set (es_completed x) \<longleftrightarrow> i \<in> set (es_completed y))"

lemma agree_refl [simp]: "agree_on i x x"
  by (simp add: agree_on_def)

lemma agree_sym: "agree_on i x y \<Longrightarrow> agree_on i y x"
  by (simp add: agree_on_def)

lemma agree_trans [trans]: "agree_on i x y \<Longrightarrow> agree_on i y z \<Longrightarrow> agree_on i x z"
  by (simp add: agree_on_def)

lemma same_progress_alt: "same_progress x y \<longleftrightarrow> (\<forall>i. agree_on i x y)"
  by (auto simp: same_progress_def agree_on_def)

lemma finish_step_frame: "finish_step env s args x = (r, x') \<Longrightarrow> i \<noteq> ps_id s \<Longrightarrow> agree_on i x' x"
  by (auto simp: finish_step_def agree_on_def split: prod.splits tool_outcome.splits)

lemma run_step_frame: "i \<noteq> ps_id s \<Longrightarrow> agree_on i (snd (run_step env s x)) x"
  using finish_step_frame [of env s "resolved env s x" x] by (cases "finish_step env s (resolved env s x) x") (auto simp: run_step_parts)

lemma finish_step_pure:
  assumes "pure_tools env" and "agree_on (ps_id s) x y"
  shows "fst (finish_step env s args x) = fst (finish_step env s args y)
    \<and> agree_on (ps_id s) (snd (finish_step env s args x)) (snd (finish_step env s args y))"
proof -
  obtain o1 w1 where 1: "ge_call_tool env (ps_tool_name s) args (es_world x) = (o1, w1)" by (metis prod.exhaust)
  obtain o2 w2 where 2: "ge_call_tool env (ps_tool_name s) args (es_world y) = (o2, w2)" by (metis prod.exhaust)
  have "o1 = o2" using assms(1) 1 2 unfolding pure_tools_def by (metis fst_conv)
  with 1 2 assms(2) show ?thesis by (cases o2) (simp_all add: finish_step_def agree_on_def)
qed

lemma resolve_value_refs:
  assumes "\<And>i. i \<in> set (refs_in v) \<Longrightarrow> out1 i = out2 i"
  shows "resolve_value py_str out1 v = resolve_value py_str out2 v"
proof (cases v)
  case (JStr s)
  have "out1 (ref_id m) = out2 (ref_id m)" if "Inl m \<in> set (scan step_ref_pattern None s)" for m
    using that by (intro assms) (auto simp: JStr refs_in_def re_findall_def image_iff intro!: bexI [of _ "Inl m"])
  then show ?thesis
    by (auto simp: JStr resolve_value_def intro!: arg_cong [where f = concat] split: sum.splits)
qed (simp_all add: resolve_value_def)

lemma resolved_cong:
  assumes "\<And>i. i \<in> set (step_refs s) \<Longrightarrow> es_outputs x i = es_outputs y i"
  shows "resolved env s x = resolved env s y"
  unfolding resolved_def resolve_references_def
  using assms by (auto simp: step_refs_def intro!: resolve_value_refs)

lemma run_step_cong:
  assumes "pure_tools env" and "agree_on (ps_id s) x y" and "\<And>i. i \<in> set (step_refs s) \<Longrightarrow> es_outputs x i = es_outputs y i"
  shows "fst (run_step env s x) = fst (run_step env s y) \<and> agree_on (ps_id s) (snd (run_step env s x)) (snd (run_step env s y))"
  using finish_step_pure [OF assms(1,2)] resolved_cong [of s x y env] assms(2,3)
  by (auto simp: run_step_parts agree_on_def)

subsection \<open>The sequential mode on independent steps\<close>

definition independent :: "plan_step list \<Rightarrow> bool" where
  "independent ss \<longleftrightarrow> distinct (map ps_id ss) \<and> (\<forall>s \<in> set ss. \<forall>i \<in> set (step_refs s). i \<notin> ps_id ` set ss)"

lemma run_steps_independent:
  assumes "pure_tools env" and "distinct (map ps_id ss)"
    and "\<And>s. s \<in> set ss \<Longrightarrow> agree_on (ps_id s) x x0"
    and "\<And>s i. s \<in> set ss \<Longrightarrow> i \<in> set (step_refs s) \<Longrightarrow> i \<notin> ps_id ` set ss \<and> es_outputs x i = es_outputs x0 i"
  shows "fst (run_steps env ss x) = map (\<lambda>s. fst (run_step env s x0)) ss
    \<and> (\<forall>s \<in> set ss. agree_on (ps_id s) (snd (run_steps env ss x)) (snd (run_step env s x0)))
    \<and> (\<forall>i. i \<notin> ps_id ` set ss \<longrightarrow> agree_on i (snd (run_steps env ss x)) x)"
  using assms
proof (induction ss arbitrary: x)
  case (Cons s ss)
  obtain r x1 where s: "run_step env s x = (r, x1)" by (metis prod.exhaust)
  obtain rs x2 where ss: "run_steps env ss x1 = (rs, x2)" by (metis prod.exhaust)
  have frame: "i \<noteq> ps_id s \<Longrightarrow> agree_on i x1 x" for i using run_step_frame [of i s env x] s by simp
  have now: "r = fst (run_step env s x0)" "agree_on (ps_id s) x1 (snd (run_step env s x0))"
    using run_step_cong [OF Cons.prems(1), of s x x0] Cons.prems(3,4) [of s] s by auto
  have "agree_on (ps_id t) x1 x0" if "t \<in> set ss" for t
    using that Cons.prems(2) frame [of "ps_id t"] Cons.prems(3) [of t] by (auto simp: agree_on_def image_iff)
  moreover have "i \<notin> ps_id ` set ss \<and> es_outputs x1 i = es_outputs x0 i" if "t \<in> set ss" "i \<in> set (step_refs t)" for t i
    using that frame [of i] Cons.prems(4) [of t i] by (auto simp: agree_on_def)
  ultimately have rec: "rs = map (\<lambda>s. fst (run_step env s x0)) ss"
    "\<And>t. t \<in> set ss \<Longrightarrow> agree_on (ps_id t) x2 (snd (run_step env t x0))"
    "\<And>i. i \<notin> ps_id ` set ss \<Longrightarrow> agree_on i x2 x1"
    using Cons.IH [OF Cons.prems(1), of x1] Cons.prems(2) ss by auto
  have "agree_on (ps_id s) x2 (snd (run_step env s x0))"
    using rec(3) [of "ps_id s"] now(2) Cons.prems(2) by (auto intro: agree_trans)
  with rec now(1) frame s ss show ?case by (auto intro: agree_trans)
qed simp

lemma run_steps_cong:
  "pure_tools env \<Longrightarrow> same_progress x y
    \<Longrightarrow> fst (run_steps env ss x) = fst (run_steps env ss y) \<and> same_progress (snd (run_steps env ss x)) (snd (run_steps env ss y))"
proof (induction ss arbitrary: x y)
  case (Cons s ss)
  have one: "fst (run_step env s x) = fst (run_step env s y)" and id: "agree_on (ps_id s) (snd (run_step env s x)) (snd (run_step env s y))"
    using run_step_cong [OF Cons.prems(1), of s x y] Cons.prems(2) by (auto simp: same_progress_alt agree_on_def)
  have "agree_on i (snd (run_step env s x)) (snd (run_step env s y))" for i
    using id run_step_frame [of i s env x] run_step_frame [of i s env y] Cons.prems(2)
    by (cases "i = ps_id s") (auto simp: same_progress_alt agree_on_def)
  then have "same_progress (snd (run_step env s x)) (snd (run_step env s y))" by (simp add: same_progress_alt)
  from Cons.IH [OF Cons.prems(1) this] one show ?case by (auto split: prod.splits)
qed simp

subsection \<open>Every interleaving\<close>

definition holds_args :: "task \<Rightarrow> arguments \<Rightarrow> bool" where
  "holds_args t args \<longleftrightarrow> t = Waiting args \<or> t = Calling args"

definition batch_inv :: "'w graph_env \<Rightarrow> nat \<Rightarrow> plan_step list \<Rightarrow> 'w exec_state \<Rightarrow> 'w batch \<Rightarrow> bool" where
  "batch_inv env limit ss x0 b \<longleftrightarrow>
     (case b of (ts, x) \<Rightarrow> map fst ts = ss \<and> calls ts \<le> limit
        \<and> (\<forall>i. i \<notin> ps_id ` set ss \<longrightarrow> agree_on i x x0)
        \<and> (\<forall>(s, t) \<in> set ts. \<forall>args. holds_args t args \<longrightarrow> args = resolved env s x0))"

text \<open>The weight of a task is the number of its steps to come.\<close>

fun weight :: "task \<Rightarrow> nat" where
  "weight Fresh = 3" | "weight (Waiting _) = 2" | "weight (Calling _) = 1" | "weight (Ended _) = 0"

definition to_come :: "(plan_step \<times> task) list \<Rightarrow> nat" where
  "to_come ts = sum_list (map (weight \<circ> snd) ts)"

lemma calls_update:
  "i < length ts \<Longrightarrow> ts ! i = (s, u) \<Longrightarrow> calls (ts[i := (s, t)]) + (if calling u then 1 else 0) = calls ts + (if calling t then 1 else 0)"
proof (induction ts arbitrary: i)
  case (Cons v us)
  then show ?case by (cases i) (auto simp: calls_def split: prod.splits)
qed simp

lemma to_come_update:
  "i < length ts \<Longrightarrow> ts ! i = (s, u) \<Longrightarrow> to_come (ts[i := (s, t)]) + weight u = to_come ts + weight t"
proof (induction ts arbitrary: i)
  case (Cons v us)
  then show ?case by (cases i) (auto simp: to_come_def)
qed simp

lemma steps_update: "i < length ts \<Longrightarrow> ts ! i = (s, u) \<Longrightarrow> map fst (ts[i := (s, t)]) = map fst ts"
  by (metis fst_conv list_update_id map_update nth_map)

text \<open>The four ways a task advances.\<close>

lemma batch_next_cases:
  assumes "batch_next env limit i (ts, x) = Some (ts', x')"
  obtains (skip) s where "i < length ts" "ts ! i = (s, Fresh)" "ps_id s \<in> set (es_completed x)"
      "ts' = ts[i := (s, Ended (skipped s))]" "x' = x"
  | (start) s where "i < length ts" "ts ! i = (s, Fresh)" "ps_id s \<notin> set (es_completed x)"
      "ts' = ts[i := (s, Waiting (resolved env s x))]" "x' = x"
  | (enter) s args where "i < length ts" "ts ! i = (s, Waiting args)" "calls ts < limit" "ts' = ts[i := (s, Calling args)]" "x' = x"
  | (leave) s args r where "i < length ts" "ts ! i = (s, Calling args)" "finish_step env s args x = (r, x')" "ts' = ts[i := (s, Ended r)]"
proof -
  have i: "i < length ts" using assms by (auto simp: batch_next_def split: if_splits)
  obtain s t where t: "ts ! i = (s, t)" by fastforce
  show thesis
  proof (cases t)
    case Fresh
    then have "x' = x" "ts' = ts[i := (s, if ps_id s \<in> set (es_completed x) then Ended (skipped s) else Waiting (resolved env s x))]"
      using assms i t by (auto simp: batch_next_def split: if_split_asm)
    then show thesis using skip [OF i] start [OF i] t Fresh by (cases "ps_id s \<in> set (es_completed x)") simp_all
  next
    case (Waiting args)
    then have "x' = x" "ts' = ts[i := (s, Calling args)]" "calls ts < limit"
      using assms i t by (simp_all add: batch_next_def split: if_split_asm)
    then show thesis using enter [OF i] t Waiting by simp
  next
    case (Calling args)
    obtain r y where r: "finish_step env s args x = (r, y)" by (metis prod.exhaust)
    then have "x' = y" "ts' = ts[i := (s, Ended r)]" using assms i t Calling by (simp_all add: batch_next_def)
    then show thesis using leave [OF i] t Calling r by simp
  next
    case (Ended r)
    with assms i t show thesis by (simp add: batch_next_def)
  qed
qed

lemma batch_next_to_come:
  assumes "batch_next env limit i (ts, x) = Some (ts', x')"
  shows "to_come ts' < to_come ts"
  using assms
proof (cases rule: batch_next_cases)
  case (skip s)
  then show ?thesis using to_come_update [of i ts s Fresh "Ended (skipped s)"] by simp
next
  case (start s)
  then show ?thesis using to_come_update [of i ts s Fresh "Waiting (resolved env s x)"] by simp
next
  case (enter s args)
  then show ?thesis using to_come_update [of i ts s "Waiting args" "Calling args"] by simp
next
  case (leave s args r)
  then show ?thesis using to_come_update [of i ts s "Calling args" "Ended r"] by simp
qed

lemma batch_next_steps: "batch_next env limit i (ts, x) = Some (ts', x') \<Longrightarrow> map fst ts' = map fst ts"
  by (erule batch_next_cases) (simp_all add: steps_update)

lemma batch_next_calls:
  assumes "batch_next env limit i (ts, x) = Some (ts', x')" and "calls ts \<le> limit"
  shows "calls ts' \<le> limit"
  using assms(1)
proof (cases rule: batch_next_cases)
  case (skip s)
  then show ?thesis using calls_update [of i ts s Fresh "Ended (skipped s)"] assms(2) by simp
next
  case (start s)
  then show ?thesis using calls_update [of i ts s Fresh "Waiting (resolved env s x)"] assms(2) by simp
next
  case (enter s args)
  then show ?thesis using calls_update [of i ts s "Waiting args" "Calling args"] by simp
next
  case (leave s args r)
  then show ?thesis using calls_update [of i ts s "Calling args" "Ended r"] assms(2) by simp
qed

lemma batch_next_inv:
  assumes "independent ss" and "batch_inv env limit ss x0 (ts, x)" and "batch_next env limit i (ts, x) = Some (ts', x')"
  shows "batch_inv env limit ss x0 (ts', x')"
proof -
  have inv: "map fst ts = ss" "calls ts \<le> limit" "\<And>i. i \<notin> ps_id ` set ss \<Longrightarrow> agree_on i x x0"
    "\<And>s t args. (s, t) \<in> set ts \<Longrightarrow> holds_args t args \<Longrightarrow> args = resolved env s x0"
    using assms(2) by (auto simp: batch_inv_def)
  have at: "s \<in> set ss" "(s, t) \<in> set ts" if "i < length ts" "ts ! i = (s, t)" for s t
    using that inv(1) nth_mem [of i ts] by force+
  have args: "(u, v) \<in> set (ts[i := (s, t)]) \<Longrightarrow> holds_args v a \<Longrightarrow> (\<And>b. holds_args t b \<Longrightarrow> b = resolved env s x0) \<Longrightarrow> a = resolved env u x0"
    for s t u v a using set_update_subset_insert [of ts i "(s, t)"] inv(4) by blast
  have "map fst ts' = ss" using batch_next_steps [OF assms(3)] inv(1) by simp
  moreover have "calls ts' \<le> limit"
    by (rule batch_next_calls [OF assms(3) inv(2)])
  moreover have "agree_on j x' x0" if "j \<notin> ps_id ` set ss" for j
    using assms(3)
  proof (cases rule: batch_next_cases)
    case (leave s args r)
    then have "j \<noteq> ps_id s" using that at by auto
    with leave(3) show ?thesis using finish_step_frame inv(3) [OF that] by (blast intro: agree_trans)
  qed (use inv(3) that in simp_all)
  moreover have "a = resolved env u x0" if "(u, v) \<in> set ts'" "holds_args v a" for u v a
    using assms(3)
  proof (cases rule: batch_next_cases)
    case (start s)
    have "resolved env s x = resolved env s x0"
      using at [OF start(1,2)] assms(1) inv(3) by (intro resolved_cong) (auto simp: independent_def agree_on_def)
    with that args [of u v s _ a] start show ?thesis by (auto simp: holds_args_def)
  next
    case (enter s b)
    with that args [of u v s _ a] inv(4) [OF at(2), of s "Waiting b"] show ?thesis by (auto simp: holds_args_def)
  qed (use that args [of u v _ _ a] in \<open>auto simp: holds_args_def\<close>)
  ultimately show ?thesis by (auto simp: batch_inv_def)
qed

text \<open>
  With tools whose answers do not depend on the state of the world, a task that has ended has done
  what the step alone does from the start of the batch, and one that has not has changed nothing.
\<close>

definition settled_as :: "'w graph_env \<Rightarrow> 'w exec_state \<Rightarrow> 'w exec_state \<Rightarrow> plan_step \<Rightarrow> task \<Rightarrow> bool" where
  "settled_as env x0 x s t \<longleftrightarrow>
     (case t of
        Ended r \<Rightarrow> r = fst (run_step env s x0) \<and> agree_on (ps_id s) x (snd (run_step env s x0))
      | Fresh \<Rightarrow> agree_on (ps_id s) x x0
      | _ \<Rightarrow> agree_on (ps_id s) x x0 \<and> ps_id s \<notin> set (es_completed x0))"

definition batch_settled :: "'w graph_env \<Rightarrow> 'w exec_state \<Rightarrow> 'w batch \<Rightarrow> bool" where
  "batch_settled env x0 b \<longleftrightarrow> (case b of (ts, x) \<Rightarrow> \<forall>(s, t) \<in> set ts. settled_as env x0 x s t)"

lemma settled_as_cong: "agree_on (ps_id s) x x' \<Longrightarrow> settled_as env x0 x s t \<Longrightarrow> settled_as env x0 x' s t"
  by (auto simp: settled_as_def agree_on_def split: task.splits)

lemma settled_update:
  assumes "distinct (map ps_id (map fst ts))" and "i < length ts" and "ts ! i = (s, u)" and "batch_settled env x0 (ts, x)"
    and "\<And>j. j \<noteq> ps_id s \<Longrightarrow> agree_on j x' x" and "settled_as env x0 x' s t"
  shows "batch_settled env x0 (ts[i := (s, t)], x')"
proof -
  have "settled_as env x0 x' v w" if at: "(v, w) \<in> set (ts[i := (s, t)])" for v w
  proof -
    obtain j where "j < length (ts[i := (s, t)])" "ts[i := (s, t)] ! j = (v, w)"
      using at unfolding in_set_conv_nth by blast
    then have j: "j < length ts" "ts[i := (s, t)] ! j = (v, w)" by simp_all
    show ?thesis
    proof (cases "j = i")
      case True
      with j assms(2,6) show ?thesis by simp
    next
      case False
      then have vw: "ts ! j = (v, w)" using j by simp
      have "map ps_id (map fst ts) ! j \<noteq> map ps_id (map fst ts) ! i"
        using assms(1,2) j(1) False nth_eq_iff_index_eq by fastforce
      then have "ps_id v \<noteq> ps_id s" using j(1) assms(2,3) vw by simp
      moreover have "settled_as env x0 x v w" using assms(4) vw j(1) nth_mem [of j ts] by (force simp: batch_settled_def)
      ultimately show ?thesis using assms(5) [of "ps_id v"] settled_as_cong agree_sym by blast
    qed
  qed
  then show ?thesis by (auto simp: batch_settled_def)
qed

lemma settled_at: "batch_settled env x0 (ts, x) \<Longrightarrow> i < length ts \<Longrightarrow> ts ! i = (s, t) \<Longrightarrow> settled_as env x0 x s t"
  using nth_mem [of i ts] by (force simp: batch_settled_def)

lemma batch_next_settled:
  assumes "pure_tools env" and "independent ss" and "batch_inv env limit ss x0 (ts, x)" and "batch_settled env x0 (ts, x)"
    and "batch_next env limit i (ts, x) = Some (ts', x')"
  shows "batch_settled env x0 (ts', x')"
proof -
  have ss: "map fst ts = ss" using assms(3) by (simp add: batch_inv_def)
  have d: "distinct (map ps_id (map fst ts))" using assms(2) ss by (simp add: independent_def del: map_map)
  note up = settled_update [OF d _ _ assms(4)] and was = settled_at [OF assms(4)]
  show ?thesis using assms(5)
  proof (cases rule: batch_next_cases)
    case (skip s)
    with was [OF skip(1,2)] have "settled_as env x0 x s (Ended (skipped s))"
      by (auto simp: settled_as_def run_step_parts agree_on_def)
    with up [OF skip(1,2)] skip(4,5) show ?thesis by simp
  next
    case (start s)
    with was [OF start(1,2)] have "settled_as env x0 x s (Waiting (resolved env s x))"
      by (auto simp: settled_as_def agree_on_def)
    with up [OF start(1,2)] start(4,5) show ?thesis by simp
  next
    case (enter s args)
    with was [OF enter(1,2)] have "settled_as env x0 x s (Calling args)" by (simp add: settled_as_def)
    with up [OF enter(1,2)] enter(4,5) show ?thesis by simp
  next
    case (leave s args r)
    have "(s, Calling args) \<in> set ts" using leave(1,2) nth_mem by metis
    then have args: "args = resolved env s x0" using assms(3) by (force simp: batch_inv_def holds_args_def)
    have "agree_on (ps_id s) x x0" "ps_id s \<notin> set (es_completed x0)" using was [OF leave(1,2)] by (simp_all add: settled_as_def)
    with finish_step_pure [OF assms(1), of s x x0 args] leave(3) args have "settled_as env x0 x' s (Ended r)"
      by (simp add: settled_as_def run_step_parts)
    with up [OF leave(1,2)] finish_step_frame [OF leave(3)] leave(4) show ?thesis by simp
  qed
qed

text \<open>A batch that is not over can go on: the semaphore never blocks all tasks.\<close>

lemma batch_next_exists:
  assumes "0 < limit" and "0 < to_come ts"
  shows "\<exists>i b. batch_next env limit i (ts, x) = Some b"
proof -
  let ?P = "\<lambda>p i. i < length ts \<and> p (snd (ts ! i))"
  consider (call) i where "?P calling i" | (fresh) i where "?P (\<lambda>t. t = Fresh) i" "\<And>j. j < i \<Longrightarrow> \<not> ?P (\<lambda>t. t = Fresh) j"
    | (wait) i where "?P queued i" "\<And>j. j < i \<Longrightarrow> \<not> ?P queued j" "\<And>j. \<not> ?P calling j" "\<And>j. \<not> ?P (\<lambda>t. t = Fresh) j"
  proof -
    have "\<exists>i < length ts. \<not> has_ended (snd (ts ! i))"
    proof (rule ccontr)
      assume "\<not> ?thesis"
      then have "weight (snd u) = 0" if "u \<in> set ts" for u using that by (cases "snd u") (force simp: in_set_conv_nth)+
      then have "to_come ts = 0" by (simp add: to_come_def o_def)
      with assms(2) show False by simp
    qed
    then obtain i where i: "i < length ts" "\<not> has_ended (snd (ts ! i))" by blast
    have first: "\<exists>j. ?P p j \<Longrightarrow> \<exists>j. ?P p j \<and> (\<forall>k < j. \<not> ?P p k)" for p by (rule exists_least_iff [THEN iffD1])
    show thesis
    proof (cases "\<exists>j. ?P calling j")
      case True
      then show thesis using call by blast
    next
      case no_call: False
      show thesis
      proof (cases "\<exists>j. ?P (\<lambda>t. t = Fresh) j")
        case True
        then show thesis using first [of "\<lambda>t. t = Fresh"] fresh by blast
      next
        case False
        with i no_call have "?P queued i" by (cases "snd (ts ! i)") auto
        then show thesis using first [of queued] wait no_call False by blast
      qed
    qed
  qed
  then show ?thesis
  proof cases
    case call
    then obtain s args where "ts ! i = (s, Calling args)" by (cases "ts ! i"; cases "snd (ts ! i)") auto
    with call show ?thesis by (intro exI [of _ i]) (auto simp: batch_next_def split: prod.splits)
  next
    case fresh
    then have "list_all (\<lambda>(_, u). u \<noteq> Fresh) (take i ts)" by (auto simp: list_all_length case_prod_unfold)
    moreover obtain s where "ts ! i = (s, Fresh)" using fresh by (cases "ts ! i") auto
    ultimately show ?thesis using fresh by (intro exI [of _ i]) (simp add: batch_next_def)
  next
    case wait
    then have "list_all (\<lambda>(_, u). u \<noteq> Fresh \<and> \<not> queued u) (take i ts)" by (auto simp: list_all_length case_prod_unfold)
    moreover have "\<not> calling (snd u)" if "u \<in> set ts" for u using that wait(3) by (metis in_set_conv_nth)
    then have "calls ts = 0" by (auto simp: calls_def filter_empty_conv)
    moreover obtain s args where "ts ! i = (s, Waiting args)" using wait(1) by (cases "ts ! i"; cases "snd (ts ! i)") auto
    ultimately show ?thesis using wait(1) assms(1) by (intro exI [of _ i]) (simp add: batch_next_def)
  qed
qed

subsection \<open>Schedules\<close>

lemma run_schedule_append:
  "run_schedule env limit (is @ js) b = (case run_schedule env limit is b of None \<Rightarrow> None | Some b' \<Rightarrow> run_schedule env limit js b')"
  by (induction "is" arbitrary: b) (auto split: option.splits)

lemma run_schedule_to_come: "run_schedule env limit is (ts, x) = Some (ts', x') \<Longrightarrow> length is + to_come ts' \<le> to_come ts"
proof (induction "is" arbitrary: ts x)
  case (Cons i js)
  then obtain ts1 x1 where one: "batch_next env limit i (ts, x) = Some (ts1, x1)" "run_schedule env limit js (ts1, x1) = Some (ts', x')"
    by (auto split: option.splits)
  with Cons.IH [OF one(2)] batch_next_to_come [OF one(1)] show ?case by simp
qed simp

lemma run_schedule_inv:
  "independent ss \<Longrightarrow> batch_inv env limit ss x0 b \<Longrightarrow> run_schedule env limit is b = Some b'
    \<Longrightarrow> batch_inv env limit ss x0 b' \<and> (pure_tools env \<longrightarrow> batch_settled env x0 b \<longrightarrow> batch_settled env x0 b')"
proof (induction "is" arbitrary: b)
  case (Cons i js)
  obtain ts x ts1 x1 where one: "b = (ts, x)" "batch_next env limit i (ts, x) = Some (ts1, x1)" "run_schedule env limit js (ts1, x1) = Some b'"
    using Cons.prems(3) by (cases b) (auto split: option.splits)
  with Cons.IH [OF Cons.prems(1) batch_next_inv [OF Cons.prems(1)] one(3)] batch_next_settled [OF _ Cons.prems(1)] Cons.prems(2)
  show ?case by blast
qed simp

lemma run_schedule_ends:
  assumes "0 < limit"
  shows "\<exists>is ts' x'. run_schedule env limit is (ts, x) = Some (ts', x') \<and> to_come ts' = 0"
proof (induction "to_come ts" arbitrary: ts x rule: less_induct)
  case less
  show ?case
  proof (cases "to_come ts = 0")
    case True
    then have "run_schedule env limit [] (ts, x) = Some (ts, x) \<and> to_come ts = 0" by simp
    then show ?thesis by blast
  next
    case False
    then obtain i ts1 x1 where one: "batch_next env limit i (ts, x) = Some (ts1, x1)"
      using batch_next_exists [OF assms, of ts env x] by auto
    then obtain js ts' x' where "run_schedule env limit js (ts1, x1) = Some (ts', x')" "to_come ts' = 0"
      using less batch_next_to_come by blast
    with one show ?thesis by (intro exI [of _ "i # js"]) simp
  qed
qed

lemma results_of_iff: "results_of ts = Some rs \<longleftrightarrow> map snd ts = map Ended rs"
  by (induction ts arbitrary: rs rule: results_of.induct) (auto split: task.splits simp: Cons_eq_map_conv)

lemma to_come_parts [simp]: "to_come [] = 0" "to_come ((s, t) # ts) = weight t + to_come ts"
  by (simp_all add: to_come_def)

lemma weight_zero: "weight t = 0 \<Longrightarrow> \<exists>r. t = Ended r"
  by (cases t) simp_all

lemma results_of_ends: "to_come ts = 0 \<Longrightarrow> \<exists>rs. results_of ts = Some rs"
  by (induction ts rule: results_of.induct) (auto dest: weight_zero)

lemma fresh_tasks_start [simp]: "map fst (fresh_tasks ss) = ss" "calls (fresh_tasks ss) = 0" "to_come (fresh_tasks ss) = 3 * length ss"
  by (induction ss) (simp_all add: fresh_tasks_def calls_def to_come_def)

lemma fresh_inv: "batch_inv env limit ss x (fresh_tasks ss, x)" "batch_settled env x (fresh_tasks ss, x)"
proof -
  show "batch_inv env limit ss x (fresh_tasks ss, x)"
    by (simp add: batch_inv_def) (auto simp: fresh_tasks_def holds_args_def)
  show "batch_settled env x (fresh_tasks ss, x)" by (auto simp: batch_settled_def fresh_tasks_def settled_as_def)
qed

text \<open>A batch that runs to its end: the same as its steps one after the other.\<close>

lemma run_batch_sequential:
  assumes "pure_tools env" and "independent ss" and "run_batch env limit is ss x = Some (rs, x')"
  shows "rs = fst (run_steps env ss x) \<and> same_progress x' (snd (run_steps env ss x))"
proof -
  obtain ts where ts: "run_schedule env limit is (fresh_tasks ss, x) = Some (ts, x')" "map snd ts = map Ended rs"
    using assms(3) by (auto simp: run_batch_def results_of_iff split: option.splits)
  have inv: "batch_inv env limit ss x (ts, x')" "batch_settled env x (ts, x')"
    using run_schedule_inv [OF assms(2) fresh_inv(1) ts(1)] fresh_inv(2) assms(1) by blast+
  have seq: "fst (run_steps env ss x) = map (\<lambda>s. fst (run_step env s x)) ss"
    "\<And>s. s \<in> set ss \<Longrightarrow> agree_on (ps_id s) (snd (run_steps env ss x)) (snd (run_step env s x))"
    "\<And>i. i \<notin> ps_id ` set ss \<Longrightarrow> agree_on i (snd (run_steps env ss x)) x"
    using run_steps_independent [OF assms(1), of ss x x] assms(2) by (auto simp: independent_def)
  have len: "length ts = length ss" "length rs = length ss"
    using inv(1) ts(2) by (auto simp: batch_inv_def dest: arg_cong [where f = length])
  have each: "ts ! j = (ss ! j, Ended (rs ! j))" if "j < length ss" for j
  proof -
    have "map fst ts ! j = ss ! j" using inv(1) by (simp add: batch_inv_def)
    then have "fst (ts ! j) = ss ! j" using that len by simp
    moreover have "snd (ts ! j) = Ended (rs ! j)" using that len arg_cong [OF ts(2), of "\<lambda>l. l ! j"] by simp
    ultimately show ?thesis by (metis prod.collapse)
  qed
  have fin: "rs ! j = fst (run_step env (ss ! j) x)" "agree_on (ps_id (ss ! j)) x' (snd (run_step env (ss ! j) x))" if "j < length ss" for j
    using settled_at [OF inv(2), of j "ss ! j" "Ended (rs ! j)"] that len each by (auto simp: settled_as_def)
  have "rs = fst (run_steps env ss x)" using fin(1) len by (intro nth_equalityI) (simp_all add: seq(1))
  moreover have "agree_on i x' (snd (run_steps env ss x))" for i
  proof (cases "i \<in> ps_id ` set ss")
    case True
    then obtain j where "j < length ss" "i = ps_id (ss ! j)" by (auto simp: in_set_conv_nth)
    then show ?thesis using fin(2) [of j] seq(2) [of "ss ! j"] by (simp add: agree_on_def)
  next
    case False
    then show ?thesis using inv(1) seq(3) [of i] by (simp add: batch_inv_def agree_on_def)
  qed
  ultimately show ?thesis by (simp add: same_progress_alt)
qed

text \<open>A step awaited alone is the step of the sequential mode, whatever the tools do.\<close>

lemma alone_zero: "run_schedule env limit (i # js) ([u], x) = Some b \<Longrightarrow> i = 0"
  by (simp add: batch_next_def split: if_splits)

lemma alone_ended: "run_schedule env limit is ([(s, Ended r)], x) = Some ([(s, Ended q)], x') \<Longrightarrow> r = q \<and> x = x'"
proof (cases "is")
  case (Cons i js)
  moreover assume "run_schedule env limit is ([(s, Ended r)], x) = Some ([(s, Ended q)], x')"
  ultimately have "run_schedule env limit (0 # js) ([(s, Ended r)], x) = Some ([(s, Ended q)], x')" using alone_zero by metis
  then show ?thesis by (simp add: batch_next_def)
qed simp

lemma alone_calling:
  assumes "run_schedule env limit is ([(s, Calling args)], x) = Some ([(s, Ended q)], x')"
  shows "finish_step env s args x = (q, x')"
proof -
  obtain js where "is": "is = 0 # js" using assms alone_zero by (cases "is") fastforce+
  obtain r y where r: "finish_step env s args x = (r, y)" by (metis prod.exhaust)
  with assms "is" have "run_schedule env limit js ([(s, Ended r)], y) = Some ([(s, Ended q)], x')"
    by (simp add: batch_next_def)
  with r show ?thesis using alone_ended by metis
qed

lemma alone_waiting:
  assumes "run_schedule env limit is ([(s, Waiting args)], x) = Some ([(s, Ended q)], x')"
  shows "finish_step env s args x = (q, x')"
proof -
  obtain js where "is": "is = 0 # js" using assms alone_zero by (cases "is") fastforce+
  with assms have "run_schedule env limit js ([(s, Calling args)], x) = Some ([(s, Ended q)], x')"
    by (simp add: batch_next_def split: if_splits)
  then show ?thesis by (rule alone_calling)
qed

lemma run_batch_alone:
  assumes "run_batch env limit is [s] x = Some (rs, x')"
  shows "run_steps env [s] x = (rs, x')"
proof -
  obtain ts where ts: "run_schedule env limit is (fresh_tasks [s], x) = Some (ts, x')" "map snd ts = map Ended rs"
    using assms by (auto simp: run_batch_def results_of_iff split: option.splits)
  have "map fst ts = [s]" using ts(1)
  proof (induction "is" arbitrary: ts x' rule: rev_induct)
    case (snoc i js)
    then show ?case by (auto simp: run_schedule_append dest!: batch_next_steps split: option.splits)
  qed (simp add: fresh_tasks_def)
  then obtain q where q: "ts = [(s, Ended q)]" "rs = [q]" using ts(2) by (auto simp: map_eq_Cons_conv)
  obtain js where "is": "is = 0 # js" using ts(1) q alone_zero by (cases "is") (fastforce simp: fresh_tasks_def)+
  with ts(1) q have rest: "run_schedule env limit js ([(s, if ps_id s \<in> set (es_completed x) then Ended (skipped s)
      else Waiting (resolved env s x))], x) = Some ([(s, Ended q)], x')"
    by (auto simp: batch_next_def fresh_tasks_def)
  then have "run_step env s x = (q, x')"
    by (auto simp: run_step_parts dest: alone_ended alone_waiting split: if_splits)
  then show ?thesis by (simp add: q(2))
qed

subsection \<open>Plans\<close>

lemma topo_concat: "topo deps ids = map_option concat (topo_batches deps ids)"
  by (induction deps ids rule: topo.induct) (auto simp: topo.simps topo_batches.simps option.map_comp o_def)

lemma topo_batches_ready: "topo_batches deps ids = Some bs \<Longrightarrow> b \<in> set bs \<Longrightarrow> \<exists>us. b = ready deps us \<and> set us \<subseteq> set ids \<and> (distinct ids \<longrightarrow> distinct us)"
proof (induction deps ids arbitrary: bs rule: topo_batches.induct)
  case (1 deps ids)
  show ?case
  proof (cases "ids = [] \<or> ready deps ids = []")
    case True
    with "1.prems" show ?thesis by (auto simp: topo_batches.simps [of deps ids] split: if_splits)
  next
    case False
    let ?rest = "filter (\<lambda>i. i \<notin> set (ready deps ids)) ids"
    obtain cs where cs: "topo_batches deps ?rest = Some cs" "bs = ready deps ids # cs"
      using False "1.prems"(1) by (auto simp: topo_batches.simps [of deps ids])
    show ?thesis
    proof (cases "b = ready deps ids")
      case True
      then show ?thesis by blast
    next
      case other: False
      have "ids \<noteq> []" "ready deps ids \<noteq> []" using False by auto
      from "1.IH" [OF this cs(1)] "1.prems"(2) cs(2) other
      obtain us where "b = ready deps us" "set us \<subseteq> set ?rest" "distinct ?rest \<longrightarrow> distinct us" by auto
      then show ?thesis by (intro exI [of _ us]) auto
    qed
  qed
qed

lemma steps_of_ids:
  assumes "distinct (map ps_id steps)" and "set xs \<subseteq> ps_id ` set steps"
  shows "map ps_id (List.map_filter (step_map steps) xs) = xs \<and> set (List.map_filter (step_map steps) xs) \<subseteq> set steps"
  using assms(2)
proof (induction xs)
  case (Cons i xs)
  then obtain s where "s \<in> set steps" "i = ps_id s" by auto
  with Cons step_map_distinct [OF assms(1), of s] show ?case by (simp add: map_filter_simps)
qed (simp add: map_filter_simps)

lemma map_filter_concat: "List.map_filter f (concat xss) = concat (map (List.map_filter f) xss)"
  by (induction xss) (simp_all add: map_filter_def)

text \<open>The steps of a batch do not refer to each other, and the batches are the sequential order.\<close>

lemma step_batches_independent:
  assumes "distinct (map ps_id steps)" and "step_batches steps = Some bs" and "b \<in> set bs"
  shows "independent b"
proof -
  let ?deps = "build_dag steps"
  have keys: "map fst ?deps = map ps_id steps" using assms(1) by (simp add: keys_build_dag distinct_remdups_id)
  obtain cs c where cs: "topo_batches ?deps (map ps_id steps) = Some cs" "c \<in> set cs" "b = List.map_filter (step_map steps) c"
    using assms(2,3) keys by (auto simp: step_batches_def)
  obtain us where us: "c = ready ?deps us" "set us \<subseteq> ps_id ` set steps" "distinct us"
    using topo_batches_ready [OF cs(1,2)] assms(1) by auto
  have "set c \<subseteq> ps_id ` set steps" using us(1,2) ready_sub [of ?deps us] by blast
  from steps_of_ids [OF assms(1) this] have b: "map ps_id b = c" "set b \<subseteq> set steps" by (simp_all add: cs(3))
  have "distinct (map ps_id b)" using b(1) us(1,3) by (simp add: ready_def)
  moreover have "i \<notin> ps_id ` set b" if "s \<in> set b" "i \<in> set (step_refs s)" for s i
  proof -
    have "ps_id s \<in> set (ready ?deps us)" using that(1) b(1) us(1) by (metis image_eqI list.set_map)
    moreover have "deps_of ?deps (ps_id s) = step_refs s" using deps_of_step [OF assms(1)] that(1) b(2) by blast
    ultimately have "i \<notin> set us" using that(2) by (auto simp: ready_def)
    moreover have "ps_id ` set b = set c" using b(1) by (metis list.set_map)
    then have "ps_id ` set b \<subseteq> set us" using us(1) by (auto simp: ready_def)
    ultimately show ?thesis by blast
  qed
  ultimately show ?thesis by (simp add: independent_def)
qed

lemma step_batches_order: "execution_order steps = (case step_batches steps of None \<Rightarrow> steps | Some bs \<Rightarrow> concat bs)"
  by (cases "topo_batches (build_dag steps) (map fst (build_dag steps))")
    (simp_all add: execution_order_def topo_order_def topo_concat step_batches_def map_filter_concat)

lemma run_steps_append:
  "run_steps env (as @ bs) x = (case run_steps env as x of (rs, x1) \<Rightarrow> (case run_steps env bs x1 of (rs', x2) \<Rightarrow> (rs @ rs', x2)))"
  by (induction "as" arbitrary: x) (auto split: prod.splits)

lemma run_batches_sequential:
  assumes "pure_tools env"
  shows "(\<And>b. b \<in> set bs \<Longrightarrow> independent b \<or> length b = 1) \<Longrightarrow> run_batches env limit iss bs x = Some (rs, x')
    \<Longrightarrow> rs = fst (run_steps env (concat bs) x) \<and> same_progress x' (snd (run_steps env (concat bs) x))"
proof (induction bs arbitrary: iss x rs)
  case (Cons b bs)
  obtain "is" iss' where iss: "iss = is # iss'" using Cons.prems(2) by (cases iss) auto
  obtain q x1 where q: "run_batch env limit is b x = Some (q, x1)" using Cons.prems(2) iss by (auto split: option.splits)
  obtain qs where qs: "run_batches env limit iss' bs x1 = Some (qs, x')" "rs = q @ qs" using Cons.prems(2) iss q by auto
  obtain p y where p: "run_steps env b x = (p, y)" by (metis prod.exhaust)
  have one: "q = p \<and> same_progress x1 y"
  proof (cases "independent b")
    case True
    with run_batch_sequential [OF assms _ q] p show ?thesis by simp
  next
    case False
    with Cons.prems(1) [of b] obtain s where "b = [s]" by (auto simp: length_Suc_conv)
    with run_batch_alone [of env limit "is" s x q x1] q p show ?thesis by (simp add: same_progress_def)
  qed
  have "qs = fst (run_steps env (concat bs) x1) \<and> same_progress x' (snd (run_steps env (concat bs) x1))"
    using Cons.IH [OF _ qs(1)] Cons.prems(1) by simp
  moreover note run_steps_cong [OF assms, of x1 y "concat bs"]
  ultimately show ?case using one p qs(2)
    by (auto simp: run_steps_append same_progress_def split: prod.splits)
qed (simp add: same_progress_def)

lemma run_batches_exists:
  assumes "0 < limit"
  shows "\<exists>iss rs x'. run_batches env limit iss bs x = Some (rs, x')"
proof (induction bs arbitrary: x)
  case (Cons b bs)
  obtain "is" ts x1 where one: "run_schedule env limit is (fresh_tasks b, x) = Some (ts, x1)" "to_come ts = 0"
    using run_schedule_ends [OF assms] by blast
  then obtain rs where "run_batch env limit is b x = Some (rs, x1)" using results_of_ends by (force simp: run_batch_def)
  moreover obtain iss rs' x' where "run_batches env limit iss bs x1 = Some (rs', x')" using Cons by blast
  ultimately show ?case by (intro exI [of _ "is # iss"]) simp
qed simp

lemma no_calls_no_effect:
  "run_schedule env 0 is (ts, x) = Some (ts', x') \<Longrightarrow> calls ts = 0 \<Longrightarrow> es_world x' = es_world x"
proof (induction "is" arbitrary: ts x)
  case (Cons i js)
  then obtain ts1 x1 where one: "batch_next env 0 i (ts, x) = Some (ts1, x1)" "run_schedule env 0 js (ts1, x1) = Some (ts', x')"
    by (auto split: option.splits)
  have "x1 = x" using one(1)
  proof (cases rule: batch_next_cases)
    case (leave s args r)
    then have "(s, Calling args) \<in> set ts" by (metis nth_mem)
    with Cons.prems(2) show ?thesis by (force simp: calls_def filter_empty_conv)
  qed simp_all
  with Cons.IH [OF one(2)] batch_next_calls [OF one(1)] Cons.prems(2) show ?case by simp
qed simp

text \<open>
  \<^bold>\<open>C36.\<close> Within a batch of a plan with distinct identifiers, whatever the tools do and in whatever
  order they return: never more than \<open>PLAN_MAX_PARALLEL\<close> calls are under way; every step is called with
  its references replaced by the outputs that were there when the batch began; no interleaving is
  longer than three steps per task; and if the limit is positive, every interleaving can be continued
  to the end of the batch, so the semaphore never blocks it. With the limit 0 no call ever starts.
\<close>

theorem parallel_batch_bounded:
  assumes "distinct (map ps_id steps)" and "step_batches steps = Some bs" and "b \<in> set bs"
    and "run_schedule env limit is (fresh_tasks b, x) = Some (ts, x1)"
  shows "map fst ts = b \<and> calls ts \<le> limit \<and> length is \<le> 3 * length b
    \<and> (\<forall>(s, t) \<in> set ts. \<forall>args. t = Waiting args \<or> t = Calling args
          \<longrightarrow> args = resolve_references (ge_str env) (ps_arguments s) (es_outputs x))
    \<and> (0 < limit \<longrightarrow> (\<exists>js. run_batch env limit (is @ js) b x \<noteq> None))
    \<and> (limit = 0 \<longrightarrow> es_world x1 = es_world x)"
proof -
  have ind: "independent b" by (rule step_batches_independent [OF assms(1-3)])
  have inv: "batch_inv env limit b x (ts, x1)" using run_schedule_inv [OF ind fresh_inv(1) assms(4)] by blast
  have "length is \<le> 3 * length b" using run_schedule_to_come [OF assms(4)] by simp
  moreover have "\<exists>js. run_batch env limit (is @ js) b x \<noteq> None" if pos: "0 < limit"
  proof -
    obtain js ts' x' where "run_schedule env limit js (ts, x1) = Some (ts', x')" "to_come ts' = 0"
      using run_schedule_ends [OF pos] by blast
    with results_of_ends [of ts'] assms(4) show ?thesis by (intro exI [of _ js]) (auto simp: run_batch_def run_schedule_append)
  qed
  moreover have "es_world x1 = es_world x" if "limit = 0"
    using assms(4) unfolding that by (rule no_calls_no_effect) simp
  ultimately show ?thesis using inv by (auto simp: batch_inv_def holds_args_def resolved_def)
qed

lemma concat_machine_batches: "concat (machine_batches steps) = execution_order steps"
  by (simp add: machine_batches_def step_batches_order split: option.splits)

lemma execute_parallel_sequential:
  assumes "distinct (map ps_id steps)" and "pure_tools env" and "execute_parallel env limit iss steps x = Some (rs, x')"
  shows "rs = fst (run_steps env (execution_order steps) x) \<and> same_progress x' (snd (run_steps env (execution_order steps) x))"
proof -
  have "independent b \<or> length b = 1" if "b \<in> set (machine_batches steps)" for b
    using that step_batches_independent [OF assms(1)] by (auto simp: machine_batches_def split: option.splits)
  moreover have "run_batches env limit iss (machine_batches steps) x = Some (rs, x')"
    using assms(3) by (simp add: execute_parallel_def machine_batches_def)
  ultimately show ?thesis using run_batches_sequential [OF assms(2)] concat_machine_batches by metis
qed


subsection \<open>The node in the parallel mode\<close>

text \<open>What \<open>execute_node\<close> settles before it runs a step, and what it returns.\<close>

definition plan_to_run :: "graph_state \<Rightarrow> (string, node_result) result + plan_step list" where
  "plan_to_run st =
     (if gs_phase st = Failed then Inl (Inr (Next st))
      else case gs_plan st of
        None \<Rightarrow> Inl (Inr (Next (st\<lparr>gs_phase := Failed, gs_error := Some ''No plan to execute''\<rparr>)))
      | Some p \<Rightarrow>
          if ep_steps p = [] then Inl (Inr (Next (st\<lparr>gs_phase := Failed, gs_error := Some ''No plan to execute''\<rparr>)))
          else (case typed_steps p of
            Inl e \<Rightarrow> Inl (Inl e)
          | Inr steps \<Rightarrow>
              (let ref_errors = validate_step_references steps
               in if ref_errors \<noteq> [] then
                    Inl (Inr (Next (st\<lparr>gs_phase := Failed,
                       gs_error := Some (''Invalid step references: '' @ py_join ''; '' ref_errors)\<rparr>)))
                  else (case filter (\<lambda>s. destructive (ps_tool_name s)) steps of
                    s # _ \<Rightarrow> Inl (Inr (Interrupt (''Tool '' @ squote @ ps_tool_name s @ squote @
                               '' requires human approval before execution.'')))
                  | [] \<Rightarrow> Inr steps))))"

definition after_execution :: "graph_state \<Rightarrow> step_result list \<Rightarrow> string list \<Rightarrow> graph_state" where
  "after_execution st results completed =
     st\<lparr>gs_phase := Evaluate, gs_execution_result := Some results, gs_completed_step_ids := completed\<rparr>"

definition execute_node_parallel ::
  "'w graph_env \<Rightarrow> nat \<Rightarrow> nat list list \<Rightarrow> graph_state \<Rightarrow> 'w \<Rightarrow> ((string, node_result) result \<times> 'w) option" where
  "execute_node_parallel env limit iss st w =
     (case plan_to_run st of
        Inl answer \<Rightarrow> Some (answer, w)
      | Inr steps \<Rightarrow>
          map_option (\<lambda>(results, x). (Inr (Next (after_execution st results (es_completed x))), es_world x))
            (execute_parallel env limit iss steps
               \<lparr>es_outputs = (\<lambda>_. None), es_completed = gs_completed_step_ids st, es_world = w\<rparr>))"

lemma execute_node_by_plan:
  "execute_node env st w =
     (case plan_to_run st of
        Inl answer \<Rightarrow> (answer, w)
      | Inr steps \<Rightarrow>
          (case run_steps env (execution_order steps)
                  \<lparr>es_outputs = (\<lambda>_. None), es_completed = gs_completed_step_ids st, es_world = w\<rparr> of
             (results, x) \<Rightarrow> (Inr (Next (after_execution st results (es_completed x))), es_world x)))"
  by (auto simp: execute_node_def plan_to_run_def after_execution_def Let_def split: option.splits sum.splits list.splits prod.splits)

text \<open>Both modes leave the same state, up to the order of the completed identifiers.\<close>

lemma execute_node_modes:
  assumes "pure_tools env" and "\<And>steps. plan_to_run st = Inr steps \<Longrightarrow> distinct (map ps_id steps)"
    and "execute_node_parallel env limit iss st w = Some (answer, w')"
  shows "answer = fst (execute_node env st w)
    \<or> (\<exists>results done1 done2. answer = Inr (Next (after_execution st results done1))
        \<and> fst (execute_node env st w) = Inr (Next (after_execution st results done2)) \<and> set done1 = set done2)"
proof (cases "plan_to_run st")
  case (Inl a)
  then show ?thesis using assms(3) by (simp add: execute_node_parallel_def execute_node_by_plan)
next
  case (Inr steps)
  let ?x = "\<lparr>es_outputs = (\<lambda>_. None), es_completed = gs_completed_step_ids st, es_world = w\<rparr>"
  obtain results x' where run: "execute_parallel env limit iss steps ?x = Some (results, x')"
      "answer = Inr (Next (after_execution st results (es_completed x')))"
    using assms(3) Inr by (auto simp: execute_node_parallel_def)
  have "results = fst (run_steps env (execution_order steps) ?x) \<and> same_progress x' (snd (run_steps env (execution_order steps) ?x))"
    by (rule execute_parallel_sequential [OF assms(2) [OF Inr] assms(1) run(1)])
  then show ?thesis using run(2) Inr
    by (auto simp: execute_node_by_plan same_progress_def split: prod.splits)
qed

text \<open>Two steps that make one batch.\<close>

definition two_steps :: "plan_step list" where
  "two_steps =
     [\<lparr>ps_id = ''a'', ps_tool_name = ''echo'', ps_arguments = []\<rparr>, \<lparr>ps_id = ''b'', ps_tool_name = ''add'', ps_arguments = []\<rparr>]"

definition exec_start :: "unit exec_state" where
  "exec_start = \<lparr>es_outputs = (\<lambda>_. None), es_completed = [], es_world = ()\<rparr>"

definition naming_env :: "unit graph_env" where
  "naming_env = grumpy_env\<lparr>ge_call_tool := (\<lambda>tool _ w. (TOk (JStr tool), w))\<rparr>"

lemma two_steps_batches: "step_batches two_steps = Some [two_steps]"
proof -
  have "build_dag two_steps = [(''a'', []), (''b'', [])]" by (simp add: two_steps_def build_dag_def step_refs_def)
  then show ?thesis
    by (simp add: two_steps_def step_batches_def topo_batches.simps ready_def deps_of_def map_filter_simps step_map_def)
qed

lemma two_steps_distinct: "distinct (map ps_id two_steps)"
  by (simp add: two_steps_def)


lemma parallel_batch_bounded_witness:
  "\<exists>ts x1. run_schedule naming_env 1 [0, 1] (fresh_tasks two_steps, exec_start) = Some (ts, x1) \<and> calls ts \<le> 1
    \<and> (\<exists>js. run_batch naming_env 1 ([0, 1] @ js) two_steps exec_start \<noteq> None)"
proof -
  have "run_schedule naming_env 1 [0, 1] (fresh_tasks two_steps, exec_start) \<noteq> None"
    by (simp add: two_steps_def exec_start_def fresh_tasks_def batch_next_def)
  then obtain ts x1 where run: "run_schedule naming_env 1 [0, 1] (fresh_tasks two_steps, exec_start) = Some (ts, x1)" by auto
  from parallel_batch_bounded [OF two_steps_distinct two_steps_batches _ run] run show ?thesis by simp
qed

end
