(* ===== verification/Eval_Main.thy ===== *)
theory Eval_Main
  imports Eval_Runner
begin

section \<open>The command of the evaluation harness (evals/runner.py)\<close>

text \<open>
  \<open>main\<close>: listing the data sets, or running the selected ones and printing the summary of the report.
  The options are those \<open>argparse\<close> has read; \<open>nf_pct\<close> is the format \<open>.1%\<close>, \<open>nf_fixed n\<close> the format with
  \<open>n\<close> decimals. What the command has printed is a list of lines, beside the way it ended.
\<close>

record num_formats =
  nf_pct :: "real \<Rightarrow> string"
  nf_fixed :: "nat \<Rightarrow> real \<Rightarrow> string"

text \<open>The commit, from the output of \<open>git rev-parse\<close> if that succeeds.\<close>

definition git_sha :: "string option \<Rightarrow> string" where
  "git_sha output = (case output of Some s \<Rightarrow> py_strip s | None \<Rightarrow> ''unknown'')"

definition count_at :: "(string \<times> nat) list \<Rightarrow> string \<Rightarrow> nat" where
  "count_at d k = (case map_of d k of Some n \<Rightarrow> n | None \<Rightarrow> 0)"

definition oracle_line :: "(string \<times> nat) list \<Rightarrow> string" where
  "oracle_line d = ''Oracle comparison: working='' @ show_nat (count_at d ''working'')
     @ '', retrieval_failure='' @ show_nat (count_at d ''retrieval_failure'')
     @ '', generation_failure='' @ show_nat (count_at d ''generation_failure'')
     @ '', both_failing='' @ show_nat (count_at d ''both_failing'')"

definition retrieval_lines :: "num_formats \<Rightarrow> ds_report \<Rightarrow> string list" where
  "retrieval_lines nf r =
     (case ds_retrieval_metrics r of
        Some (m # rest) \<Rightarrow>
          (let shown = (\<lambda>k. nf_fixed nf 4 (score_at (m # rest) k))
           in [nl @ ''--- Retrieval Metrics (rag_qa) ---'', ''recall@1:          '' @ shown ''recall@1'',
               ''recall@5:          '' @ shown ''recall@5'', ''MRR:               '' @ shown ''mrr'',
               ''nDCG@10:           '' @ shown ''ndcg@10'', ''context_precision: '' @ shown ''context_precision'']
              @ (case ds_oracle_summary r of Some (c # cs) \<Rightarrow> [oracle_line (c # cs)] | _ \<Rightarrow> []))
      | _ \<Rightarrow> [])"

definition calibration_lines :: "num_formats \<Rightarrow> calibration \<Rightarrow> string list" where
  "calibration_lines nf cal =
     (case cal of
        Calibrated a \<Rightarrow> [''Judge-human: '' @ nf_pct nf (ag_accuracy a) @ '' accuracy, kappa='' @ nf_fixed nf 2 (ag_kappa a)]
      | _ \<Rightarrow> [])"

definition report_path :: "string \<Rightarrow> string \<Rightarrow> string" where
  "report_path results_dir tag = results_dir @ ''/'' @ tag @ ''.json''"

definition summary_lines :: "num_formats \<Rightarrow> string \<Rightarrow> real \<Rightarrow> eval_report \<Rightarrow> string list" where
  "summary_lines nf results_dir elapsed r =
     (let rate = rp_overall_pass_rate r; bar = replicate 60 (CHR ''='')
      in [nl @ bar, ''Eval complete: '' @ rp_tag r, bar, ''Examples:    '' @ show_nat (rp_total_examples r),
          ''Pass rate:   '' @ nf_pct nf (wi_proportion rate) @ '' ['' @ nf_pct nf (wi_lower rate) @ '', '' @ nf_pct nf (wi_upper rate) @ '']'',
          ''MDE:         '' @ nf_pct nf (rp_mde r)]
         @ (case map_of (rp_datasets r) ''rag_qa'' of Some d \<Rightarrow> retrieval_lines nf d | None \<Rightarrow> [])
         @ calibration_lines nf (rp_calibration r)
         @ [''Results:     '' @ report_path results_dir (rp_tag r), ''Elapsed:     '' @ nf_fixed nf 1 elapsed @ ''s''])"

fun list_lines :: "(string \<Rightarrow> (string, json list) result) \<Rightarrow> string list \<Rightarrow> string list \<times> string option" where
  "list_lines load [] = ([], None)"
| "list_lines load (ds # names) =
     (case load ds of
        Inl e \<Rightarrow> ([], Some e)
      | Inr examples \<Rightarrow>
          (case list_lines load names of
             (ls, e) \<Rightarrow> ((''  '' @ ds @ '': '' @ show_nat (length examples) @ '' examples'') # ls, e)))"

record eval_args =
  ea_list :: bool
  ea_all :: bool
  ea_dataset :: "string option"
  ea_tag :: "string option"
  ea_dry_run :: bool

text \<open>\<open>names\<close> are the files of the directory \<open>dir\<close> of data sets; the report is written to \<open>report_path\<close>.\<close>

definition eval_main ::
  "harness \<Rightarrow> num_formats \<Rightarrow> (string \<Rightarrow> string list option) \<Rightarrow> string list \<Rightarrow> string \<Rightarrow> string \<Rightarrow> string list option
     \<Rightarrow> string option \<Rightarrow> real \<Rightarrow> eval_args \<Rightarrow> (string \<times> eval_report) option \<times> string list \<times> string option" where
  "eval_main h nf files names dir results_dir calibration_set git elapsed args =
     (if ea_list args then (None, list_lines (load_dataset files dir) (list_datasets names))
      else case selected_datasets names (ea_all args) (ea_dataset args) of
             None \<Rightarrow> (None, [], Some ''Specify --dataset NAME or --all'')
           | Some datasets \<Rightarrow>
               (case run_eval h files dir calibration_set (git_sha git) datasets (ea_tag args) (ea_dry_run args) of
                  Inl e \<Rightarrow> (None, [], Some e)
                | Inr report \<Rightarrow> (Some (report_path results_dir (rp_tag report), report),
                    summary_lines nf results_dir elapsed report, None)))"

text \<open>A dry run reports neither retrieval metrics nor a calibration: no measured number is printed but the pass rate.\<close>

definition unmeasured :: "example_result list \<Rightarrow> bool" where
  "unmeasured rs \<longleftrightarrow> (\<forall>r \<in> set rs. er_retrieval r = None)"

lemma all_some_set: "all_some xs = Some ys \<Longrightarrow> y \<in> set ys \<Longrightarrow> Some y \<in> set xs"
  by (induction xs arbitrary: ys) (auto split: option.splits)

lemma dry_unmeasured:
  assumes "all_some (map (run_example h ds True) examples) = Some rs"
  shows "unmeasured rs"
  using all_some_set [OF assms] by (fastforce simp: unmeasured_def run_example_def blank_result_def split: option.splits)

lemma run_datasets_dry:
  assumes "run_datasets h load True names acc = Inr out" and "\<forall>rs \<in> snd ` set acc. unmeasured rs"
  shows "\<forall>rs \<in> snd ` set out. unmeasured rs"
  using assms
proof (induction names arbitrary: acc)
  case (Cons ds names)
  then obtain examples rs where ex: "load ds = Inr examples" "all_some (map (run_example h ds True) examples) = Some rs"
    "run_datasets h load True names (AList.update ds rs acc) = Inr out"
    by (auto split: sum.splits option.splits)
  have "\<forall>r \<in> snd ` set (AList.update ds rs acc). unmeasured r"
    using Cons.prems(2) dry_unmeasured [OF ex(2)] by (induction acc) auto
  with Cons.IH [OF ex(3)] show ?case .
qed simp

lemma dataset_reports_from:
  assumes "dataset_reports h results = Inr out" and "(ds, d) \<in> set out"
  shows "\<exists>rs. (ds, rs) \<in> set results \<and> dataset_report h ds rs = Inr d"
  using assms
proof (induction results arbitrary: out)
  case (Cons r results)
  obtain ds1 rs1 where r: "r = (ds1, rs1)" by (cases r)
  with Cons.prems(1) obtain d1 out1 where one: "dataset_report h ds1 rs1 = Inr d1" "dataset_reports h results = Inr out1"
    "out = (ds1, d1) # out1"
    by (auto split: sum.splits)
  with Cons.prems(2) Cons.IH [OF one(2)] r show ?case by auto
qed simp

lemma report_unmeasured:
  assumes "dataset_report h ds rs = Inr d" and "unmeasured rs"
  shows "ds_retrieval_metrics d = None"
proof -
  have "present er_retrieval rs = []" using assms(2) by (auto simp: unmeasured_def present_def)
  then show ?thesis using assms(1) by (auto simp: dataset_report_def Let_def split: sum.splits if_splits)
qed

lemma dry_run_prints_no_metrics:
  assumes "ea_dry_run args" and "eval_main h nf files names dir results_dir calibration_set git elapsed args = (Some (path, report), ls, e)"
  shows "rp_calibration report = Skipped \<and> length ls = 8"
proof -
  obtain datasets where run: "run_eval h files dir calibration_set (git_sha git) datasets (ea_tag args) True = Inr report"
    and ls: "ls = summary_lines nf results_dir elapsed report"
    using assms by (auto simp: eval_main_def split: if_splits option.splits sum.splits)
  then obtain results tag where results: "run_datasets h (load_dataset files dir) True datasets [] = Inr results"
    and built: "build_report h results tag Skipped = Inr report"
    by (auto simp: run_eval_def Let_def split: sum.splits)
  then have cal: "rp_calibration report = Skipped" and ds: "dataset_reports h results = Inr (rp_datasets report)"
    by (auto simp: build_report_def Let_def split: sum.splits)
  have "ds_retrieval_metrics d = None" if "(n, d) \<in> set (rp_datasets report)" for n d
    using dataset_reports_from [OF ds that] run_datasets_dry [OF results] by (force intro: report_unmeasured)
  then have "retrieval_lines nf d = []" if "map_of (rp_datasets report) n = Some d" for n d
    using map_of_SomeD [OF that] by (simp add: retrieval_lines_def)
  then show ?thesis using cal ls by (simp add: summary_lines_def calibration_lines_def Let_def split: option.split)
qed

end
