(* ===== verification/Spec2Isabelle.thy ===== *)
theory Spec2Isabelle
  imports Circuit_Breaker Redlock Eventlog Message_Bus Scheduler Chunker Economics Auth KV_Store Fleet PII_Gate LLM_Router Optimizer Crew MCP_Client Gateway Eval_Metrics Evaluator Adapters Bridge Eval_Runner Trace_Publisher Deployment Gateway_Fleet Gateway_Http Parallel_Graph Eval_Main
begin

text \<open>
  This development models the Python sources of the MCP Agent Factory: a gateway that offers tools to
  language-model clients over JSON-RPC, guarded by OAuth tokens and a filter for personal data; the
  orchestrators, agents and crews that plan with a language model and call those tools; the knowledge
  base; the reliable-messaging primitives below; and the evaluation harness. Paths are relative to
  \<open>src/src/mcp_agent_factory/\<close> unless they start with \<open>evals/\<close>.

  How the code became definitions. A class is a record of its fields, an operation is a function that
  takes the record (and the state of whatever it calls) and returns the result with the new state; an
  exception is the left side of a sum (\<open>'e + 'a\<close>, called \<open>result\<close>) or \<open>None\<close>, and every early return
  is a branch. Dictionaries that keep an order are association lists updated with \<open>AList.update\<close>.
  Untyped JSON values are the datatype \<open>json\<close>; Python's integers are \<open>int\<close>; floats are exact reals
  where only their order and arithmetic matter and carry an explicit overflow where the code can reach
  it (\<open>MCP_Server.pyfloat\<close>); strings are lists of 8-bit characters, so case and character classes are
  those of ASCII and Latin-1. An \<open>async\<close> function is the function of its body; what other coroutines
  do at its suspension points is a change of the shared state between steps, made explicit where the
  order matters (locks, streams, the bus).

  Parts.
  \<^item> Shared: \<open>Prelude\<close> (results, dictionaries, slices), \<open>Py_String\<close>, \<open>Pattern\<close> (the regular
    expressions, as a backtracking matcher), \<open>Json\<close> (values, \<open>dumps\<close>, \<open>loads\<close> and their round
    trip), \<open>Json_Pretty\<close> (the indented form, read back by the same \<open>loads\<close>), \<open>Redis_Client\<close> (the client interface, its laws as a locale, an in-memory model).
  \<^item> Reliability (\<open>streams/\<close>): \<open>Circuit_Breaker\<close>, \<open>Idempotency\<close>, \<open>Redlock\<close>, \<open>Eventlog\<close>,
    \<open>Stream_Worker\<close>; \<open>KV_Store\<close> (\<open>kv/store.py\<close>, \<open>session/manager.py\<close>); \<open>Message_Bus\<close>
    (\<open>messaging/\<close>); \<open>Scheduler\<close> (\<open>scheduler.py\<close>); \<open>Fleet\<close> (the job API and one
    worker of \<open>gateway/fleet.py\<close>) and \<open>Fleet_Pool\<close> (its worker loop, with the jobs that run at the
    same time).
  \<^item> Knowledge: \<open>Vector_Store\<close>, \<open>Chunker\<close> (\<open>knowledge/\<close>, \<open>gateway/pruner.py\<close>,
    \<open>agents/librarian.py\<close>); \<open>Economics\<close> (\<open>economics/\<close>).
  \<^item> Security: \<open>Auth\<close> (\<open>auth/\<close>), \<open>PII_Gate\<close> (\<open>gateway/validation.py\<close>), \<open>Bridge\<close> (\<open>bridge/\<close>).
  \<^item> Language models: \<open>LLM_Router\<close> (\<open>gateway/router.py\<close>), \<open>Adapters\<close> (\<open>adapters.py\<close>),
    \<open>Optimizer\<close> (\<open>optimizer.py\<close>), \<open>Trace_Publisher\<close> (\<open>scripts/publish_traces.py\<close>, which feeds it).
  \<^item> Orchestration: \<open>MCP_Server\<close> (\<open>server.py\<close>, \<open>server_http.py\<close>), \<open>MCP_Client\<close>
    (\<open>orchestrator.py\<close>, \<open>react_loop.py\<close>, \<open>structured_agent.py\<close>), \<open>Graph_Orchestrator\<close>
    (steps one by one), \<open>Parallel_Graph\<close> (its parallel mode: batches of tasks under a semaphore),
    \<open>Crew\<close>, \<open>Evaluator\<close>, \<open>Agent_Models\<close>, \<open>Agents\<close>, and \<open>Gateway\<close> (\<open>gateway/app.py\<close>,
    \<open>service_layer.py\<close>, \<open>sampling.py\<close>), which composes the rest behind the dispatcher.
  \<^item> The whole service: \<open>Gateway_Http\<close> (every other route of the gateway and the open event streams as
    one machine), \<open>Gateway_Fleet\<close> (the fleet's jobs run by the gateway's agent dispatcher),
    \<open>Deployment\<close> (start-up and shutdown, configuration from the environment, lazily created resources,
    discovery documents, the token command, the set-up of tracing).
  \<^item> Evaluation (\<open>evals/\<close>): \<open>Eval_Metrics\<close>, \<open>Eval_Runner\<close>, \<open>Eval_Main\<close> (the command and what it prints).

  What is proved, by group.
  \<^item> State machines and their invariants: the breaker refines the abstract one and rejects exactly in
    its open phase; both locks exclude each other's holders; the logs and streams deliver each event
    once or at least once; the scheduler's queue is a stable priority queue and every task settles; the
    STDIO client stays in step with the server; concurrent fleet workers keep within their limit and do
    not disturb each other's records; what start-up opens, shutdown closes.
  \<^item> Security: authorization codes are single use and bound to client and verifier; a request without
    a valid token changes nothing in the gateway; what a caller sees depends on the caller's own tenant
    only; no personal datum of the modelled kinds enters the key-value store; a crew member calls no
    tool outside its scope; a provisioned bridge is always admitted; a minted token is accepted for its
    life time and no longer; a caller without a token moves nothing but the open routes. What the code
    leaves open is stated too: the event routes let anyone overhear tool calls, and fleet jobs run the
    agents without a token.
  \<^item> Functional correctness: chunking loses nothing, fusion ranks by reciprocal ranks, the auction picks
    the best offer, execution respects the references of a plan, the critic's verdict is the contract,
    the adapters lose nothing, the metrics are proportions, the interval brackets what was observed.
  \<^item> Equivalence: the two servers answer alike, the parallel mode of a plan ends with the state of the
    sequential one in every schedule, a fleet job does what a call of the dispatcher does.
  \<^item> Bounds and termination: the graph's run ends within its iteration bound, a batch never exceeds its
    semaphore, retries end, the results of the harness stay in range.

  Interfaces. Where a component relies on a provider the provider's laws are a locale, its client's
  lemmas are proved inside, and the provider's theory interprets it: \<open>redis_store\<close> on the in-memory
  server, \<open>gateway_invariant\<close> (what every operation of the gateway keeps) on the cleanliness of the
  store and on the growth of the bus, \<open>fleet_pool\<close> (jobs that leave the records alone) on the gateway's
  dispatcher.

  Parameters and their laws. Redis, Kafka, PostgreSQL, HTTP and the JOSE library, the language models,
  the embedding models, SHA-256, clocks and random tokens are arguments of the definitions. What the
  theorems rely on is stated as laws of these arguments: \<open>redis_store\<close> (a key-value map while the
  server is up), \<open>kafka_broker\<close>, \<open>stream_group\<close>, \<open>jwt_law\<close> (verification returns what was signed),
  \<open>phrase_laws\<close>. Each law is met by an in-memory instance, on which the witnesses run.

  Fuel. \<open>Gateway.handle_inner\<close> takes a depth for the tool calls nested in an orchestration (a nested
  orchestration gets one less and ends with an error at zero): every theorem holds for every depth.
  \<open>Graph_Orchestrator.graph_run\<close> takes LangGraph's recursion limit; \<open>graph_run_bounded\<close> shows that
  three nodes per iteration and one more are enough. \<open>Json.loads\<close> uses the length of its input, which
  \<open>loads_dumps\<close> shows to be enough. All other recursions are on the data.

  Not modelled: log lines, spans and metric counters; the wiring of FastAPI and uvicorn, the
  parsing of command lines; the setters by which tests inject their
  doubles; the embedding and cross-encoder models and the stub embedder; the read-only debug route of
  the fleet; the demonstration script \<open>scripts/demo_analyst.py\<close>, which prints what \<open>Agents\<close> models;
  infrastructure, documentation and tests.
\<close>

section \<open>The bridge, the authorization server and the gateway together\<close>

text \<open>
  \<^bold>\<open>C30.\<close> A provisioned bridge is always admitted. Whatever tokens the middleware has fetched and cached
  before, with whatever delays and failures, if it injects a header then a request that carries it
  within the next 59 seconds (less the delay \<open>d\<close> of the authorization server) passes the token check of
  \<open>POST /mcp\<close> in any gateway with the same key, and is dispatched with claims that name the bridge as
  subject: no cached token is ever used too close to its expiry. This holds for the client-credentials
  grant of the authorization server as for tokens signed with the shared secret.
\<close>

theorem bridge_always_admitted:
  assumes "jwt_law encode decode valid" and "provisioned env environ import_key encode c digest key d sub"
    and "0 \<le> d" and "d \<le> 3000"
    and "bridge_reach env (om_factory (build_middleware env environ import_key encode fresh)) m w"
    and "inject env m hdrs w = (Inr hdrs', m', w')"
    and "be_time env w \<le> be_time env w'" and "be_time env w' \<le> of_int later" and "of_int later < be_time env w + 59 - d"
  shows "\<exists>claims. map_of claims ''sub'' = Some (JStr sub)
    \<and> (\<forall>g depth req gw. gateway_post g depth (verify_token decode (valid later) (Inr key) ''tools:call'' True)
          (map_of hdrs' ''Authorization'') req gw
        = (case gateway_dispatch g depth req (Some claims) gw of
             (Inl e, gw1) \<Rightarrow> (HServerError (error_of e), gw1)
           | (Inr r, gw1) \<Rightarrow> (HBody (gateway_json r), gw1)))"
  using injected_admitted [OF assms] by (auto simp: gateway_post_def)

lemma bridge_always_admitted_witness:
  "let env = \<lparr>be_http = \<lparr>hc_post = (\<lambda>_ _ _ _ w. (Inl ''down'', w)), hc_stream = (\<lambda>_ _ _ w. (Inl ''down'', w))\<rparr>,
      be_time = (\<lambda>w :: real. w), be_str = dumps, be_float = (\<lambda>_. 0)\<rparr>;
     m = build_middleware env [''JWT_SECRET'' \<mapsto> ''s3cret''] (\<lambda>_. ()) plain_encode (\<lambda>_. ''tok'')
   in \<exists>hdrs m' claims. inject env m [] 1000 = (Inr hdrs, m', 1000) \<and> map_of claims ''sub'' = Some (JStr ''bridge'')
     \<and> (\<forall>g depth req gw. gateway_post g depth (verify_token plain_decode (\<lambda>_. True) (Inr ()) ''tools:call'' True)
          (map_of hdrs ''Authorization'') req gw
        = (case gateway_dispatch g depth req (Some claims) gw of
             (Inl e, gw1) \<Rightarrow> (HServerError (error_of e), gw1)
           | (Inr r, gw1) \<Rightarrow> (HBody (gateway_json r), gw1)))"
proof -
  let ?env = "\<lparr>be_http = \<lparr>hc_post = (\<lambda>_ _ _ _ w. (Inl ''down'', w)), hc_stream = (\<lambda>_ _ _ w. (Inl ''down'', w))\<rparr>,
      be_time = (\<lambda>w :: real. w), be_str = dumps, be_float = (\<lambda>_. 0)\<rparr>"
  let ?environ = "[''JWT_SECRET'' \<mapsto> ''s3cret'']" and ?fresh = "\<lambda>_ :: real. ''tok''"
  let ?m = "build_middleware ?env ?environ (\<lambda>_. ()) plain_encode ?fresh"
  have prov: "provisioned ?env ?environ (\<lambda>_. ()) plain_encode mem_redis (map code) () 0 ''bridge''"
    by (simp add: provisioned_def is_set_def)
  have m: "?m = om_init (self_signed_factory ?env plain_encode () ?fresh ''bridge'')"
    by (simp add: build_middleware_def is_set_def)
  have fac: "om_factory ?m = self_signed_factory ?env plain_encode () ?fresh ''bridge''"
    by (simp add: m om_init_def)
  have reach: "bridge_reach ?env (om_factory ?m) ?m 1000" unfolding m by (simp add: om_init_def) (rule bridge_reach.start [unfolded om_init_def])
  obtain t e where minted: "self_signed_factory ?env plain_encode () ?fresh ''bridge'' 1000 = (Inr (t, e), 1000)"
    by (auto simp: self_signed_factory_def generate_session_id_def colon_def Let_def)
  obtain hdrs m' where inj: "inject ?env ?m [] 1000 = (Inr hdrs, m', 1000)"
    by (auto simp: inject_def get_token_def om_is_valid_def m om_init_def minted)
  from bridge_always_admitted [OF plain_jwt_law prov _ _ reach inj, of 1001] inj show ?thesis
    unfolding Let_def by auto
qed

end
